(* ===== verification/Prelude.thy ===== *)
theory Prelude
  imports Main "HOL-Library.Word" "HOL-Library.Monad_Syntax"
begin

unbundle bit_operations_syntax

text \<open>
  What every component theory shares: the names of C's fixed-width integers, arrays with
  their length, the kernel's status codes (\<^verbatim>\<open>include/kernel/core/status.h\<close>), the C string
  length, and the generic lemmas on words, arrays and options that the component proofs use
  as simplification rules.

  An array is a length and its cells.  Reading or writing a cell outside the length is
  undefined in C; the model makes it the value \<open>None\<close> (\<open>aread\<close>, \<open>awrite\<close>), so
  that a function that returns \<open>Some\<close> never left the arrays it indexes.

  A C string is the list of its bytes.  The end of the list stands for the terminating NUL,
  and a NUL inside the list ends the string earlier, as \<open>c_strlen\<close> computes.
\<close>

section \<open>Collections of facts\<close>

named_theorems word_nat \<open>word arithmetic read as arithmetic on natural numbers\<close>
named_theorems inv_intros \<open>operations that keep a component's invariant\<close>
named_theorems frame_simps \<open>fields an operation does not change\<close>

section \<open>Integers of the i386 C target\<close>

type_synonym u8 = "8 word"
type_synonym u16 = "16 word"
type_synonym u32 = "32 word"
type_synonym u64 = "64 word"

definition UINT32_MAX :: u32 where
  "UINT32_MAX = 4294967295"

definition UINT64_MAX :: u64 where
  "UINT64_MAX = 18446744073709551615"

lemma unat_UINT32_MAX [simp]: "unat UINT32_MAX = 4294967295"
  by (simp add: UINT32_MAX_def)

lemma unat_UINT64_MAX [simp]: "unat UINT64_MAX = 18446744073709551615"
  by (simp add: UINT64_MAX_def)

lemma unat_lt_u8: "unat (x :: u8) < 256"
  using unsigned_less [of x] by simp

lemma unat_lt_u32: "unat (x :: u32) < 4294967296"
  using unsigned_less [of x] by simp

lemma unat_lt_u64: "unat (x :: u64) < 18446744073709551616"
  using unsigned_less [of x] by simp

lemma word_less_unat [word_nat]: "a < b \<longleftrightarrow> unat a < unat (b :: 'a :: len word)"
  by (rule word_less_nat_alt)

lemma word_le_unat [word_nat]: "a \<le> b \<longleftrightarrow> unat a \<le> unat (b :: 'a :: len word)"
  by (rule word_le_nat_alt)

lemma word_eq_unat: "a = b \<longleftrightarrow> unat a = unat (b :: 'a :: len word)"
  by (simp add: word_unat_eq_iff)

text \<open>Sums, differences and products that stay in range.\<close>

lemma unat_add_u32: "unat a + unat b < 4294967296 \<Longrightarrow> unat (a + b :: u32) = unat a + unat b"
  by (simp add: unat_word_ariths)

lemma unat_add_u64:
  "unat a + unat b < 18446744073709551616 \<Longrightarrow> unat (a + b :: u64) = unat a + unat b"
  by (simp add: unat_word_ariths)

lemma unat_of_nat_u32: "n < 4294967296 \<Longrightarrow> unat (of_nat n :: u32) = n"
  by (simp add: unat_of_nat)

lemma of_nat_unat_eq: "unat w = n \<Longrightarrow> of_nat n = (w :: 'a :: len word)"
  by auto

lemma unat_add_of_nat_u32: "unat a + n < 4294967296 \<Longrightarrow> unat (a + of_nat n :: u32) = unat a + n"
  by (simp add: unat_add_u32 unat_of_nat)

lemma unat_sub_word: "b \<le> a \<Longrightarrow> unat (a - b :: 'a :: len word) = unat a - unat b"
  by (simp add: unat_sub)

lemma unat_Suc_u32: "a \<noteq> UINT32_MAX \<Longrightarrow> unat (a + 1 :: u32) = Suc (unat a)"
proof -
  assume "a \<noteq> UINT32_MAX"
  then have "unat a \<noteq> 4294967295"
    by (metis unat_UINT32_MAX word_eq_unat)
  with unat_lt_u32 [of a] have "unat a + unat (1 :: u32) < 4294967296" by simp
  then show ?thesis by (simp add: unat_add_u32)
qed

lemma unat_pred_word: "a \<noteq> 0 \<Longrightarrow> unat (a - 1 :: 'a :: len word) = unat a - 1"
  by (simp add: unat_minus_one)

lemma unat_pred_pos: "0 < unat a \<Longrightarrow> unat (a - 1 :: 'a :: len word) = unat a - 1"
  by (rule unat_pred_word) auto

lemma unat_inc_less: "a < b \<Longrightarrow> unat (a + 1) = Suc (unat (a :: 'a :: len word))"
proof -
  assume ab: "a < b"
  have "1 + a \<noteq> 0"
  proof
    assume "1 + a = 0"
    then have "a = - 1" by (simp add: add_eq_0_iff)
    with ab show False by (simp add: word_order.not_eq_extremum [symmetric])
  qed
  from unatSuc [OF this] show ?thesis by (simp add: add.commute)
qed

text \<open>Shifts and masks as division and remainder.\<close>

lemma unat_drop_bit_div: "unat (drop_bit n (w :: 'a :: len word)) = unat w div 2 ^ n"
proof -
  have "take_bit LENGTH('a) (unat w) = unat w"
    by (rule take_bit_nat_eq_self) (rule unsigned_less)
  then have "unat (drop_bit n w) = drop_bit n (unat w)" by (simp only: unsigned_drop_bit_eq)
  then show ?thesis by (rule trans [OF _ drop_bit_eq_div])
qed

lemma unat_take_bit_mod: "unat (take_bit n (w :: 'a :: len word)) = unat w mod 2 ^ n"
  by (rule trans [OF unsigned_take_bit_eq take_bit_eq_mod])

text \<open>A loop that divides by ten reaches zero, at any width.\<close>

lemma unat_div_ten_less: "v > 0 \<Longrightarrow> unat (v div 10) < unat (v :: 'a :: len word)"
proof -
  assume v: "v > 0"
  have "even (10 :: 'a word)" by simp
  then have "even (unat (10 :: 'a word))" by (metis bit_0 bit_unsigned_iff)
  then have ten: "unat (10 :: 'a word) \<noteq> 1" by (metis odd_one)
  have "0 < unat v" using v by (simp add: word_less_nat_alt)
  then have "unat v div unat (10 :: 'a word) < unat v"
    using ten by (cases "unat (10 :: 'a word) = 0") (simp_all only: div_by_0, simp add: div_less_dividend)
  then show ?thesis by (simp only: unat_div)
qed

lemma unat_ucast_u32_u64 [simp]: "unat (ucast (x :: u32) :: u64) = unat x"
  by (simp add: unsigned_ucast_eq take_bit_nat_eq_self_iff order_less_trans [OF unat_lt_u32])

lemma unat_ucast_u64_u32: "unat (ucast (x :: u64) :: u32) = unat x mod 4294967296"
  by (simp add: unsigned_ucast_eq take_bit_eq_mod)

section \<open>Arrays\<close>

datatype 'a carray = CArray (alen: nat) (acell: "nat \<Rightarrow> 'a")

definition afill :: "nat \<Rightarrow> 'a \<Rightarrow> 'a carray" where
  "afill n v = CArray n (\<lambda>_. v)"

definition aread :: "'a carray \<Rightarrow> nat \<Rightarrow> 'a option" where
  "aread a i = (if i < alen a then Some (acell a i) else None)"

definition awrite :: "'a carray \<Rightarrow> nat \<Rightarrow> 'a \<Rightarrow> 'a carray option" where
  "awrite a i v = (if i < alen a then Some (CArray (alen a) ((acell a)(i := v))) else None)"

definition acells :: "'a carray \<Rightarrow> 'a list" where
  "acells a = map (acell a) [0..<alen a]"

lemma alen_afill [simp]: "alen (afill n v) = n"
  and acell_afill [simp]: "acell (afill n v) i = v"
  by (simp_all add: afill_def)

lemma aread_in [simp]: "i < alen a \<Longrightarrow> aread a i = Some (acell a i)"
  by (simp add: aread_def)

lemma aread_out [simp]: "alen a \<le> i \<Longrightarrow> aread a i = None"
  by (simp add: aread_def)

lemma awrite_in [simp]: "i < alen a \<Longrightarrow> awrite a i v = Some (CArray (alen a) ((acell a)(i := v)))"
  by (simp add: awrite_def)

lemma awrite_out [simp]: "alen a \<le> i \<Longrightarrow> awrite a i v = None"
  by (simp add: awrite_def)

lemma awrite_alen: "awrite a i v = Some b \<Longrightarrow> alen b = alen a"
  by (auto simp: awrite_def split: if_splits)

lemma length_acells [simp]: "length (acells a) = alen a"
  by (simp add: acells_def)

lemma nth_acells [simp]: "i < alen a \<Longrightarrow> acells a ! i = acell a i"
  by (simp add: acells_def)

text \<open>The array with the list \<open>t\<close> stored from cell \<open>n\<close> on.\<close>

definition ablit :: "'a carray \<Rightarrow> nat \<Rightarrow> 'a list \<Rightarrow> 'a carray" where
  "ablit a n t = CArray (alen a) (\<lambda>i. if n \<le> i \<and> i < n + length t then t ! (i - n) else acell a i)"

lemma alen_ablit [simp]: "alen (ablit a n t) = alen a"
  by (simp add: ablit_def)

lemma acell_ablit: "acell (ablit a n t) i = (if n \<le> i \<and> i < n + length t then t ! (i - n) else acell a i)"
  by (simp add: ablit_def)

lemma ablit_Nil [simp]: "ablit a n [] = a"
  by (cases a) (auto simp: ablit_def fun_eq_iff)

lemma awrite_ablit: "n < alen a \<Longrightarrow> awrite a n v = Some (ablit a n [v])"
  by (auto simp: ablit_def)

lemma ablit_append: "ablit (ablit a n s) (n + length s) t = ablit a n (s @ t)"
  by (auto simp: ablit_def nth_append fun_eq_iff)

lemma ablit_Cons: "ablit (ablit a n [v]) (Suc n) t = ablit a n (v # t)"
  using ablit_append [of a n "[v]" t] by simp

lemma acells_ablit_0: "length t \<le> alen a \<Longrightarrow> acells (ablit a 0 t) = t @ drop (length t) (acells a)"
  by (rule nth_equalityI) (auto simp: acell_ablit nth_append)

section \<open>Counted loops\<close>

text \<open>\<open>for (i = a; i < b; i++) body\<close>, whose body may fault.\<close>

function for_range :: "nat \<Rightarrow> nat \<Rightarrow> (nat \<Rightarrow> 's \<Rightarrow> 's option) \<Rightarrow> 's \<Rightarrow> 's option" where
  "for_range i b body s =
     (if i < b then do { s' \<leftarrow> body i s; for_range (Suc i) b body s' } else Some s)"
  by pat_completeness auto
termination by (relation "measure (\<lambda>(i, b, body, s). b - i)") auto

declare for_range.simps [simp del]

lemma for_range_stop [simp]: "b \<le> i \<Longrightarrow> for_range i b body s = Some s"
  by (simp add: for_range.simps)

lemma for_range_step: "i < b \<Longrightarrow> for_range i b body s = Option.bind (body i s) (for_range (Suc i) b body)"
  by (simp add: for_range.simps)

lemma for_range_inv:
  assumes body: "\<And>i s. a \<le> i \<Longrightarrow> i < b \<Longrightarrow> P i s \<Longrightarrow> \<exists>s'. body i s = Some s' \<and> P (Suc i) s'"
    and ab: "a \<le> b" and init: "P a s"
  shows "\<exists>s'. for_range a b body s = Some s' \<and> P b s'"
proof -
  have "i \<le> b \<Longrightarrow> a \<le> i \<Longrightarrow> P i s \<Longrightarrow> \<exists>s'. for_range i b body s = Some s' \<and> P b s'" for i s
  proof (induction "b - i" arbitrary: i s)
    case 0
    then show ?case by simp
  next
    case (Suc n)
    then have ib: "i < b" by simp
    from body [OF Suc.prems(2) ib Suc.prems(3)] obtain s1 where
      "body i s = Some s1" "P (Suc i) s1" by blast
    with Suc.hyps(1) [of "Suc i" s1] Suc.hyps(2) Suc.prems ib show ?case
      by (simp add: for_range_step)
  qed
  from this [OF ab order_refl init] show ?thesis .
qed

section \<open>Status codes\<close>

datatype kernel_status =
    KERNEL_STATUS_OK
  | KERNEL_STATUS_INVALID_ARGUMENT
  | KERNEL_STATUS_NOT_READY
  | KERNEL_STATUS_UNAVAILABLE
  | KERNEL_STATUS_MALFORMED_DATA
  | KERNEL_STATUS_OUT_OF_MEMORY
  | KERNEL_STATUS_HARDWARE_FAILURE
  | KERNEL_STATUS_ALREADY_INITIALIZED

definition kernel_status_is_ok :: "kernel_status \<Rightarrow> bool" where
  "kernel_status_is_ok status \<longleftrightarrow> status = KERNEL_STATUS_OK"

text \<open>The enumerators' values, which order the codes as C orders them.\<close>

fun kernel_status_code :: "kernel_status \<Rightarrow> nat" where
  "kernel_status_code KERNEL_STATUS_OK = 0"
| "kernel_status_code KERNEL_STATUS_INVALID_ARGUMENT = 1"
| "kernel_status_code KERNEL_STATUS_NOT_READY = 2"
| "kernel_status_code KERNEL_STATUS_UNAVAILABLE = 3"
| "kernel_status_code KERNEL_STATUS_MALFORMED_DATA = 4"
| "kernel_status_code KERNEL_STATUS_OUT_OF_MEMORY = 5"
| "kernel_status_code KERNEL_STATUS_HARDWARE_FAILURE = 6"
| "kernel_status_code KERNEL_STATUS_ALREADY_INITIALIZED = 7"

lemma kernel_status_code_inject: "kernel_status_code a = kernel_status_code b \<longleftrightarrow> a = b"
  by (cases a; cases b) simp_all

instantiation kernel_status :: linorder
begin

definition less_eq_kernel_status :: "kernel_status \<Rightarrow> kernel_status \<Rightarrow> bool" where
  "less_eq_kernel_status a b \<longleftrightarrow> kernel_status_code a \<le> kernel_status_code b"

definition less_kernel_status :: "kernel_status \<Rightarrow> kernel_status \<Rightarrow> bool" where
  "less_kernel_status a b \<longleftrightarrow> kernel_status_code a < kernel_status_code b"

instance
  by standard
    (auto simp: less_eq_kernel_status_def less_kernel_status_def kernel_status_code_inject)

end

lemma kernel_status_is_ok_code: "kernel_status_is_ok s \<longleftrightarrow> kernel_status_code s = 0"
  by (cases s) (simp_all add: kernel_status_is_ok_def)

section \<open>C strings\<close>

type_synonym cstring = string

abbreviation NUL :: char where "NUL \<equiv> CHR 0x00"

fun c_strlen :: "cstring \<Rightarrow> nat" where
  "c_strlen [] = 0"
| "c_strlen (c # cs) = (if c = NUL then 0 else Suc (c_strlen cs))"

definition c_text :: "cstring \<Rightarrow> string" where
  "c_text s = takeWhile (\<lambda>c. c \<noteq> NUL) s"

lemma c_strlen_eq: "c_strlen s = length (c_text s)"
  by (induction s) (simp_all add: c_text_def)

lemma take_c_strlen: "take (c_strlen s) s = c_text s"
  by (induction s) (simp_all add: c_text_def)

lemma c_strlen_le: "c_strlen s \<le> length s"
  by (simp add: c_strlen_eq c_text_def length_takeWhile_le)

lemma c_text_no_NUL: "NUL \<notin> set s \<Longrightarrow> c_text s = s"
  by (auto simp: c_text_def)

lemma c_text_append_NUL: "NUL \<notin> set s \<Longrightarrow> c_text (s @ NUL # t) = s"
  by (induction s) (auto simp: c_text_def)

section \<open>Saturating counters\<close>

text \<open>The bounded diagnostic counters of \<^verbatim>\<open>interrupts.c\<close> and \<^verbatim>\<open>input.c\<close> stop at the maximum.\<close>

lemma unat_saturating:
  "unat (if c \<noteq> UINT32_MAX then c + 1 else c) = min 4294967295 (Suc (unat c))"
  using unat_lt_u32 [of c] by (auto simp: unat_Suc_u32 word_eq_unat)

end
