(* ===== verification/Memory.thy ===== *)
theory Memory
  imports Prelude
begin

text \<open>
  \<^verbatim>\<open>src/kernel/memory.c\<close> and \<^verbatim>\<open>include/kernel/boot/multiboot.h\<close>: the kernel's copy of the
  memory map.  The boot loader's tables lie in physical memory, which the model takes as a
  function from addresses to bytes; C's structure reads are little-endian loads at the
  structures' offsets.  The module's static variables are the record \<open>memory\<close>, each
  function takes and returns it.  \<open>None\<close> is an access outside \<open>memory_regions\<close>.
\<close>

section \<open>Physical memory and the Multiboot structures\<close>

type_synonym phys = "u32 \<Rightarrow> u8"

definition le_value :: "u8 list \<Rightarrow> nat" where
  "le_value bs = foldr (\<lambda>b v. unat b + 256 * v) bs 0"

definition load_bytes :: "phys \<Rightarrow> u32 \<Rightarrow> nat \<Rightarrow> u8 list" where
  "load_bytes m a n = map (\<lambda>i. m (a + of_nat i)) [0..<n]"

definition load32 :: "phys \<Rightarrow> u32 \<Rightarrow> u32" where
  "load32 m a = of_nat (le_value (load_bytes m a 4))"

definition load64 :: "phys \<Rightarrow> u32 \<Rightarrow> u64" where
  "load64 m a = of_nat (le_value (load_bytes m a 8))"

record multiboot_info =
  flags :: u32
  mem_lower :: u32
  mem_upper :: u32
  boot_device :: u32
  cmdline :: u32
  mods_count :: u32
  mods_addr :: u32
  syms :: "u32 list"
  mmap_length :: u32
  mmap_addr :: u32

definition sizeof_multiboot_info :: u32 where
  "sizeof_multiboot_info = 52"

definition load_multiboot_info :: "phys \<Rightarrow> u32 \<Rightarrow> multiboot_info" where
  "load_multiboot_info m a = \<lparr>
     flags = load32 m a,
     mem_lower = load32 m (a + 4),
     mem_upper = load32 m (a + 8),
     boot_device = load32 m (a + 12),
     cmdline = load32 m (a + 16),
     mods_count = load32 m (a + 20),
     mods_addr = load32 m (a + 24),
     syms = [load32 m (a + 28), load32 m (a + 32), load32 m (a + 36), load32 m (a + 40)],
     mmap_length = load32 m (a + 44),
     mmap_addr = load32 m (a + 48)\<rparr>"

definition MULTIBOOT_INFO_MEMORY :: u32 where
  "MULTIBOOT_INFO_MEMORY = push_bit 0 1"

definition MULTIBOOT_INFO_MEMORY_MAP :: u32 where
  "MULTIBOOT_INFO_MEMORY_MAP = push_bit 6 1"

definition MULTIBOOT_MEMORY_AVAILABLE :: u32 where
  "MULTIBOOT_MEMORY_AVAILABLE = 1"

text \<open>The packed memory-map entry: \<open>size\<close> does not count itself.\<close>

record multiboot_memory_map_entry =
  entry_size :: u32
  entry_base_addr :: u64
  entry_length :: u64
  entry_type :: u32

definition load_entry_size :: "phys \<Rightarrow> u32 \<Rightarrow> u32" where
  "load_entry_size m a = load32 m a"

definition load_entry :: "phys \<Rightarrow> u32 \<Rightarrow> multiboot_memory_map_entry" where
  "load_entry m a = \<lparr>
     entry_size = load_entry_size m a,
     entry_base_addr = load64 m (a + 4),
     entry_length = load64 m (a + 12),
     entry_type = load32 m (a + 20)\<rparr>"

text \<open>\<open>sizeof(multiboot_memory_map_entry_t) - sizeof(uint32_t)\<close>, the packed 24 bytes less 4.\<close>

definition MULTIBOOT_MEMORY_MAP_BASE_SIZE :: u32 where
  "MULTIBOOT_MEMORY_MAP_BASE_SIZE = 24 - 4"

section \<open>The normalized map\<close>

definition MEMORY_MAX_REGIONS :: u32 where
  "MEMORY_MAX_REGIONS = 32"

datatype memory_region_type = MEMORY_REGION_USABLE | MEMORY_REGION_RESERVED

record memory_region =
  base_address :: u64
  region_length :: u64
  region_type :: memory_region_type

record memory =
  memory_initialized :: bool
  memory_basic_available :: bool
  memory_map_available :: bool
  memory_map_truncated :: bool
  memory_lower_kb :: u32
  memory_upper_kb :: u32
  memory_usable_region_count :: u32
  memory_reserved_region_count :: u32
  memory_total_usable_bytes :: u64
  memory_total_reserved_bytes :: u64
  memory_regions :: "memory_region carray"
  memory_region_count :: u32

text \<open>
  The static variables before the first call.  C zeroes the array, whose type fields then
  hold no enumerator; no read reaches a cell before a region is stored there.
\<close>

definition memory_static :: memory where
  "memory_static = \<lparr>
     memory_initialized = False,
     memory_basic_available = False,
     memory_map_available = False,
     memory_map_truncated = False,
     memory_lower_kb = 0,
     memory_upper_kb = 0,
     memory_usable_region_count = 0,
     memory_reserved_region_count = 0,
     memory_total_usable_bytes = 0,
     memory_total_reserved_bytes = 0,
     memory_regions = afill 32
       \<lparr>base_address = 0, region_length = 0, region_type = MEMORY_REGION_RESERVED\<rparr>,
     memory_region_count = 0\<rparr>"

definition memory_region_type_name :: "memory_region_type \<Rightarrow> cstring" where
  "memory_region_type_name t = (if t = MEMORY_REGION_USABLE then ''usable'' else ''reserved'')"

definition empty_region :: memory_region where
  "empty_region = \<lparr>base_address = 0, region_length = 0, region_type = MEMORY_REGION_RESERVED\<rparr>"

fun memory_reset_regions :: "nat \<Rightarrow> nat \<Rightarrow> memory_region carray \<Rightarrow> memory_region carray option" where
  "memory_reset_regions 0 i regions = Some regions"
| "memory_reset_regions (Suc n) i regions = do {
     regions' \<leftarrow> awrite regions i empty_region;
     memory_reset_regions n (i + 1) regions'
   }"

definition memory_reset_summary :: "memory \<Rightarrow> memory option" where
  "memory_reset_summary st = do {
     regions \<leftarrow> memory_reset_regions (unat MEMORY_MAX_REGIONS) 0 (memory_regions st);
     Some \<lparr>
       memory_initialized = False,
       memory_basic_available = False,
       memory_map_available = False,
       memory_map_truncated = False,
       memory_lower_kb = 0,
       memory_upper_kb = 0,
       memory_usable_region_count = 0,
       memory_reserved_region_count = 0,
       memory_total_usable_bytes = 0,
       memory_total_reserved_bytes = 0,
       memory_regions = regions,
       memory_region_count = 0\<rparr>
   }"

definition memory_add_region ::
  "u64 \<Rightarrow> u64 \<Rightarrow> memory_region_type \<Rightarrow> memory \<Rightarrow> memory option" where
  "memory_add_region base len t st =
     (if len = 0 then Some st
      else
        let st1 =
          (if t = MEMORY_REGION_USABLE
           then st\<lparr>memory_usable_region_count := memory_usable_region_count st + 1,
                   memory_total_usable_bytes := memory_total_usable_bytes st + len\<rparr>
           else st\<lparr>memory_reserved_region_count := memory_reserved_region_count st + 1,
                   memory_total_reserved_bytes := memory_total_reserved_bytes st + len\<rparr>)
        in
        if memory_region_count st1 \<ge> MEMORY_MAX_REGIONS
        then Some (st1\<lparr>memory_map_truncated := True\<rparr>)
        else do {
          regions \<leftarrow> awrite (memory_regions st1) (unat (memory_region_count st1))
             \<lparr>base_address = base, region_length = len, region_type = t\<rparr>;
          Some (st1\<lparr>memory_regions := regions,
                    memory_region_count := memory_region_count st1 + 1\<rparr>)
        })"

text \<open>An entry that passed the checks of the loop lies inside the table and moves it forward.\<close>

lemma entry_advance:
  fixes a e sz :: u32
  assumes "a < e" and "MULTIBOOT_MEMORY_MAP_BASE_SIZE \<le> sz" and "sz \<le> UINT32_MAX - 4"
    and "4 + sz \<le> e - a"
  shows "unat (4 + sz) = 4 + unat sz" and "unat (a + (4 + sz)) = unat a + 4 + unat sz"
    and "unat a + 4 + unat sz \<le> unat e" and "24 \<le> 4 + unat sz"
proof -
  from assms(2) show low: "24 \<le> 4 + unat sz"
    by (simp add: MULTIBOOT_MEMORY_MAP_BASE_SIZE_def word_le_nat_alt)
  have "unat sz \<le> 4294967291" using assms(3) by (simp add: UINT32_MAX_def word_le_nat_alt)
  then show t: "unat (4 + sz) = 4 + unat sz" by (simp add: unat_add_u32)
  have "unat (e - a) = unat e - unat a" using assms(1) by (simp add: unat_sub_word)
  with assms(4) t show u: "unat a + 4 + unat sz \<le> unat e"
    using assms(1) by (simp add: word_le_nat_alt word_less_nat_alt)
  then have "unat a + unat (4 + sz) < 4294967296" using unat_lt_u32 [of e] t by simp
  then show "unat (a + (4 + sz)) = unat a + 4 + unat sz" by (simp add: unat_add_u32 t)
qed

text \<open>The loop of \<open>memory_read_multiboot_map\<close>, with the check that follows it.\<close>

function memory_read_entries ::
  "phys \<Rightarrow> u32 \<Rightarrow> u32 \<Rightarrow> memory \<Rightarrow> (kernel_status \<times> memory) option" where
  "memory_read_entries m current_address end_address st =
     (if current_address < end_address then
        let remaining_bytes = end_address - current_address in
        if remaining_bytes < 4 then Some (KERNEL_STATUS_MALFORMED_DATA, st)
        else
        let size = load_entry_size m current_address in
        if size < MULTIBOOT_MEMORY_MAP_BASE_SIZE then Some (KERNEL_STATUS_MALFORMED_DATA, st)
        else if size > UINT32_MAX - 4 then Some (KERNEL_STATUS_MALFORMED_DATA, st)
        else
        let entry_total_size = 4 + size in
        if entry_total_size > remaining_bytes then Some (KERNEL_STATUS_MALFORMED_DATA, st)
        else
        let entry = load_entry m current_address in
        if entry_length entry \<noteq> 0 \<and> entry_base_addr entry > UINT64_MAX - entry_length entry
        then Some (KERNEL_STATUS_MALFORMED_DATA, st)
        else do {
          st' \<leftarrow> memory_add_region (entry_base_addr entry) (entry_length entry)
             (if entry_type entry = MULTIBOOT_MEMORY_AVAILABLE
              then MEMORY_REGION_USABLE else MEMORY_REGION_RESERVED) st;
          if memory_map_truncated st' then Some (KERNEL_STATUS_MALFORMED_DATA, st')
          else memory_read_entries m (current_address + entry_total_size) end_address st'
        }
      else if memory_region_count st = 0 then Some (KERNEL_STATUS_MALFORMED_DATA, st)
      else Some (KERNEL_STATUS_OK, st))"
  by pat_completeness auto

termination
proof (relation "measure (\<lambda>(m, a, e, st). unat e - unat a)", goal_cases)
  case 1
  show ?case by simp
next
  case (2 m a e st rem sz tot entry st')
  then have "a < e" "MULTIBOOT_MEMORY_MAP_BASE_SIZE \<le> sz" "sz \<le> UINT32_MAX - 4" "4 + sz \<le> e - a"
    by (simp_all add: not_less)
  from entry_advance [OF this] 2 show ?case by simp
qed

declare memory_read_entries.simps [simp del]

definition memory_read_multiboot_map ::
  "phys \<Rightarrow> multiboot_info option \<Rightarrow> memory \<Rightarrow> (kernel_status \<times> memory) option" where
  "memory_read_multiboot_map m info st =
     (case info of
        None \<Rightarrow> Some (KERNEL_STATUS_INVALID_ARGUMENT, st)
      | Some i \<Rightarrow>
          if mmap_addr i = 0 \<or> mmap_length i = 0 then Some (KERNEL_STATUS_INVALID_ARGUMENT, st)
          else
            let current_address = mmap_addr i in
            if mmap_length i > UINT32_MAX - current_address
            then Some (KERNEL_STATUS_MALFORMED_DATA, st)
            else memory_read_entries m current_address (current_address + mmap_length i) st)"

definition memory_initialize :: "phys \<Rightarrow> u32 \<Rightarrow> memory \<Rightarrow> (kernel_status \<times> memory) option" where
  "memory_initialize m multiboot_info_address st = do {
     st0 \<leftarrow> memory_reset_summary st;
     if multiboot_info_address = 0 then Some (KERNEL_STATUS_INVALID_ARGUMENT, st0)
     else
       let info = load_multiboot_info m multiboot_info_address;
           st1 = (if flags info AND MULTIBOOT_INFO_MEMORY \<noteq> 0
                  then st0\<lparr>memory_basic_available := True,
                           memory_lower_kb := mem_lower info,
                           memory_upper_kb := mem_upper info\<rparr>
                  else st0)
       in
       if flags info AND MULTIBOOT_INFO_MEMORY_MAP = 0 \<or> mmap_addr info = 0 \<or> mmap_length info = 0
       then Some (KERNEL_STATUS_UNAVAILABLE, st1)
       else do {
         (status, st2) \<leftarrow> memory_read_multiboot_map m (Some info) st1;
         if \<not> kernel_status_is_ok status then Some (status, st2)
         else Some (KERNEL_STATUS_OK, st2\<lparr>memory_map_available := True, memory_initialized := True\<rparr>)
       }
   }"

definition memory_get_region_count :: "memory \<Rightarrow> u32" where
  "memory_get_region_count st = memory_region_count st"

text \<open>A pointer into \<open>memory_regions\<close>, read through by every caller: \<open>Some None\<close> is NULL.\<close>

definition memory_get_region :: "u32 \<Rightarrow> memory \<Rightarrow> memory_region option option" where
  "memory_get_region index st =
     (if index \<ge> memory_region_count st then Some None
      else do { r \<leftarrow> aread (memory_regions st) (unat index); Some (Some r) })"

definition memory_is_initialized :: "memory \<Rightarrow> bool" where
  "memory_is_initialized st = memory_initialized st"

definition memory_was_map_truncated :: "memory \<Rightarrow> bool" where
  "memory_was_map_truncated st = memory_map_truncated st"

definition memory_get_total_usable_bytes :: "memory \<Rightarrow> u64" where
  "memory_get_total_usable_bytes st = memory_total_usable_bytes st"

definition memory_get_total_reserved_bytes :: "memory \<Rightarrow> u64" where
  "memory_get_total_reserved_bytes st = memory_total_reserved_bytes st"

section \<open>What a memory-map table is\<close>

text \<open>
  \<open>table_at m a es e\<close>: the entries \<open>es\<close> lie one after the other from address \<open>a\<close> and
  end exactly at \<open>e\<close>, each large enough for the fields the kernel reads and inside the
  table.
\<close>

fun table_at :: "phys \<Rightarrow> u32 \<Rightarrow> multiboot_memory_map_entry list \<Rightarrow> u32 \<Rightarrow> bool" where
  "table_at m a [] e \<longleftrightarrow> a = e"
| "table_at m a (x # xs) e \<longleftrightarrow>
     a < e \<and> load_entry m a = x \<and>
     20 \<le> unat (entry_size x) \<and> unat a + 4 + unat (entry_size x) \<le> unat e \<and>
     table_at m (a + (4 + entry_size x)) xs e"

definition entry_range_ok :: "multiboot_memory_map_entry \<Rightarrow> bool" where
  "entry_range_ok x \<longleftrightarrow>
     entry_length x \<noteq> 0 \<longrightarrow> unat (entry_base_addr x) + unat (entry_length x) < 2 ^ 64"

text \<open>The entries that become regions, and the region an entry becomes.\<close>

definition normalize_entry :: "multiboot_memory_map_entry \<Rightarrow> memory_region" where
  "normalize_entry x = \<lparr>
     base_address = entry_base_addr x,
     region_length = entry_length x,
     region_type =
       (if entry_type x = MULTIBOOT_MEMORY_AVAILABLE then MEMORY_REGION_USABLE
        else MEMORY_REGION_RESERVED)\<rparr>"

definition normalized :: "multiboot_memory_map_entry list \<Rightarrow> memory_region list" where
  "normalized es = map normalize_entry (filter (\<lambda>x. entry_length x \<noteq> 0) es)"

definition stored_regions :: "memory \<Rightarrow> memory_region list" where
  "stored_regions st = take (unat (memory_region_count st)) (acells (memory_regions st))"

definition usable :: "memory_region \<Rightarrow> bool" where
  "usable r \<longleftrightarrow> region_type r = MEMORY_REGION_USABLE"

text \<open>
  The invariant of the module after a reset: the array has its 32 cells, the count is within
  it, every stored region is nonempty and ends within 64 bits, and the counters and totals
  agree with the stored regions as long as nothing was cut off.
\<close>

definition memory_inv :: "memory \<Rightarrow> bool" where
  "memory_inv st \<longleftrightarrow>
     alen (memory_regions st) = 32 \<and> unat (memory_region_count st) \<le> 32 \<and>
     (\<forall>r\<in>set (stored_regions st). region_length r \<noteq> 0 \<and>
        unat (base_address r) + unat (region_length r) < 2 ^ 64) \<and>
     (\<not> memory_map_truncated st \<longrightarrow>
        memory_usable_region_count st = of_nat (length (filter usable (stored_regions st))) \<and>
        memory_reserved_region_count st =
          of_nat (length (filter (\<lambda>r. \<not> usable r) (stored_regions st))) \<and>
        memory_total_usable_bytes st =
          sum_list (map region_length (filter usable (stored_regions st))) \<and>
        memory_total_reserved_bytes st =
          sum_list (map region_length (filter (\<lambda>r. \<not> usable r) (stored_regions st))))"

section \<open>Facts about the steps of the loop\<close>

lemma load_entry_simps [simp]: "entry_size (load_entry m a) = load_entry_size m a"
  by (simp add: load_entry_def)

definition entry_fits :: "u32 \<Rightarrow> u32 \<Rightarrow> u32 \<Rightarrow> bool" where
  "entry_fits sz a e \<longleftrightarrow> 20 \<le> unat sz \<and> unat a + 4 + unat sz \<le> unat e"

lemma entry_fits_iff:
  assumes "a < e"
  shows "\<not> e - a < 4 \<and> \<not> sz < MULTIBOOT_MEMORY_MAP_BASE_SIZE \<and> \<not> UINT32_MAX - 4 < sz \<and>
    \<not> e - a < 4 + sz \<longleftrightarrow> entry_fits sz a e" (is "?l \<longleftrightarrow> ?r")
proof
  assume ?l
  then have "MULTIBOOT_MEMORY_MAP_BASE_SIZE \<le> sz" "sz \<le> UINT32_MAX - 4" "4 + sz \<le> e - a"
    by (simp_all add: not_less)
  from entry_advance [OF assms this] show ?r by (simp add: entry_fits_def)
next
  assume r: ?r
  have d: "unat (e - a) = unat e - unat a" using assms by (simp add: unat_sub_word)
  have "4 + unat sz < 4294967296" using r unat_lt_u32 [of e] by (simp add: entry_fits_def)
  then have t: "unat (4 + sz) = 4 + unat sz" by (simp add: unat_add_u32)
  then show ?l using r d unat_lt_u32 [of e]
    by (auto simp: entry_fits_def word_less_nat_alt MULTIBOOT_MEMORY_MAP_BASE_SIZE_def UINT32_MAX_def)
qed

lemma entry_range_ok_iff:
  "\<not> (entry_length x \<noteq> 0 \<and> UINT64_MAX - entry_length x < entry_base_addr x) \<longleftrightarrow> entry_range_ok x"
proof -
  have "unat (UINT64_MAX - entry_length x) = 18446744073709551615 - unat (entry_length x)"
    using unat_lt_u64 [of "entry_length x"] by (subst unat_sub_word) (simp_all add: word_le_nat_alt)
  then show ?thesis
    using unat_lt_u64 [of "entry_length x"]
    by (auto simp: entry_range_ok_def word_less_nat_alt)
qed

lemma memory_read_entries_step:
  assumes "a < e"
  shows "memory_read_entries m a e st =
    (let x = load_entry m a in
     if \<not> entry_fits (entry_size x) a e \<or> \<not> entry_range_ok x then Some (KERNEL_STATUS_MALFORMED_DATA, st)
     else do {
       st' \<leftarrow> memory_add_region (entry_base_addr x) (entry_length x) (region_type (normalize_entry x)) st;
       if memory_map_truncated st' then Some (KERNEL_STATUS_MALFORMED_DATA, st')
       else memory_read_entries m (a + (4 + load_entry_size m a)) e st'
     })"
  using assms entry_fits_iff [OF assms, of "load_entry_size m a"]
    entry_range_ok_iff [of "load_entry m a"]
  by (subst memory_read_entries.simps) (auto simp: Let_def normalize_entry_def)

lemma memory_read_entries_done:
  "\<not> a < e \<Longrightarrow> memory_read_entries m a e st =
     Some (if memory_region_count st = 0 then KERNEL_STATUS_MALFORMED_DATA else KERNEL_STATUS_OK, st)"
  by (subst memory_read_entries.simps) simp

lemma entry_fits_advance:
  assumes "a < e" and "entry_fits sz a e"
  shows "unat (a + (4 + sz)) = unat a + 4 + unat sz" and "a + (4 + sz) \<le> e"
proof -
  have "4 + unat sz < 4294967296" using assms(2) unat_lt_u32 [of e] by (simp add: entry_fits_def)
  then have t: "unat (4 + sz) = 4 + unat sz" by (simp add: unat_add_u32)
  then have "unat a + unat (4 + sz) < 4294967296"
    using assms(2) unat_lt_u32 [of e] by (simp add: entry_fits_def)
  then show u: "unat (a + (4 + sz)) = unat a + 4 + unat sz" by (simp add: unat_add_u32 t)
  then show "a + (4 + sz) \<le> e" using assms(2) by (simp add: entry_fits_def word_le_nat_alt)
qed

lemma table_at_less:
  "a < e \<Longrightarrow> table_at m a es e \<longleftrightarrow>
    (\<exists>xs. es = load_entry m a # xs \<and> entry_fits (load_entry_size m a) a e \<and>
       table_at m (a + (4 + load_entry_size m a)) xs e)"
  by (cases es) (auto simp: entry_fits_def)

text \<open>A table is determined by the bytes: there is at most one way to read it.\<close>

lemma table_at_unique: "table_at m a es e \<Longrightarrow> table_at m a es' e \<Longrightarrow> es = es'"
proof (induction es arbitrary: a es')
  case Nil
  then show ?case by (cases es') auto
next
  case (Cons x xs)
  then have "a < e" by simp
  with Cons show ?case by (auto simp: table_at_less)
qed

section \<open>Adding a region\<close>

text \<open>The state after storing one more region, as a function of the region.\<close>

definition memory_push :: "memory_region \<Rightarrow> memory \<Rightarrow> memory" where
  "memory_push r st =
     (if usable r
      then st\<lparr>memory_usable_region_count := memory_usable_region_count st + 1,
              memory_total_usable_bytes := memory_total_usable_bytes st + region_length r\<rparr>
      else st\<lparr>memory_reserved_region_count := memory_reserved_region_count st + 1,
              memory_total_reserved_bytes := memory_total_reserved_bytes st + region_length r\<rparr>)
     \<lparr>memory_regions := ablit (memory_regions st) (unat (memory_region_count st)) [r],
      memory_region_count := memory_region_count st + 1\<rparr>"

lemma length_stored_regions: "memory_inv st \<Longrightarrow> length (stored_regions st) = unat (memory_region_count st)"
  by (simp add: stored_regions_def memory_inv_def)

lemma stored_regions_push:
  assumes "memory_inv st" and "unat (memory_region_count st) < 32"
  shows "stored_regions (memory_push r st) = stored_regions st @ [r]"
proof -
  let ?n = "unat (memory_region_count st)"
  have n: "unat (memory_region_count st + 1) = Suc ?n" using assms(2) by (simp add: unat_add_u32)
  have a: "alen (memory_regions st) = 32" using assms(1) by (simp add: memory_inv_def)
  have "stored_regions (memory_push r st) =
      take (Suc ?n) (acells (ablit (memory_regions st) ?n [r]))"
    by (simp add: stored_regions_def memory_push_def n)
  also have "\<dots> = stored_regions st @ [r]"
    using a assms(2)
    by (intro nth_equalityI) (auto simp: stored_regions_def acell_ablit nth_append less_Suc_eq)
  finally show ?thesis .
qed

lemma memory_inv_push:
  assumes "memory_inv st" and "unat (memory_region_count st) < 32" and "region_length r \<noteq> 0"
    and "unat (base_address r) + unat (region_length r) < 2 ^ 64"
  shows "memory_inv (memory_push r st)"
proof -
  have n: "unat (memory_region_count st + 1) = Suc (unat (memory_region_count st))"
    using assms(2) by (simp add: unat_add_u32)
  have "alen (memory_regions (memory_push r st)) = 32"
    "unat (memory_region_count (memory_push r st)) \<le> 32"
    using assms n by (simp_all add: memory_push_def memory_inv_def)
  then show ?thesis
    using assms unfolding memory_inv_def stored_regions_push [OF assms(1,2)]
    by (auto simp: memory_push_def)
qed

lemma memory_push_frame:
  "memory_map_truncated (memory_push r st) = memory_map_truncated st"
  "memory_initialized (memory_push r st) = memory_initialized st"
  "memory_map_available (memory_push r st) = memory_map_available st"
  "memory_basic_available (memory_push r st) = memory_basic_available st"
  "memory_lower_kb (memory_push r st) = memory_lower_kb st"
  "memory_upper_kb (memory_push r st) = memory_upper_kb st"
  by (simp_all add: memory_push_def)

lemma memory_add_region_room:
  assumes "memory_inv st" and "len \<noteq> 0" and "unat (memory_region_count st) < 32"
  shows "memory_add_region base len t st =
    Some (memory_push \<lparr>base_address = base, region_length = len, region_type = t\<rparr> st)"
  using assms
  by (auto simp: memory_add_region_def memory_push_def memory_inv_def MEMORY_MAX_REGIONS_def
      word_le_nat_alt usable_def awrite_ablit simp del: awrite_in)

lemma memory_add_region_full:
  assumes "memory_inv st" and "len \<noteq> 0" and "unat (memory_region_count st) = 32"
  shows "\<exists>st'. memory_add_region base len t st = Some st' \<and> memory_map_truncated st' \<and>
    memory_inv st' \<and> stored_regions st' = stored_regions st \<and>
    memory_initialized st' = memory_initialized st \<and> memory_map_available st' = memory_map_available st"
  using assms
  by (auto simp: memory_add_region_def memory_inv_def MEMORY_MAX_REGIONS_def word_le_nat_alt stored_regions_def)

section \<open>The loop reads exactly the tables\<close>

text \<open>What the loop may do to a state with room left, from any position in the table.\<close>

definition table_fits :: "phys \<Rightarrow> u32 \<Rightarrow> u32 \<Rightarrow> memory \<Rightarrow> multiboot_memory_map_entry list \<Rightarrow> bool" where
  "table_fits m a e st es \<longleftrightarrow>
     table_at m a es e \<and> list_all entry_range_ok es \<and>
     stored_regions st @ normalized es \<noteq> [] \<and> length (stored_regions st @ normalized es) \<le> 32"

definition read_result ::
  "phys \<Rightarrow> u32 \<Rightarrow> u32 \<Rightarrow> memory \<Rightarrow> kernel_status \<Rightarrow> memory \<Rightarrow> bool" where
  "read_result m a e st s st' \<longleftrightarrow>
     memory_inv st' \<and> memory_initialized st' = memory_initialized st \<and>
     memory_map_available st' = memory_map_available st \<and>
     (s = KERNEL_STATUS_OK \<or> s = KERNEL_STATUS_MALFORMED_DATA) \<and>
     (s = KERNEL_STATUS_OK \<longleftrightarrow> (\<exists>es. table_fits m a e st es)) \<and>
     (s = KERNEL_STATUS_OK \<longrightarrow> \<not> memory_map_truncated st' \<and>
        (\<forall>es. table_at m a es e \<longrightarrow> stored_regions st' = stored_regions st @ normalized es))"

lemma normalized_Cons:
  "normalized (x # xs) = (if entry_length x = 0 then normalized xs else normalize_entry x # normalized xs)"
  by (simp add: normalized_def)

lemma read_result_stop:
  assumes "a < e" and "memory_inv st"
    and "\<not> entry_fits (load_entry_size m a) a e \<or> \<not> entry_range_ok (load_entry m a)"
  shows "read_result m a e st KERNEL_STATUS_MALFORMED_DATA st"
  using assms by (auto simp: read_result_def table_fits_def table_at_less)

text \<open>One entry read: what holds behind the next entry holds from this one.\<close>

lemma read_result_next:
  assumes "a < e" and "entry_fits (load_entry_size m a) a e" and "entry_range_ok (load_entry m a)"
    and "stored_regions st1 = stored_regions st @ normalized [load_entry m a]"
    and "memory_initialized st1 = memory_initialized st"
    and "memory_map_available st1 = memory_map_available st"
    and "read_result m (a + (4 + load_entry_size m a)) e st1 s st'"
  shows "read_result m a e st s st'"
proof -
  let ?x = "load_entry m a" and ?a = "a + (4 + load_entry_size m a)"
  obtain ns where ns: "normalized [?x] = ns" by simp
  have app: "normalized (?x # xs) = ns @ normalized xs" for xs
    unfolding ns [symmetric] by (simp add: normalized_def)
  have tab: "table_at m a es e \<longleftrightarrow> (\<exists>xs. es = ?x # xs \<and> table_at m ?a xs e)" for es
    using assms(1,2) by (simp add: table_at_less)
  have fits: "(\<exists>es. table_fits m a e st es) \<longleftrightarrow> (\<exists>xs. table_fits m ?a e st1 xs)"
    using assms(3,4) unfolding ns by (auto simp: table_fits_def tab app)
  show ?thesis
    using assms(4-7) unfolding ns read_result_def fits by (auto simp: tab app)
qed

text \<open>No room for the next region: no table that starts here fits.\<close>

lemma read_result_full:
  assumes "a < e" and "length (stored_regions st) = 32" and "entry_length (load_entry m a) \<noteq> 0"
    and "memory_inv st'" and "memory_initialized st' = memory_initialized st"
    and "memory_map_available st' = memory_map_available st"
  shows "read_result m a e st KERNEL_STATUS_MALFORMED_DATA st'"
  using assms by (auto simp: read_result_def table_fits_def table_at_less normalized_Cons)

lemma normalize_entry_range:
  "entry_range_ok x \<Longrightarrow> entry_length x \<noteq> 0 \<Longrightarrow>
   unat (base_address (normalize_entry x)) + unat (region_length (normalize_entry x)) < 2 ^ 64"
  by (simp add: normalize_entry_def entry_range_ok_def)

text \<open>Storing one entry: it is appended, or the array was full and the map is cut off.\<close>

lemma memory_add_entry:
  assumes inv: "memory_inv st" and "\<not> memory_map_truncated st" and "entry_range_ok x"
  shows "\<exists>st1. memory_add_region (entry_base_addr x) (entry_length x) (region_type (normalize_entry x)) st
      = Some st1 \<and> memory_inv st1 \<and> memory_initialized st1 = memory_initialized st \<and>
    memory_map_available st1 = memory_map_available st \<and>
    (if memory_map_truncated st1 then entry_length x \<noteq> 0 \<and> length (stored_regions st) = 32
     else stored_regions st1 = stored_regions st @ normalized [x])"
proof -
  have "unat (memory_region_count st) \<le> 32" using inv by (simp add: memory_inv_def)
  then consider (empty) "entry_length x = 0"
    | (room) "entry_length x \<noteq> 0" "unat (memory_region_count st) < 32"
    | (full) "entry_length x \<noteq> 0" "unat (memory_region_count st) = 32"
    by linarith
  then show ?thesis
  proof cases
    case empty
    then show ?thesis using assms by (simp add: memory_add_region_def normalized_def)
  next
    case room
    have r: "\<lparr>base_address = entry_base_addr x, region_length = entry_length x,
        region_type = region_type (normalize_entry x)\<rparr> = normalize_entry x"
      by (simp add: normalize_entry_def)
    have "memory_inv (memory_push (normalize_entry x) st)"
      using assms(3) room by (intro memory_inv_push [OF inv room(2)] normalize_entry_range)
        (auto simp: normalize_entry_def)
    then show ?thesis
      using room assms(2) memory_add_region_room [OF inv room]
      by (auto simp: r normalized_def memory_push_frame stored_regions_push [OF inv room(2)])
  next
    case full
    then show ?thesis
      using memory_add_region_full [OF inv full, of "entry_base_addr x" "region_type (normalize_entry x)"]
        length_stored_regions [OF inv] by auto
  qed
qed

lemma read_result_done:
  assumes "memory_inv st" and "\<not> memory_map_truncated st"
  shows "read_result m e e st
    (if memory_region_count st = 0 then KERNEL_STATUS_MALFORMED_DATA else KERNEL_STATUS_OK) st"
proof -
  have "table_at m e es e \<longleftrightarrow> es = []" for es by (cases es) auto
  moreover have "memory_region_count st = 0 \<longleftrightarrow> stored_regions st = []"
    using length_stored_regions [OF assms(1)] unat_eq_zero by fastforce
  moreover have "length (stored_regions st) \<le> 32"
    using length_stored_regions [OF assms(1)] assms(1) by (simp add: memory_inv_def)
  ultimately show ?thesis using assms by (simp add: read_result_def table_fits_def normalized_def)
qed

lemma memory_read_entries_spec:
  assumes "a \<le> e" and "memory_inv st" and "\<not> memory_map_truncated st"
  shows "\<exists>s st'. memory_read_entries m a e st = Some (s, st') \<and> read_result m a e st s st'"
  using assms
proof (induction "unat e - unat a" arbitrary: a st rule: less_induct)
  case less
  let ?x = "load_entry m a" and ?sz = "load_entry_size m a" and ?a = "a + (4 + load_entry_size m a)"
  consider (finished) "a = e" | (stop) "a < e" "\<not> entry_fits ?sz a e \<or> \<not> entry_range_ok ?x"
    | (entry) "a < e" "entry_fits ?sz a e" "entry_range_ok ?x"
    using less.prems(1) by fastforce
  then show ?case
  proof cases
    case finished
    then show ?thesis using read_result_done less.prems by (simp add: memory_read_entries_done)
  next
    case stop
    then show ?thesis
      using read_result_stop less.prems(2) by (auto simp: memory_read_entries_step Let_def)
  next
    case entry
    have dec: "unat e - unat ?a < unat e - unat a" "?a \<le> e"
      using entry_fits_advance [OF entry(1,2)] entry(1) by (auto simp: word_less_nat_alt)
    from memory_add_entry [OF less.prems(2,3) entry(3)] obtain st1 where st1:
      "memory_add_region (entry_base_addr ?x) (entry_length ?x) (region_type (normalize_entry ?x)) st
        = Some st1" "memory_inv st1" "memory_initialized st1 = memory_initialized st"
      "memory_map_available st1 = memory_map_available st"
      "if memory_map_truncated st1 then entry_length ?x \<noteq> 0 \<and> length (stored_regions st) = 32
       else stored_regions st1 = stored_regions st @ normalized [?x]" by blast
    show ?thesis
    proof (cases "memory_map_truncated st1")
      case True
      with st1 entry read_result_full [of a e st m st1] show ?thesis
        by (simp add: memory_read_entries_step Let_def)
    next
      case False
      from less.hyps [OF dec st1(2) False] obtain s st' where
        r: "memory_read_entries m ?a e st1 = Some (s, st')" "read_result m ?a e st1 s st'"
        by blast
      with read_result_next [OF entry(1-3), of st1 st s st'] st1 entry False show ?thesis
        by (simp add: memory_read_entries_step Let_def)
    qed
  qed
qed

section \<open>Initialization\<close>

lemma memory_reset_regions_eq:
  "i + n \<le> alen a \<Longrightarrow> memory_reset_regions n i a = Some (ablit a i (replicate n empty_region))"
proof (induction n arbitrary: i a)
  case (Suc n)
  then show ?case by (simp add: awrite_ablit ablit_Cons del: awrite_in)
qed simp

lemma memory_reset_summary_ok:
  assumes "alen (memory_regions st) = 32"
  shows "\<exists>st0. memory_reset_summary st = Some st0 \<and> memory_inv st0 \<and> stored_regions st0 = [] \<and>
    \<not> memory_initialized st0 \<and> \<not> memory_map_available st0 \<and> \<not> memory_map_truncated st0"
  using assms
  by (simp add: memory_reset_summary_def MEMORY_MAX_REGIONS_def memory_reset_regions_eq
      memory_inv_def stored_regions_def)

text \<open>The boot loader's information block names a well-formed memory-map table.\<close>

definition multiboot_table :: "phys \<Rightarrow> u32 \<Rightarrow> multiboot_memory_map_entry list \<Rightarrow> bool" where
  "multiboot_table m p es \<longleftrightarrow>
     (let info = load_multiboot_info m p in
      p \<noteq> 0 \<and> flags info AND MULTIBOOT_INFO_MEMORY_MAP \<noteq> 0 \<and> mmap_addr info \<noteq> 0 \<and>
      mmap_length info \<noteq> 0 \<and> unat (mmap_addr info) + unat (mmap_length info) < 2 ^ 32 \<and>
      table_at m (mmap_addr info) es (mmap_addr info + mmap_length info))"

lemma memory_read_multiboot_map_cases:
  assumes "mmap_addr i \<noteq> 0" and "mmap_length i \<noteq> 0"
  shows "memory_read_multiboot_map m (Some i) st =
    (if unat (mmap_addr i) + unat (mmap_length i) < 2 ^ 32
     then memory_read_entries m (mmap_addr i) (mmap_addr i + mmap_length i) st
     else Some (KERNEL_STATUS_MALFORMED_DATA, st))"
proof -
  have "unat (UINT32_MAX - mmap_addr i) = 4294967295 - unat (mmap_addr i)"
    using unat_lt_u32 [of "mmap_addr i"] by (subst unat_sub_word) (simp_all add: word_le_nat_alt)
  with assms show ?thesis
    using unat_lt_u32 [of "mmap_addr i"]
    by (auto simp: memory_read_multiboot_map_def word_less_nat_alt Let_def)
qed

lemma memory_ready_frame [simp]:
  "stored_regions (st\<lparr>memory_map_available := x, memory_initialized := y\<rparr>) = stored_regions st"
  "memory_inv (st\<lparr>memory_map_available := x, memory_initialized := y\<rparr>) = memory_inv st"
  by (simp_all add: stored_regions_def memory_inv_def)

lemma table_end: "unat a + unat l < 2 ^ 32 \<Longrightarrow> a \<le> a + (l :: u32)"
  by (simp add: word_le_nat_alt unat_add_u32)

section \<open>Properties of the memory map\<close>

lemma memory_initialize_decides:
  assumes "alen (memory_regions st) = 32"
  shows "\<exists>s st'. memory_initialize m p st = Some (s, st') \<and> memory_inv st' \<and>
    (s = KERNEL_STATUS_OK \<longleftrightarrow>
       (\<exists>es. multiboot_table m p es \<and> list_all entry_range_ok es \<and>
          1 \<le> length (normalized es) \<and> length (normalized es) \<le> 32)) \<and>
    (memory_is_initialized st' \<longleftrightarrow> s = KERNEL_STATUS_OK) \<and>
    (s = KERNEL_STATUS_OK \<longrightarrow> \<not> memory_was_map_truncated st' \<and>
       (\<forall>es. multiboot_table m p es \<longrightarrow> stored_regions st' = normalized es))"
proof -
  obtain st0 where st0: "memory_reset_summary st = Some st0" "memory_inv st0" "stored_regions st0 = []"
    "\<not> memory_initialized st0" "\<not> memory_map_available st0" "\<not> memory_map_truncated st0"
    using memory_reset_summary_ok [OF assms] by blast
  define i where "i = load_multiboot_info m p"
  define st1 where "st1 = (if flags i AND MULTIBOOT_INFO_MEMORY \<noteq> 0
    then st0\<lparr>memory_basic_available := True, memory_lower_kb := mem_lower i,
             memory_upper_kb := mem_upper i\<rparr> else st0)"
  have st1: "memory_inv st1" "stored_regions st1 = []" "\<not> memory_initialized st1"
    "\<not> memory_map_truncated st1"
    using st0 by (auto simp: st1_def memory_inv_def stored_regions_def)
  show ?thesis
  proof (cases "p \<noteq> 0 \<and> flags i AND MULTIBOOT_INFO_MEMORY_MAP \<noteq> 0 \<and> mmap_addr i \<noteq> 0 \<and>
      mmap_length i \<noteq> 0 \<and> unat (mmap_addr i) + unat (mmap_length i) < 2 ^ 32")
    case False
    then have "\<not> multiboot_table m p es" for es by (auto simp: multiboot_table_def i_def Let_def)
    with False st0 st1 show ?thesis
      by (auto simp: memory_initialize_def memory_is_initialized_def memory_read_multiboot_map_cases
          kernel_status_is_ok_def Let_def simp flip: i_def st1_def)
  next
    case True
    let ?a = "mmap_addr i" and ?e = "mmap_addr i + mmap_length i"
    have tab: "multiboot_table m p es \<longleftrightarrow> table_at m ?a es ?e" for es
      using True by (simp add: multiboot_table_def i_def Let_def)
    obtain s st' where r: "memory_read_entries m ?a ?e st1 = Some (s, st')" "read_result m ?a ?e st1 s st'"
      using memory_read_entries_spec [OF table_end st1(1,4)] True by blast
    let ?st = "if s = KERNEL_STATUS_OK
      then st'\<lparr>memory_map_available := True, memory_initialized := True\<rparr> else st'"
    have eq: "memory_initialize m p st = Some (s, ?st)"
      using True st0(1) r(1)
      by (simp add: memory_initialize_def memory_read_multiboot_map_cases kernel_status_is_ok_def
          Let_def flip: i_def st1_def)
    have ok: "(\<exists>es. table_fits m ?a ?e st1 es) \<longleftrightarrow>
       (\<exists>es. multiboot_table m p es \<and> list_all entry_range_ok es \<and>
          1 \<le> length (normalized es) \<and> length (normalized es) \<le> 32)"
      by (simp add: table_fits_def tab st1(2) Suc_le_eq)
    have "memory_inv ?st" "memory_is_initialized ?st \<longleftrightarrow> s = KERNEL_STATUS_OK"
      "s = KERNEL_STATUS_OK \<longrightarrow> \<not> memory_was_map_truncated ?st \<and>
         (\<forall>es. multiboot_table m p es \<longrightarrow> stored_regions ?st = normalized es)"
      using r(2) st1(2,3)
      by (simp_all add: read_result_def memory_is_initialized_def memory_was_map_truncated_def tab)
    moreover have "s = KERNEL_STATUS_OK \<longleftrightarrow> (\<exists>es. table_fits m ?a ?e st1 es)"
      using r(2) by (simp add: read_result_def)
    ultimately show ?thesis using eq unfolding ok by blast
  qed
qed

text \<open>
  C9. \<open>memory_initialize\<close> never leaves its region array, always ends in a well-formed
  state, and decides exactly one question: it returns OK (and reports itself initialized)
  if and only if the information block names a memory-map table that fills its length with
  entries that fit, no entry's range passes the end of the 64-bit address space, and between
  1 and 32 entries are nonempty. The regions stored are then those entries, in order.
\<close>

theorem memory_initialize_correct:
  assumes "alen (memory_regions st) = 32"
  shows "\<exists>s st'. memory_initialize m p st = Some (s, st') \<and> memory_inv st' \<and>
    (s = KERNEL_STATUS_OK \<longleftrightarrow>
       (\<exists>es. multiboot_table m p es \<and> list_all entry_range_ok es \<and>
          1 \<le> length (normalized es) \<and> length (normalized es) \<le> 32)) \<and>
    (memory_is_initialized st' \<longleftrightarrow> s = KERNEL_STATUS_OK) \<and>
    (s = KERNEL_STATUS_OK \<longrightarrow> \<not> memory_was_map_truncated st' \<and>
       (\<forall>es. multiboot_table m p es \<longrightarrow> stored_regions st' = normalized es))"
  using assms by (rule memory_initialize_decides)

section \<open>The parser reads nothing outside the table\<close>

definition agree_on :: "u32 \<Rightarrow> u32 \<Rightarrow> phys \<Rightarrow> phys \<Rightarrow> bool" where
  "agree_on a e m m' \<longleftrightarrow> (\<forall>x. a \<le> x \<and> x < e \<longrightarrow> m x = m' x)"

lemma load_bytes_agree:
  assumes "agree_on a e m m'" and "a \<le> b" and "unat b + n \<le> unat e"
  shows "load_bytes m b n = load_bytes m' b n"
proof -
  have "m (b + of_nat i) = m' (b + of_nat i)" if "i < n" for i
  proof -
    have i: "unat (of_nat i :: u32) = i"
      using that assms(3) unat_lt_u32 [of e] by (simp add: unat_of_nat)
    have "unat (b + of_nat i) = unat b + i"
      using that assms(3) unat_lt_u32 [of e] i by (subst unat_add_u32) simp_all
    then have "a \<le> b + of_nat i \<and> b + of_nat i < e"
      using that assms(2,3) by (simp add: word_le_nat_alt word_less_nat_alt)
    then show ?thesis using assms(1) by (simp add: agree_on_def)
  qed
  then show ?thesis by (simp add: load_bytes_def)
qed

lemma load_entry_size_agree:
  "agree_on a e m m' \<Longrightarrow> a < e \<Longrightarrow> \<not> e - a < 4 \<Longrightarrow> load_entry_size m a = load_entry_size m' a"
  using load_bytes_agree [of a e m m' a 4] unat_sub_word [OF less_imp_le [of a e]]
  by (auto simp: load_entry_size_def load32_def word_less_nat_alt)

lemma load_entry_agree:
  assumes "agree_on a e m m'" and "a < e" and "entry_fits (load_entry_size m a) a e"
  shows "load_entry m a = load_entry m' a"
proof -
  have f: "unat a + 24 \<le> unat e" using assms(3) by (simp add: entry_fits_def)
  have off: "unat (a + k) = unat a + unat k" if "unat k \<le> 24" for k
    using that f unat_lt_u32 [of e] by (intro unat_add_u32) simp
  have "load_bytes m (a + 4) 8 = load_bytes m' (a + 4) 8"
    "load_bytes m (a + 12) 8 = load_bytes m' (a + 12) 8"
    "load_bytes m (a + 20) 4 = load_bytes m' (a + 20) 4"
    "load_bytes m a 4 = load_bytes m' a 4"
    using f off [of 4] off [of 12] off [of 20]
    by (auto intro!: load_bytes_agree [OF assms(1)] simp: word_le_nat_alt)
  then show ?thesis by (simp add: load_entry_def load_entry_size_def load32_def load64_def)
qed

lemma memory_read_entries_agree:
  assumes "agree_on a e m m'"
  shows "memory_read_entries m a e st = memory_read_entries m' a e st"
  using assms
proof (induction "unat e - unat a" arbitrary: a st rule: less_induct)
  case less
  let ?sz = "load_entry_size m a"
  consider (finished) "\<not> a < e" | (short) "a < e" "e - a < 4"
    | (stop) "a < e" "\<not> e - a < 4" "\<not> entry_fits ?sz a e" | (entry) "a < e" "entry_fits ?sz a e"
    by blast
  then show ?case
  proof cases
    case finished
    then show ?thesis by (simp add: memory_read_entries_done)
  next
    case short
    then show ?thesis
      by (simp add: memory_read_entries.simps [of m] memory_read_entries.simps [of m'])
  next
    case stop
    then show ?thesis
      using load_entry_size_agree [OF less.prems stop(1,2)]
      by (simp add: memory_read_entries_step Let_def)
  next
    case entry
    have x: "load_entry m' a = load_entry m a"
      using load_entry_agree [OF less.prems entry] by simp
    then have sz: "load_entry_size m' a = ?sz" by (metis load_entry_simps)
    have adv: "unat e - unat (a + (4 + ?sz)) < unat e - unat a"
      "agree_on (a + (4 + ?sz)) e m m'"
      using entry_fits_advance [OF entry] entry(1) less.prems
      by (auto simp: word_less_nat_alt word_le_nat_alt agree_on_def)
    have "memory_read_entries m (a + (4 + ?sz)) e st1 = memory_read_entries m' (a + (4 + ?sz)) e st1" for st1
      by (rule less.hyps [OF adv])
    then show ?thesis using entry by (simp add: memory_read_entries_step Let_def x sz cong: if_cong)
  qed
qed

text \<open>
  The parser stays inside what the boot loader handed over: two physical memories with
  the same 52-byte information block and the same bytes in the memory-map range it names give
  the same result and the same kernel map, whatever the table's bytes say.
\<close>

theorem memory_initialize_local:
  assumes "load_multiboot_info m p = load_multiboot_info m' p"
    and "agree_on (mmap_addr (load_multiboot_info m p))
      (mmap_addr (load_multiboot_info m p) + mmap_length (load_multiboot_info m p)) m m'"
  shows "memory_initialize m p st = memory_initialize m' p st"
  using memory_read_entries_agree [OF assms(2)] assms(1)
  by (simp add: memory_initialize_def memory_read_multiboot_map_def Let_def cong: if_cong)

theorem memory_initialize_local_witness:
  "memory_initialize (\<lambda>a. if a = 48 then 1 else 0) 0x20 memory_static =
   memory_initialize (\<lambda>a. if a = 48 \<or> a = 0x5000 then 1 else 0) 0x20 memory_static"
  by (rule memory_initialize_local)
    (simp_all add: load_multiboot_info_def load32_def load_bytes_def le_value_def agree_on_def upt_rec)

section \<open>Encoding a table\<close>

fun le_bytes :: "nat \<Rightarrow> nat \<Rightarrow> u8 list" where
  "le_bytes 0 v = []"
| "le_bytes (Suc n) v = of_nat (v mod 256) # le_bytes n (v div 256)"

lemma length_le_bytes [simp]: "length (le_bytes n v) = n"
  by (induction n arbitrary: v) simp_all

lemma le_bytes_eq_Nil [simp]: "le_bytes n v = [] \<longleftrightarrow> n = 0"
  by (cases n) simp_all

lemma le_value_le_bytes: "le_value (le_bytes n v) = v mod 256 ^ n"
proof (induction n arbitrary: v)
  case 0
  then show ?case by (simp add: le_value_def)
next
  case (Suc n)
  have "unat (of_nat (v mod 256) :: u8) = v mod 256" by (simp add: unat_of_nat)
  then have "le_value (le_bytes (Suc n) v) = v mod 256 + 256 * (v div 256 mod 256 ^ n)"
    using Suc.IH [of "v div 256"] by (simp add: le_value_def)
  also have "\<dots> = v mod (256 * 256 ^ n)" by (simp add: mod_mult2_eq)
  finally show ?case by simp
qed

text \<open>
  The bytes of an entry: its four fields, little-endian, and whatever fills it up to its
  declared size.
\<close>

definition encode_entry :: "multiboot_memory_map_entry \<Rightarrow> u8 list \<Rightarrow> u8 list" where
  "encode_entry x pad =
     le_bytes 4 (unat (entry_size x)) @ le_bytes 8 (unat (entry_base_addr x)) @
     le_bytes 8 (unat (entry_length x)) @ le_bytes 4 (unat (entry_type x)) @ pad"

definition encode_table :: "(multiboot_memory_map_entry \<times> u8 list) list \<Rightarrow> u8 list" where
  "encode_table xs = concat (map (\<lambda>(x, pad). encode_entry x pad) xs)"

definition entry_padded :: "multiboot_memory_map_entry \<times> u8 list \<Rightarrow> bool" where
  "entry_padded xp \<longleftrightarrow> 20 \<le> unat (entry_size (fst xp)) \<and> length (snd xp) = unat (entry_size (fst xp)) - 20"

text \<open>Memory holds a list of bytes from an address on.\<close>

definition bytes_at :: "phys \<Rightarrow> u32 \<Rightarrow> u8 list \<Rightarrow> bool" where
  "bytes_at m a bs \<longleftrightarrow> load_bytes m a (length bs) = bs"

lemma load_bytes_append: "load_bytes m a (n + k) = load_bytes m a n @ load_bytes m (a + of_nat n) k"
proof -
  have "map (\<lambda>i. m (a + of_nat i)) [n..<n + k] = map (\<lambda>i. m (a + of_nat n + of_nat i)) [0..<k]"
    by (rule nth_equalityI) (simp_all add: add.assoc)
  then show ?thesis unfolding load_bytes_def upt_add_eq_append [OF le0] by simp
qed

lemma bytes_at_append: "bytes_at m a (xs @ ys) \<longleftrightarrow> bytes_at m a xs \<and> bytes_at m (a + of_nat (length xs)) ys"
  by (simp add: bytes_at_def load_bytes_append) (simp add: load_bytes_def)

lemma load32_le_bytes: "bytes_at m a (le_bytes 4 v) \<Longrightarrow> load32 m a = of_nat (v mod 2 ^ 32)"
  by (simp add: load32_def bytes_at_def le_value_le_bytes)

lemma load64_le_bytes: "bytes_at m a (le_bytes 8 v) \<Longrightarrow> load64 m a = of_nat (v mod 2 ^ 64)"
  by (simp add: load64_def bytes_at_def le_value_le_bytes)

lemma load_encode_entry:
  assumes "bytes_at m a (encode_entry x pad)"
  shows "load_entry m a = x"
proof -
  have "load32 m a = entry_size x" "load64 m (a + 4) = entry_base_addr x"
    "load64 m (a + 12) = entry_length x" "load32 m (a + 20) = entry_type x"
    using assms unat_lt_u32 [of "entry_size x"] unat_lt_u64 [of "entry_base_addr x"]
      unat_lt_u64 [of "entry_length x"] unat_lt_u32 [of "entry_type x"]
    by (auto simp: encode_entry_def bytes_at_append add.assoc dest!: load32_le_bytes load64_le_bytes)
  then show ?thesis by (simp add: load_entry_def load_entry_size_def)
qed

lemma length_encode_entry:
  "entry_padded (x, pad) \<Longrightarrow> length (encode_entry x pad) = 4 + unat (entry_size x)"
  by (simp add: encode_entry_def entry_padded_def)

text \<open>Bytes laid out by the encoder are a table of exactly the encoded entries.\<close>

lemma table_at_encoded:
  "list_all entry_padded xs \<Longrightarrow> bytes_at m a (encode_table xs) \<Longrightarrow>
   unat a + length (encode_table xs) < 2 ^ 32 \<Longrightarrow>
   table_at m a (map fst xs) (a + of_nat (length (encode_table xs)))"
proof (induction xs arbitrary: a)
  case Nil
  then show ?case by (simp add: encode_table_def)
next
  case (Cons xp xs)
  obtain x pad where xp: "xp = (x, pad)" by (cases xp)
  let ?n = "4 + unat (entry_size x)" and ?bs = "encode_table xs"
  have enc: "encode_table (xp # xs) = encode_entry x pad @ ?bs" by (simp add: encode_table_def xp)
  have len: "length (encode_entry x pad) = ?n" and size: "20 \<le> unat (entry_size x)"
    using Cons.prems(1) by (simp_all add: xp length_encode_entry entry_padded_def)
  have bnd: "unat a + ?n + length ?bs < 2 ^ 32" using Cons.prems(3) by (simp add: enc len)
  have at: "load_entry m a = x" "bytes_at m (a + of_nat ?n) ?bs"
    using Cons.prems(2) load_encode_entry by (auto simp: enc bytes_at_append len)
  have w: "of_nat ?n = 4 + entry_size x" by simp
  have u4: "unat (4 + entry_size x) = ?n" using bnd by (simp add: unat_add_u32)
  then have ua: "unat (a + (4 + entry_size x)) = unat a + ?n"
    using bnd by (simp add: unat_add_u32)
  have ue: "unat (a + (4 + entry_size x) + of_nat (length ?bs)) = unat a + ?n + length ?bs"
    using bnd ua by (simp add: unat_add_of_nat_u32)
  have "table_at m (a + (4 + entry_size x)) (map fst xs) (a + (4 + entry_size x) + of_nat (length ?bs))"
    using Cons.prems(1) at(2) bnd ua by (intro Cons.IH) (simp_all add: w)
  then show ?case
    using at(1) size ue ua by (simp add: xp enc [unfolded xp] len word_less_nat_alt add.assoc)
qed

lemma encoded_table_read:
  assumes "alen (memory_regions st) = 32" and "p \<noteq> 0"
    and "flags (load_multiboot_info m p) AND MULTIBOOT_INFO_MEMORY_MAP \<noteq> 0"
    and "a \<noteq> 0" and "unat a + length (encode_table xs) < 2 ^ 32"
    and "mmap_addr (load_multiboot_info m p) = a"
    and "mmap_length (load_multiboot_info m p) = of_nat (length (encode_table xs))"
    and "bytes_at m a (encode_table xs)" and "list_all entry_padded xs"
    and "list_all entry_range_ok (map fst xs)"
    and "normalized (map fst xs) \<noteq> []" and "length (normalized (map fst xs)) \<le> 32"
  shows "\<exists>st'. memory_initialize m p st = Some (KERNEL_STATUS_OK, st') \<and>
    memory_is_initialized st' \<and> stored_regions st' = normalized (map fst xs)"
proof -
  let ?l = "of_nat (length (encode_table xs)) :: u32"
  have l: "unat ?l = length (encode_table xs)" using assms(5) by (simp add: unat_of_nat)
  have "encode_table xs \<noteq> []"
  proof
    assume "encode_table xs = []"
    then have "xs = []" by (cases xs) (auto simp: encode_table_def encode_entry_def)
    with assms(11) show False by (simp add: normalized_def)
  qed
  then have "?l \<noteq> 0" using l by (metis length_0_conv unat_0)
  then have tab: "multiboot_table m p (map fst xs)"
    using assms(2-7) l table_at_encoded [OF assms(9,8,5)] by (simp add: multiboot_table_def Let_def)
  have "1 \<le> length (normalized (map fst xs))" using assms(11) by (simp add: Suc_le_eq)
  then show ?thesis
    using memory_initialize_decides [OF assms(1), of m p] tab assms(10,12) by blast
qed

text \<open>
  C23. Round trip through the boot loader's encoding: if memory holds, at the address the
  information block names, the encoding of a list of entries (with any padding bytes the
  size fields announce), every range ends inside 64 bits and between 1 and 32 entries are
  nonempty, then \<open>memory_initialize\<close> succeeds and the kernel's map is exactly the nonempty
  entries, in order, type 1 read as usable and everything else as reserved.
\<close>

theorem memory_map_roundtrip:
  assumes "alen (memory_regions st) = 32" and "p \<noteq> 0"
    and "flags (load_multiboot_info m p) AND MULTIBOOT_INFO_MEMORY_MAP \<noteq> 0"
    and "a \<noteq> 0" and "unat a + length (encode_table xs) < 2 ^ 32"
    and "mmap_addr (load_multiboot_info m p) = a"
    and "mmap_length (load_multiboot_info m p) = of_nat (length (encode_table xs))"
    and "bytes_at m a (encode_table xs)" and "list_all entry_padded xs"
    and "list_all entry_range_ok (map fst xs)"
    and "normalized (map fst xs) \<noteq> []" and "length (normalized (map fst xs)) \<le> 32"
  shows "\<exists>st'. memory_initialize m p st = Some (KERNEL_STATUS_OK, st') \<and>
    memory_is_initialized st' \<and> stored_regions st' = normalized (map fst xs)"
  by (rule encoded_table_read [OF assms])

text \<open>A boot loader's table for the witness: 640 KiB usable, a hole, 15 MiB usable.\<close>

definition sample_entries :: "(multiboot_memory_map_entry \<times> u8 list) list" where
  "sample_entries =
     [(\<lparr>entry_size = 20, entry_base_addr = 0, entry_length = 0xA0000, entry_type = 1\<rparr>, []),
      (\<lparr>entry_size = 22, entry_base_addr = 0xF0000, entry_length = 0x10000, entry_type = 2\<rparr>, [7, 7]),
      (\<lparr>entry_size = 20, entry_base_addr = 0x100000, entry_length = 0xF00000, entry_type = 1\<rparr>, [])]"

text \<open>The information block at \<open>0x1000\<close>, the table at \<open>0x2000\<close>.\<close>

definition sample_phys :: phys where
  "sample_phys a =
     (if a = 0x1000 then 0x40
      else if a = 0x102C then 74
      else if a = 0x1031 then 0x20
      else if 0x2000 \<le> a \<and> unat (a - 0x2000) < length (encode_table sample_entries)
      then encode_table sample_entries ! unat (a - 0x2000)
      else 0)"

lemma length_sample_table: "length (encode_table sample_entries) = 74"
  by (simp add: encode_table_def sample_entries_def encode_entry_def)

lemma sample_info:
  "flags (load_multiboot_info sample_phys 0x1000) = 0x40"
  "mmap_length (load_multiboot_info sample_phys 0x1000) = 74"
  "mmap_addr (load_multiboot_info sample_phys 0x1000) = 0x2000"
  by (simp_all add: load_multiboot_info_def load32_def load_bytes_def le_value_def sample_phys_def upt_rec
      word_le_nat_alt)

lemma sample_bytes: "bytes_at sample_phys 0x2000 (encode_table sample_entries)"
  unfolding bytes_at_def load_bytes_def
proof (rule nth_equalityI)
  fix i assume "i < length (map (\<lambda>i. sample_phys (0x2000 + of_nat i)) [0..<length (encode_table sample_entries)])"
  then have i: "i < 74" by (simp add: length_sample_table)
  then have u: "unat (of_nat i :: u32) = i" by (simp add: unat_of_nat)
  then have "unat (0x2000 + of_nat i :: u32) = 0x2000 + i" using i by (simp add: unat_add_u32)
  then have "0x2000 \<le> (0x2000 + of_nat i :: u32)" "0x2000 + of_nat i \<noteq> (0x1000 :: u32)"
    "0x2000 + of_nat i \<noteq> (0x102C :: u32)" "0x2000 + of_nat i \<noteq> (0x1031 :: u32)"
    by (simp_all add: word_le_nat_alt word_eq_unat)
  with i u show "map (\<lambda>i. sample_phys (0x2000 + of_nat i)) [0..<length (encode_table sample_entries)] ! i =
      encode_table sample_entries ! i"
    by (simp add: sample_phys_def length_sample_table)
qed simp

lemma sample_normalized: "normalized (map fst sample_entries) =
     [\<lparr>base_address = 0, region_length = 0xA0000, region_type = MEMORY_REGION_USABLE\<rparr>,
      \<lparr>base_address = 0xF0000, region_length = 0x10000, region_type = MEMORY_REGION_RESERVED\<rparr>,
      \<lparr>base_address = 0x100000, region_length = 0xF00000, region_type = MEMORY_REGION_USABLE\<rparr>]"
  by (simp add: sample_entries_def normalized_def normalize_entry_def MULTIBOOT_MEMORY_AVAILABLE_def)

lemma sample_padded: "list_all entry_padded sample_entries" "list_all entry_range_ok (map fst sample_entries)"
  by (simp_all add: sample_entries_def entry_padded_def entry_range_ok_def)

lemma sample_table_read:
  "\<exists>st'. memory_initialize sample_phys 0x1000 memory_static = Some (KERNEL_STATUS_OK, st') \<and>
     memory_is_initialized st' \<and> stored_regions st' = normalized (map fst sample_entries)"
  by (rule encoded_table_read [where a = "0x2000"])
     (simp_all add: sample_info sample_bytes length_sample_table sample_padded sample_normalized
       MULTIBOOT_INFO_MEMORY_MAP_def memory_static_def)

theorem memory_map_roundtrip_witness:
  "\<exists>st'. memory_initialize sample_phys 0x1000 memory_static
     = Some (KERNEL_STATUS_OK, st') \<and> memory_is_initialized st' \<and>
     stored_regions st' =
       [\<lparr>base_address = 0, region_length = 0xA0000, region_type = MEMORY_REGION_USABLE\<rparr>,
        \<lparr>base_address = 0xF0000, region_length = 0x10000, region_type = MEMORY_REGION_RESERVED\<rparr>,
        \<lparr>base_address = 0x100000, region_length = 0xF00000, region_type = MEMORY_REGION_USABLE\<rparr>]"
  unfolding sample_normalized [symmetric]
  by (rule memory_map_roundtrip [where a = "0x2000"])
     (simp_all add: sample_info sample_bytes length_sample_table sample_padded sample_normalized
       MULTIBOOT_INFO_MEMORY_MAP_def memory_static_def)

theorem memory_initialize_correct_witness:
  "\<exists>s st'. memory_initialize sample_phys 0 memory_static = Some (s, st') \<and> memory_inv st' \<and>
     s \<noteq> KERNEL_STATUS_OK \<and> \<not> memory_is_initialized st'"
proof -
  have "\<not> multiboot_table sample_phys 0 es" for es by (simp add: multiboot_table_def Let_def)
  then show ?thesis
    using memory_initialize_correct [of memory_static sample_phys 0] by (auto simp: memory_static_def)
qed

end
