(* ===== verification/Pmm.thy ===== *)
theory Pmm
  imports Prelude
begin

text \<open>
  \<^verbatim>\<open>src/mm/pmm.c\<close>: the bitmap allocator of 4 KiB physical frames, up to \<open>pmm_free_frame\<close>
  and the queries; its initialization is in \<open>Pmm_Init\<close>.  The static variables are the record
  \<open>pmm\<close>.  Both bitmaps are arrays of 32768 words; a function returns \<open>None\<close> when it
  indexes outside one.
\<close>

section \<open>State\<close>

definition PMM_FRAME_SIZE :: u32 where
  "PMM_FRAME_SIZE = 4096"

definition PMM_FRAME_SIZE_U64 :: u64 where
  "PMM_FRAME_SIZE_U64 = 4096"

definition PMM_MAX_PHYSICAL_MEMORY_BYTES :: u64 where
  "PMM_MAX_PHYSICAL_MEMORY_BYTES = 0x100000000"

definition PMM_MAX_FRAMES :: u32 where
  "PMM_MAX_FRAMES = ucast (PMM_MAX_PHYSICAL_MEMORY_BYTES div PMM_FRAME_SIZE_U64)"

definition PMM_BITS_PER_WORD :: u32 where
  "PMM_BITS_PER_WORD = 32"

definition PMM_BITMAP_WORD_COUNT :: u32 where
  "PMM_BITMAP_WORD_COUNT = PMM_MAX_FRAMES div PMM_BITS_PER_WORD"

record pmm =
  pmm_bitmap :: "u32 carray"
  pmm_allocated_bitmap :: "u32 carray"
  pmm_initialized :: bool
  pmm_total_frames :: u32
  pmm_free_frames :: u32
  pmm_used_frames :: u32
  pmm_next_search_frame :: u32

definition pmm_static :: pmm where
  "pmm_static = \<lparr>
     pmm_bitmap = afill (unat PMM_BITMAP_WORD_COUNT) 0,
     pmm_allocated_bitmap = afill (unat PMM_BITMAP_WORD_COUNT) 0,
     pmm_initialized = False,
     pmm_total_frames = 0,
     pmm_free_frames = 0,
     pmm_used_frames = 0,
     pmm_next_search_frame = 0\<rparr>"

section \<open>Operations\<close>

definition pmm_align_down :: "u64 \<Rightarrow> u64" where
  "pmm_align_down value = value AND NOT (PMM_FRAME_SIZE_U64 - 1)"

definition pmm_align_up :: "u64 \<Rightarrow> u64" where
  "pmm_align_up value =
     (let mask = PMM_FRAME_SIZE_U64 - 1 in
      if value AND mask = 0 then value
      else if value > UINT64_MAX - mask then UINT64_MAX AND NOT mask
      else (value + mask) AND NOT mask)"

definition pmm_range_end :: "u64 \<Rightarrow> u64 \<Rightarrow> u64" where
  "pmm_range_end base len = (if base > UINT64_MAX - len then UINT64_MAX else base + len)"

definition pmm_is_valid_frame_index :: "u32 \<Rightarrow> pmm \<Rightarrow> bool" where
  "pmm_is_valid_frame_index frame_index st \<longleftrightarrow>
     frame_index < pmm_total_frames st \<and> frame_index < PMM_MAX_FRAMES"

definition pmm_bitmap_word_index :: "u32 \<Rightarrow> u32" where
  "pmm_bitmap_word_index frame_index = frame_index div PMM_BITS_PER_WORD"

definition pmm_bitmap_bit_mask :: "u32 \<Rightarrow> u32" where
  "pmm_bitmap_bit_mask frame_index = push_bit (unat (frame_index mod PMM_BITS_PER_WORD)) 1"

definition pmm_is_frame_allocated :: "u32 \<Rightarrow> pmm \<Rightarrow> bool option" where
  "pmm_is_frame_allocated frame_index st = do {
     w \<leftarrow> aread (pmm_allocated_bitmap st) (unat (pmm_bitmap_word_index frame_index));
     Some (w AND pmm_bitmap_bit_mask frame_index \<noteq> 0)
   }"

definition pmm_mark_frame_allocated :: "u32 \<Rightarrow> pmm \<Rightarrow> pmm option" where
  "pmm_mark_frame_allocated frame_index st =
     (if \<not> pmm_is_valid_frame_index frame_index st then Some st
      else do {
        w \<leftarrow> aread (pmm_allocated_bitmap st) (unat (pmm_bitmap_word_index frame_index));
        b \<leftarrow> awrite (pmm_allocated_bitmap st) (unat (pmm_bitmap_word_index frame_index))
               (w OR pmm_bitmap_bit_mask frame_index);
        Some (st\<lparr>pmm_allocated_bitmap := b\<rparr>)
      })"

definition pmm_mark_frame_unallocated :: "u32 \<Rightarrow> pmm \<Rightarrow> pmm option" where
  "pmm_mark_frame_unallocated frame_index st =
     (if \<not> pmm_is_valid_frame_index frame_index st then Some st
      else do {
        w \<leftarrow> aread (pmm_allocated_bitmap st) (unat (pmm_bitmap_word_index frame_index));
        b \<leftarrow> awrite (pmm_allocated_bitmap st) (unat (pmm_bitmap_word_index frame_index))
               (w AND NOT (pmm_bitmap_bit_mask frame_index));
        Some (st\<lparr>pmm_allocated_bitmap := b\<rparr>)
      })"

definition pmm_is_frame_index_used :: "u32 \<Rightarrow> pmm \<Rightarrow> bool option" where
  "pmm_is_frame_index_used frame_index st = do {
     w \<leftarrow> aread (pmm_bitmap st) (unat (pmm_bitmap_word_index frame_index));
     Some (w AND pmm_bitmap_bit_mask frame_index \<noteq> 0)
   }"

definition pmm_mark_frame_used :: "u32 \<Rightarrow> pmm \<Rightarrow> pmm option" where
  "pmm_mark_frame_used frame_index st =
     (if \<not> pmm_is_valid_frame_index frame_index st then Some st
      else do {
        used \<leftarrow> pmm_is_frame_index_used frame_index st;
        if used then Some st
        else do {
          w \<leftarrow> aread (pmm_bitmap st) (unat (pmm_bitmap_word_index frame_index));
          b \<leftarrow> awrite (pmm_bitmap st) (unat (pmm_bitmap_word_index frame_index))
                 (w OR pmm_bitmap_bit_mask frame_index);
          let st1 = st\<lparr>pmm_bitmap := b\<rparr>;
              st2 = (if pmm_free_frames st1 > 0
                     then st1\<lparr>pmm_free_frames := pmm_free_frames st1 - 1\<rparr> else st1)
          in Some (st2\<lparr>pmm_used_frames := pmm_used_frames st2 + 1\<rparr>)
        }
      })"

definition pmm_mark_frame_free :: "u32 \<Rightarrow> pmm \<Rightarrow> pmm option" where
  "pmm_mark_frame_free frame_index st =
     (if \<not> pmm_is_valid_frame_index frame_index st then Some st
      else do {
        used \<leftarrow> pmm_is_frame_index_used frame_index st;
        if \<not> used then Some st
        else do {
          w \<leftarrow> aread (pmm_bitmap st) (unat (pmm_bitmap_word_index frame_index));
          b \<leftarrow> awrite (pmm_bitmap st) (unat (pmm_bitmap_word_index frame_index))
                 (w AND NOT (pmm_bitmap_bit_mask frame_index));
          let st1 = st\<lparr>pmm_bitmap := b\<rparr>;
              st2 = st1\<lparr>pmm_free_frames := pmm_free_frames st1 + 1\<rparr>
          in Some (if pmm_used_frames st2 > 0
                   then st2\<lparr>pmm_used_frames := pmm_used_frames st2 - 1\<rparr> else st2)
        }
      })"

text \<open>The loop of both range functions, over the 64-bit frame counter.\<close>

function pmm_mark_frames ::
  "(u32 \<Rightarrow> pmm \<Rightarrow> pmm option) \<Rightarrow> u64 \<Rightarrow> u64 \<Rightarrow> pmm \<Rightarrow> pmm option" where
  "pmm_mark_frames mark frame last_frame st =
     (if frame < last_frame then do {
        st' \<leftarrow> mark (ucast frame) st;
        pmm_mark_frames mark (frame + 1) last_frame st'
      }
      else Some st)"
  by pat_completeness auto
termination
proof (relation "measure (\<lambda>(mark, frame, last, st). unat last - unat frame)", goal_cases)
  case (2 mark frame last st st')
  then show ?case by (simp add: unat_inc_less word_less_nat_alt)
qed simp

declare pmm_mark_frames.simps [simp del]

definition pmm_mark_range_free :: "u64 \<Rightarrow> u64 \<Rightarrow> pmm \<Rightarrow> pmm option" where
  "pmm_mark_range_free base len st =
     (let end_address = pmm_range_end base len;
          first_frame = pmm_align_up base div PMM_FRAME_SIZE_U64;
          last_frame = pmm_align_down end_address div PMM_FRAME_SIZE_U64
      in
      if first_frame \<ge> ucast (pmm_total_frames st) then Some st
      else
        let last_frame' = (if last_frame > ucast (pmm_total_frames st)
                           then ucast (pmm_total_frames st) else last_frame)
        in pmm_mark_frames pmm_mark_frame_free first_frame last_frame' st)"

definition pmm_mark_range_used :: "u64 \<Rightarrow> u64 \<Rightarrow> pmm \<Rightarrow> pmm option" where
  "pmm_mark_range_used base len st =
     (let end_address = pmm_range_end base len;
          first_frame = pmm_align_down base div PMM_FRAME_SIZE_U64;
          last_frame = pmm_align_up end_address div PMM_FRAME_SIZE_U64
      in
      if first_frame \<ge> ucast (pmm_total_frames st) then Some st
      else
        let last_frame' = (if last_frame > ucast (pmm_total_frames st)
                           then ucast (pmm_total_frames st) else last_frame)
        in pmm_mark_frames pmm_mark_frame_used first_frame last_frame' st)"

text \<open>
  Each of the two search loops of \<open>pmm_allocate_frame\<close>, from a frame up to a limit: the
  first free frame is taken and its address returned.
\<close>

function pmm_allocate_scan :: "u32 \<Rightarrow> u32 \<Rightarrow> pmm \<Rightarrow> (u32 option \<times> pmm) option" where
  "pmm_allocate_scan frame limit st =
     (if frame < limit then do {
        used \<leftarrow> pmm_is_frame_index_used frame st;
        if \<not> used then do {
          st1 \<leftarrow> pmm_mark_frame_used frame st;
          st2 \<leftarrow> pmm_mark_frame_allocated frame st1;
          Some (Some (frame * PMM_FRAME_SIZE), st2\<lparr>pmm_next_search_frame := frame + 1\<rparr>)
        }
        else pmm_allocate_scan (frame + 1) limit st
      }
      else Some (None, st))"
  by pat_completeness auto
termination
proof (relation "measure (\<lambda>(frame, limit, st). unat limit - unat frame)", goal_cases)
  case (2 frame limit st used)
  then show ?case by (simp add: unat_inc_less word_less_nat_alt)
qed simp

declare pmm_allocate_scan.simps [simp del]

text \<open>The out parameter: \<open>None\<close> is a NULL pointer, \<open>Some v\<close> a variable holding \<open>v\<close>.\<close>

definition pmm_allocate_frame :: "u32 option \<Rightarrow> pmm \<Rightarrow> (bool \<times> u32 option \<times> pmm) option" where
  "pmm_allocate_frame out_physical_address st =
     (if \<not> pmm_initialized st \<or> out_physical_address = None
      then Some (False, out_physical_address, st)
      else do {
        (found, st1) \<leftarrow> pmm_allocate_scan (pmm_next_search_frame st) (pmm_total_frames st) st;
        case found of
          Some a \<Rightarrow> Some (True, Some a, st1)
        | None \<Rightarrow> do {
            (found', st2) \<leftarrow> pmm_allocate_scan 0 (pmm_next_search_frame st1) st1;
            case found' of
              Some a \<Rightarrow> Some (True, Some a, st2)
            | None \<Rightarrow> Some (False, out_physical_address, st2)
          }
      })"

definition pmm_free_frame :: "u32 \<Rightarrow> pmm \<Rightarrow> (bool \<times> pmm) option" where
  "pmm_free_frame physical_address st =
     (if \<not> pmm_initialized st then Some (False, st)
      else if physical_address mod PMM_FRAME_SIZE \<noteq> 0 then Some (False, st)
      else
        let frame_index = physical_address div PMM_FRAME_SIZE in
        if \<not> pmm_is_valid_frame_index frame_index st then Some (False, st)
        else do {
          allocated \<leftarrow> pmm_is_frame_allocated frame_index st;
          if \<not> allocated then Some (False, st)
          else do {
            st1 \<leftarrow> pmm_mark_frame_unallocated frame_index st;
            st2 \<leftarrow> pmm_mark_frame_free frame_index st1;
            Some (True, if frame_index < pmm_next_search_frame st2
                        then st2\<lparr>pmm_next_search_frame := frame_index\<rparr> else st2)
          }
        })"

definition pmm_is_frame_used :: "u32 \<Rightarrow> pmm \<Rightarrow> bool option" where
  "pmm_is_frame_used physical_address st =
     (let frame_index = physical_address div PMM_FRAME_SIZE in
      if \<not> pmm_is_valid_frame_index frame_index st then Some True
      else pmm_is_frame_index_used frame_index st)"

definition pmm_get_total_frame_count :: "pmm \<Rightarrow> u32" where
  "pmm_get_total_frame_count st = pmm_total_frames st"

definition pmm_get_free_frame_count :: "pmm \<Rightarrow> u32" where
  "pmm_get_free_frame_count st = pmm_free_frames st"

definition pmm_get_used_frame_count :: "pmm \<Rightarrow> u32" where
  "pmm_get_used_frame_count st = pmm_used_frames st"

text \<open>\<open>None\<close> is an access outside a bitmap, as everywhere; the \<open>bool\<close> is the verdict.\<close>

definition pmm_run_basic_self_test :: "pmm \<Rightarrow> (bool \<times> pmm) option" where
  "pmm_run_basic_self_test st = do {
     let free_before = pmm_get_free_frame_count st;
     let used_before = pmm_get_used_frame_count st;
     (allocated, out, st1) \<leftarrow> pmm_allocate_frame (Some 0) st;
     let physical_address = the out;
     if \<not> allocated then Some (False, st1)
     else do {
       used \<leftarrow> pmm_is_frame_used physical_address st1;
       if \<not> used then Some (False, st1)
       else if pmm_get_free_frame_count st1 \<noteq> free_before - 1 then Some (False, st1)
       else if pmm_get_used_frame_count st1 \<noteq> used_before + 1 then Some (False, st1)
       else do {
         (freed, st2) \<leftarrow> pmm_free_frame physical_address st1;
         if \<not> freed then Some (False, st2)
         else if pmm_get_free_frame_count st2 \<noteq> free_before then Some (False, st2)
         else if pmm_get_used_frame_count st2 \<noteq> used_before then Some (False, st2)
         else Some (True, st2)
       }
     }
   }"

section \<open>Abstraction: the sets of free and of allocated frames\<close>

text \<open>Bit \<open>f mod 32\<close> of word \<open>f div 32\<close> stands for frame \<open>f\<close>.\<close>

definition bitmap_test :: "u32 carray \<Rightarrow> nat \<Rightarrow> bool" where
  "bitmap_test b f \<longleftrightarrow> bit (acell b (f div 32)) (f mod 32)"

definition free_set :: "pmm \<Rightarrow> nat set" where
  "free_set st = {f. f < unat (pmm_total_frames st) \<and> \<not> bitmap_test (pmm_bitmap st) f}"

definition alloc_set :: "pmm \<Rightarrow> nat set" where
  "alloc_set st = {f. f < unat (pmm_total_frames st) \<and> bitmap_test (pmm_allocated_bitmap st) f}"

text \<open>The bitmaps have their declared size and the counters count the usage bitmap.\<close>

definition pmm_wf :: "pmm \<Rightarrow> bool" where
  "pmm_wf st \<longleftrightarrow>
     alen (pmm_bitmap st) = 32768 \<and>
     alen (pmm_allocated_bitmap st) = 32768 \<and>
     unat (pmm_total_frames st) \<le> 1048576 \<and>
     unat (pmm_free_frames st) = card (free_set st) \<and>
     unat (pmm_used_frames st) + card (free_set st) = unat (pmm_total_frames st)"

text \<open>The invariant of the running allocator: a frame handed out is a used frame.\<close>

definition pmm_inv :: "pmm \<Rightarrow> bool" where
  "pmm_inv st \<longleftrightarrow>
     pmm_wf st \<and>
     alloc_set st \<inter> free_set st = {} \<and>
     pmm_next_search_frame st \<le> pmm_total_frames st"

text \<open>What a change of the usage bitmap leaves alone.\<close>

definition pmm_rest :: "pmm \<Rightarrow> u32 carray \<times> bool \<times> u32 \<times> u32" where
  "pmm_rest st = (pmm_allocated_bitmap st, pmm_initialized st, pmm_total_frames st, pmm_next_search_frame st)"

lemma pmm_rest_eq:
  "pmm_rest s = pmm_rest t \<longleftrightarrow>
     pmm_allocated_bitmap s = pmm_allocated_bitmap t \<and> pmm_initialized s = pmm_initialized t \<and>
     pmm_total_frames s = pmm_total_frames t \<and> pmm_next_search_frame s = pmm_next_search_frame t"
  by (auto simp: pmm_rest_def)

lemma alloc_set_rest: "pmm_rest s = pmm_rest t \<Longrightarrow> alloc_set s = alloc_set t"
  by (simp add: pmm_rest_eq alloc_set_def)

lemma PMM_MAX_FRAMES_eq: "PMM_MAX_FRAMES = 1048576"
  by (simp add: PMM_MAX_FRAMES_def PMM_MAX_PHYSICAL_MEMORY_BYTES_def PMM_FRAME_SIZE_U64_def)

lemma PMM_BITMAP_WORD_COUNT_eq: "PMM_BITMAP_WORD_COUNT = 32768"
  by (simp add: PMM_BITMAP_WORD_COUNT_def PMM_MAX_FRAMES_eq PMM_BITS_PER_WORD_def)

lemma finite_free_set [simp]: "finite (free_set st)"
  by (simp add: free_set_def)

lemma finite_alloc_set [simp]: "finite (alloc_set st)"
  by (simp add: alloc_set_def)

lemma free_set_bound: "f \<in> free_set st \<Longrightarrow> f < unat (pmm_total_frames st)"
  by (simp add: free_set_def)

lemma unat_word_index: "unat (pmm_bitmap_word_index f) = unat f div 32"
  by (simp add: pmm_bitmap_word_index_def PMM_BITS_PER_WORD_def unat_div)

lemma unat_bit_number: "unat (f mod PMM_BITS_PER_WORD) = unat f mod 32"
  by (simp add: PMM_BITS_PER_WORD_def unat_mod)

lemma bit_mask_bit: "bit (pmm_bitmap_bit_mask f) k \<longleftrightarrow> k = unat f mod 32"
  by (auto simp: pmm_bitmap_bit_mask_def unat_bit_number bit_simps)

lemma mask_test: "w AND pmm_bitmap_bit_mask f \<noteq> 0 \<longleftrightarrow> bit w (unat f mod 32)"
  unfolding pmm_bitmap_bit_mask_def unat_bit_number
  by (rule bit_iff_and_push_bit_not_eq_0 [symmetric])

lemma valid_frame_index:
  "pmm_wf st \<Longrightarrow> pmm_is_valid_frame_index f st \<longleftrightarrow> unat f < unat (pmm_total_frames st)"
  by (auto simp: pmm_is_valid_frame_index_def PMM_MAX_FRAMES_eq word_nat pmm_wf_def)

lemma frame_word_in:
  assumes "unat f < unat (pmm_total_frames st)" "pmm_wf st"
  shows "unat f div 32 < 32768"
  using assms by (intro less_mult_imp_div_less) (simp add: pmm_wf_def)

lemma same_word_bit: "f div 32 = g div 32 \<Longrightarrow> f mod 32 = g mod 32 \<Longrightarrow> f = (g :: nat)"
  by (metis div_mult_mod_eq)

lemma bitmap_test_set:
  "bitmap_test (CArray n ((acell b)(unat f div 32 := acell b (unat f div 32) OR pmm_bitmap_bit_mask f))) g
     \<longleftrightarrow> bitmap_test b g \<or> g = unat f"
  using same_word_bit [of g "unat f"]
  by (auto simp: bitmap_test_def bit_or_iff bit_mask_bit)

lemma bitmap_test_clear:
  "bitmap_test (CArray n ((acell b)(unat f div 32 := acell b (unat f div 32) AND NOT (pmm_bitmap_bit_mask f)))) g
     \<longleftrightarrow> bitmap_test b g \<and> g \<noteq> unat f"
  using same_word_bit [of g "unat f"]
  by (auto simp: bitmap_test_def bit_and_iff bit_not_iff bit_mask_bit possible_bit_word)

lemma index_used_eq:
  assumes "pmm_wf st" "unat f < unat (pmm_total_frames st)"
  shows "pmm_is_frame_index_used f st = Some (unat f \<notin> free_set st)"
  using assms frame_word_in [OF assms(2,1)]
  by (simp add: pmm_is_frame_index_used_def unat_word_index mask_test free_set_def
      bitmap_test_def pmm_wf_def)

lemma frame_allocated_eq:
  assumes "pmm_wf st" "unat f < unat (pmm_total_frames st)"
  shows "pmm_is_frame_allocated f st = Some (unat f \<in> alloc_set st)"
  using assms frame_word_in [OF assms(2,1)]
  by (simp add: pmm_is_frame_allocated_def unat_word_index mask_test alloc_set_def
      bitmap_test_def pmm_wf_def)

section \<open>Marking one frame\<close>

lemma mark_frame_used_spec:
  assumes wf: "pmm_wf st"
  shows "\<exists>st'. pmm_mark_frame_used f st = Some st' \<and> pmm_wf st' \<and> pmm_rest st' = pmm_rest st \<and>
           free_set st' = free_set st - {unat f}"
proof (cases "unat f \<in> free_set st")
  case False
  then show ?thesis using wf
    by (auto simp: pmm_mark_frame_used_def valid_frame_index index_used_eq)
next
  case True
  let ?b = "CArray 32768 ((acell (pmm_bitmap st))(unat f div 32 :=
              acell (pmm_bitmap st) (unat f div 32) OR pmm_bitmap_bit_mask f))"
  let ?st = "st\<lparr>pmm_bitmap := ?b, pmm_free_frames := pmm_free_frames st - 1,
               pmm_used_frames := pmm_used_frames st + 1\<rparr>"
  note f = free_set_bound [OF True]
  have pos: "0 < unat (pmm_free_frames st)"
    using True wf card_gt_0_iff by (fastforce simp: pmm_wf_def)
  have eq: "pmm_mark_frame_used f st = Some ?st"
    using True f wf frame_word_in [OF f wf] pos
    by (simp add: pmm_mark_frame_used_def valid_frame_index index_used_eq unat_word_index
        pmm_wf_def Let_def word_less_nat_alt)
  have free: "free_set ?st = free_set st - {unat f}"
    by (auto simp: free_set_def bitmap_test_set)
  have "card (free_set ?st) = card (free_set st) - 1"
    unfolding free using True by simp
  moreover have "0 < card (free_set st)" using pos wf by (simp add: pmm_wf_def)
  moreover have "unat (pmm_used_frames st) < 1048576 \<and> card (free_set st) \<le> 1048576"
    using calculation wf by (simp add: pmm_wf_def)
  ultimately have "pmm_wf ?st"
    using wf pos by (auto simp: pmm_wf_def unat_add_u32 unat_pred_pos word_less_nat_alt)
  then show ?thesis using eq free by (auto simp: pmm_rest_eq)
qed

lemma mark_frame_free_spec:
  assumes wf: "pmm_wf st" and f: "unat f < unat (pmm_total_frames st)"
  shows "\<exists>st'. pmm_mark_frame_free f st = Some st' \<and> pmm_wf st' \<and> pmm_rest st' = pmm_rest st \<and>
           free_set st' = free_set st \<union> {unat f}"
proof (cases "unat f \<in> free_set st")
  case True
  then show ?thesis using wf f
    by (auto simp: pmm_mark_frame_free_def valid_frame_index index_used_eq)
next
  case False
  let ?b = "CArray 32768 ((acell (pmm_bitmap st))(unat f div 32 :=
              acell (pmm_bitmap st) (unat f div 32) AND NOT (pmm_bitmap_bit_mask f)))"
  let ?st = "st\<lparr>pmm_bitmap := ?b, pmm_free_frames := pmm_free_frames st + 1,
               pmm_used_frames := pmm_used_frames st - 1\<rparr>"
  have free: "free_set ?st = free_set st \<union> {unat f}"
    using f by (auto simp: free_set_def bitmap_test_clear)
  have card: "card (free_set ?st) = Suc (card (free_set st))"
    unfolding free using False by simp
  have "free_set ?st \<subseteq> {0..<unat (pmm_total_frames st)}" by (auto simp: free_set_def)
  then have "card (free_set ?st) \<le> unat (pmm_total_frames st)"
    using card_mono [of "{0..<unat (pmm_total_frames st)}"] by simp
  with card have lt: "card (free_set st) < unat (pmm_total_frames st)" by simp
  then have pos: "0 < unat (pmm_used_frames st)" using wf by (simp add: pmm_wf_def)
  have eq: "pmm_mark_frame_free f st = Some ?st"
    using False f wf frame_word_in [OF f wf] pos
    by (simp add: pmm_mark_frame_free_def valid_frame_index index_used_eq unat_word_index
        pmm_wf_def Let_def word_less_nat_alt)
  have "pmm_wf ?st"
    using wf pos lt card by (auto simp: pmm_wf_def unat_add_u32 unat_pred_pos word_less_nat_alt)
  then show ?thesis using eq free by (auto simp: pmm_rest_eq)
qed

lemma mark_frame_allocated_spec:
  assumes wf: "pmm_wf st" and f: "unat f < unat (pmm_total_frames st)"
  shows "\<exists>b. pmm_mark_frame_allocated f st = Some (st\<lparr>pmm_allocated_bitmap := b\<rparr>) \<and>
           alen b = 32768 \<and> alloc_set (st\<lparr>pmm_allocated_bitmap := b\<rparr>) = insert (unat f) (alloc_set st)"
  using wf f frame_word_in [OF f wf]
  by (auto simp: pmm_mark_frame_allocated_def valid_frame_index unat_word_index
      pmm_wf_def alloc_set_def bitmap_test_set)

lemma mark_frame_unallocated_spec:
  assumes wf: "pmm_wf st" and f: "unat f < unat (pmm_total_frames st)"
  shows "\<exists>b. pmm_mark_frame_unallocated f st = Some (st\<lparr>pmm_allocated_bitmap := b\<rparr>) \<and>
           alen b = 32768 \<and> alloc_set (st\<lparr>pmm_allocated_bitmap := b\<rparr>) = alloc_set st - {unat f}"
  using wf f frame_word_in [OF f wf]
  by (auto simp: pmm_mark_frame_unallocated_def valid_frame_index unat_word_index
      pmm_wf_def alloc_set_def bitmap_test_clear)

section \<open>Marking a range of frames\<close>

text \<open>
  The contract between the two range functions and the marking operation they call for each
  frame: on a tracked frame it neither faults nor changes anything but the set of free frames,
  which it combines with the frame by \<open>effect\<close>.
\<close>

locale frame_marker =
  fixes mark :: "u32 \<Rightarrow> pmm \<Rightarrow> pmm option"
    and effect :: "nat set \<Rightarrow> nat set \<Rightarrow> nat set"
  assumes mark_step: "pmm_wf st \<Longrightarrow> unat f < unat (pmm_total_frames st) \<Longrightarrow>
      \<exists>st'. mark f st = Some st' \<and> pmm_wf st' \<and> pmm_rest st' = pmm_rest st \<and>
        free_set st' = effect (free_set st) {unat f}"
    and effect_empty: "effect S {} = S"
    and effect_union: "effect (effect S A) B = effect S (A \<union> B)"
begin

lemma mark_frames:
  assumes "pmm_wf st" "unat b \<le> unat (pmm_total_frames st)"
  shows "\<exists>st'. pmm_mark_frames mark a b st = Some st' \<and> pmm_wf st' \<and> pmm_rest st' = pmm_rest st \<and>
           free_set st' = effect (free_set st) {unat a..<unat b}"
  using assms
proof (induction "unat b - unat a" arbitrary: a st)
  case 0
  then have "\<not> a < b" by (simp add: word_nat)
  with 0 show ?case by (subst pmm_mark_frames.simps) (simp add: effect_empty)
next
  case (Suc n)
  then have ab: "a < b" by (simp add: word_nat)
  have a: "unat (ucast a :: u32) = unat a"
    unfolding unat_ucast_u64_u32
    using Suc.prems Suc.hyps(2) by (intro mod_less) (auto simp: pmm_wf_def)
  have "unat (ucast a :: u32) < unat (pmm_total_frames st)" using Suc a by simp
  from mark_step [OF Suc.prems(1) this] obtain s where
    s: "mark (ucast a) st = Some s" "pmm_wf s" "pmm_rest s = pmm_rest st"
       "free_set s = effect (free_set st) {unat a}"
    unfolding a by auto
  have n: "n = unat b - unat (a + 1)" using Suc.hyps(2) unat_inc_less [OF ab] by simp
  have t: "unat b \<le> unat (pmm_total_frames s)" using s(3) Suc.prems(2) by (simp add: pmm_rest_eq)
  have seg: "{unat a} \<union> {unat (a + 1)..<unat b} = {unat a..<unat b}"
    using unat_inc_less [OF ab] ab by (auto simp: word_nat)
  from Suc.hyps(1) [OF n s(2) t] show ?case
    using s ab seg by (subst pmm_mark_frames.simps) (auto simp: effect_union)
qed

end

interpretation used_marker: frame_marker pmm_mark_frame_used "\<lambda>S A. S - A"
proof
  fix st and f :: u32 assume "pmm_wf st"
  then show "\<exists>st'. pmm_mark_frame_used f st = Some st' \<and> pmm_wf st' \<and> pmm_rest st' = pmm_rest st \<and>
      free_set st' = free_set st - {unat f}"
    by (rule mark_frame_used_spec)
qed auto

interpretation free_marker: frame_marker pmm_mark_frame_free "\<lambda>S A. S \<union> A"
proof
  fix st and f :: u32 assume "pmm_wf st" "unat f < unat (pmm_total_frames st)"
  then show "\<exists>st'. pmm_mark_frame_free f st = Some st' \<and> pmm_wf st' \<and> pmm_rest st' = pmm_rest st \<and>
      free_set st' = free_set st \<union> {unat f}"
    by (rule mark_frame_free_spec)
qed auto

text \<open>The byte ranges the two functions are given, as sets of frames.\<close>

definition range_limit :: "u64 \<Rightarrow> u64 \<Rightarrow> nat" where
  "range_limit base len = min (unat base + unat len) 18446744073709551615"

text \<open>The frames that lie wholly inside the range, and those that meet it.\<close>

definition frames_inside :: "u64 \<Rightarrow> u64 \<Rightarrow> nat set" where
  "frames_inside base len = {f. unat base \<le> 4096 * f \<and> 4096 * f + 4096 \<le> range_limit base len}"

definition frames_touched :: "u64 \<Rightarrow> u64 \<Rightarrow> nat set" where
  "frames_touched base len = {f. 4096 * f < range_limit base len \<and> unat base < 4096 * f + 4096}"

lemma range_end_unat: "unat (pmm_range_end base len) = range_limit base len"
proof (cases "base > UINT64_MAX - len")
  case True
  moreover have "unat (UINT64_MAX - len) = 18446744073709551615 - unat len"
    using unat_lt_u64 [of len] by (simp add: unat_sub_word word_nat)
  ultimately show ?thesis by (simp add: pmm_range_end_def range_limit_def word_nat)
next
  case False
  moreover have "unat (UINT64_MAX - len) = 18446744073709551615 - unat len"
    using unat_lt_u64 [of len] by (simp add: unat_sub_word word_nat)
  ultimately have "unat base + unat len \<le> 18446744073709551615"
    using unat_lt_u64 [of len] by (simp add: word_nat)
  then show ?thesis using False by (simp add: pmm_range_end_def range_limit_def unat_add_u64)
qed

lemma mask_frame: "PMM_FRAME_SIZE_U64 - 1 = mask 12"
  by (simp add: PMM_FRAME_SIZE_U64_def mask_eq_exp_minus_1)

lemma and_not_mask_u64: "unat (w AND NOT (mask 12) :: u64) = unat w div 4096 * 4096"
proof -
  have "w AND NOT (mask 12) = push_bit 12 (drop_bit 12 w)"
    by (auto simp: bit_eq_iff bit_simps not_le)
  also have "unat \<dots> = take_bit LENGTH(64) (push_bit 12 (unat (drop_bit 12 w)))"
    by (rule unsigned_push_bit_eq)
  also have "\<dots> = take_bit 64 (unat w div 4096 * 4096)"
    by (simp only: unat_drop_bit_div push_bit_eq_mult) simp
  also have "\<dots> = unat w div 4096 * 4096"
    using unat_lt_u64 [of w] div_mult_mod_eq [of "unat w" 4096]
    by (intro take_bit_nat_eq_self) simp
  finally show ?thesis .
qed

lemma unat_align_down: "unat (pmm_align_down v) = unat v div 4096 * 4096"
  by (simp only: pmm_align_down_def mask_frame and_not_mask_u64)

lemma align_down_frames: "unat (pmm_align_down v div PMM_FRAME_SIZE_U64) = unat v div 4096"
  by (simp add: unat_div unat_align_down PMM_FRAME_SIZE_U64_def)

lemma unat_and_mask_u64: "unat (v AND mask 12 :: u64) = unat v mod 4096"
  using unat_take_bit_mod [of 12 v] by (simp add: take_bit_eq_mask)

text \<open>Rounding up, which the last page of the address space saturates.\<close>

lemma unat_align_up:
  "unat (pmm_align_up v) =
     (if unat v > 18446744073709547520 then 18446744073709547520 else (unat v + 4095) div 4096 * 4096)"
proof (cases "v AND mask 12 = 0")
  case True
  then have "unat v mod 4096 = 0" using unat_and_mask_u64 [of v] by simp
  then obtain k where k: "unat v = 4096 * k" by (auto simp: mod_eq_0_iff_dvd)
  then have "\<not> unat v > 18446744073709547520" using unat_lt_u64 [of v] by simp
  moreover have "(unat v + 4095) div 4096 * 4096 = unat v" by (simp add: k)
  ultimately show ?thesis using True by (simp add: pmm_align_up_def mask_frame Let_def)
next
  case False
  then have m: "unat v mod 4096 \<noteq> 0" using unat_and_mask_u64 [of v] by (metis unat_eq_zero)
  have "unat (UINT64_MAX - mask 12) = 18446744073709547520"
    by (simp add: UINT64_MAX_def mask_eq_exp_minus_1)
  then have c: "v > UINT64_MAX - mask 12 \<longleftrightarrow> unat v > 18446744073709547520"
    by (simp add: word_less_nat_alt)
  show ?thesis
  proof (cases "unat v > 18446744073709547520")
    case True
    then show ?thesis using False c
      by (simp add: pmm_align_up_def mask_frame Let_def and_not_mask_u64)
  next
    case v: False
    then have "unat (v + mask 12) = unat v + 4095"
      by (simp add: unat_add_u64 mask_eq_exp_minus_1)
    then show ?thesis using False v c
      by (simp add: pmm_align_up_def mask_frame Let_def and_not_mask_u64)
  qed
qed

lemma align_up_frames:
  "unat (pmm_align_up v div PMM_FRAME_SIZE_U64) =
     min ((unat v + 4095) div 4096) 4503599627370495"
  using unat_lt_u64 [of v]
  by (auto simp: unat_div unat_align_up PMM_FRAME_SIZE_U64_def min_def)

lemma mark_range_free_spec:
  assumes wf: "pmm_wf st"
  shows "\<exists>st'. pmm_mark_range_free base len st = Some st' \<and> pmm_wf st' \<and> pmm_rest st' = pmm_rest st \<and>
           free_set st' = free_set st \<union>
             {f \<in> frames_inside base len. f < unat (pmm_total_frames st)}"
proof -
  let ?T = "unat (pmm_total_frames st)"
  let ?a = "pmm_align_up base div PMM_FRAME_SIZE_U64"
  let ?b = "pmm_align_down (pmm_range_end base len) div PMM_FRAME_SIZE_U64"
  let ?c = "if ?b > ucast (pmm_total_frames st) then ucast (pmm_total_frames st) else ?b"
  have T: "?T \<le> 1048576" using wf by (simp add: pmm_wf_def)
  have set: "{f \<in> frames_inside base len. f < ?T} = {unat ?a..<min (unat ?b) ?T}"
    using T by (auto simp: frames_inside_def align_up_frames align_down_frames range_end_unat)
  have c: "unat ?c = min (unat ?b) ?T" by (auto simp: word_less_nat_alt)
  show ?thesis
  proof (cases "?a \<ge> ucast (pmm_total_frames st)")
    case True
    then have "{f \<in> frames_inside base len. f < ?T} = {}"
      unfolding set by (simp add: word_le_nat_alt)
    then have "free_set st \<union> {f \<in> frames_inside base len. f < ?T} = free_set st"
      by blast
    then show ?thesis using True wf by (simp add: pmm_mark_range_free_def Let_def)
  next
    case False
    have "unat ?c \<le> ?T" unfolding c by simp
    from free_marker.mark_frames [OF wf this, of ?a] show ?thesis
      using False unfolding set c by (simp add: pmm_mark_range_free_def Let_def)
  qed
qed

lemma mark_range_used_spec:
  assumes wf: "pmm_wf st"
  shows "\<exists>st'. pmm_mark_range_used base len st = Some st' \<and> pmm_wf st' \<and> pmm_rest st' = pmm_rest st \<and>
           free_set st' = free_set st - frames_touched base len"
proof -
  let ?T = "unat (pmm_total_frames st)"
  let ?a = "pmm_align_down base div PMM_FRAME_SIZE_U64"
  let ?b = "pmm_align_up (pmm_range_end base len) div PMM_FRAME_SIZE_U64"
  let ?c = "if ?b > ucast (pmm_total_frames st) then ucast (pmm_total_frames st) else ?b"
  have T: "?T \<le> 1048576" using wf by (simp add: pmm_wf_def)
  have "{f \<in> frames_touched base len. f < ?T} = {unat ?a..<min (unat ?b) ?T}"
    using T by (auto simp: frames_touched_def align_up_frames align_down_frames range_end_unat)
  then have set: "free_set st - frames_touched base len = free_set st - {unat ?a..<min (unat ?b) ?T}"
    by (auto simp: free_set_def)
  have c: "unat ?c = min (unat ?b) ?T" by (auto simp: word_less_nat_alt)
  show ?thesis
  proof (cases "?a \<ge> ucast (pmm_total_frames st)")
    case True
    then have "free_set st - frames_touched base len = free_set st"
      unfolding set by (simp add: word_le_nat_alt)
    then show ?thesis using True wf by (simp add: pmm_mark_range_used_def Let_def)
  next
    case False
    have "unat ?c \<le> ?T" unfolding c by simp
    from used_marker.mark_frames [OF wf this, of ?a] show ?thesis
      using False unfolding set c by (simp add: pmm_mark_range_used_def Let_def)
  qed
qed

section \<open>Next-fit allocation\<close>

text \<open>The search order of the allocator: from the cursor up, then from zero to the cursor.\<close>

definition next_fit :: "nat \<Rightarrow> nat \<Rightarrow> nat set \<Rightarrow> nat option" where
  "next_fit cursor limit S = find (\<lambda>f. f \<in> S) ([cursor..<limit] @ [0..<cursor])"

text \<open>The state in which frame \<open>f\<close> has been handed out.\<close>

definition handed_out :: "nat \<Rightarrow> pmm \<Rightarrow> pmm \<Rightarrow> bool" where
  "handed_out f st st' \<longleftrightarrow>
     f \<in> free_set st \<and> pmm_inv st' \<and>
     free_set st' = free_set st - {f} \<and>
     alloc_set st' = insert f (alloc_set st) \<and>
     pmm_total_frames st' = pmm_total_frames st \<and>
     pmm_initialized st' = pmm_initialized st \<and>
     unat (pmm_next_search_frame st') = Suc f"

lemma pmm_wf_swap:
  assumes "pmm_wf st" "alen b = 32768" "pmm_bitmap s = pmm_bitmap st" "pmm_allocated_bitmap s = b"
    "pmm_total_frames s = pmm_total_frames st" "pmm_free_frames s = pmm_free_frames st"
    "pmm_used_frames s = pmm_used_frames st"
  shows "pmm_wf s" and "free_set s = free_set st"
proof -
  show "free_set s = free_set st" using assms by (simp add: free_set_def)
  then show "pmm_wf s" using assms by (simp add: pmm_wf_def)
qed

lemma take_frame:
  assumes inv: "pmm_inv st" and f: "unat f \<in> free_set st"
  obtains st1 b where "pmm_mark_frame_used f st = Some st1"
    "pmm_mark_frame_allocated f st1 = Some (st1\<lparr>pmm_allocated_bitmap := b\<rparr>)"
    "handed_out (unat f) st (st1\<lparr>pmm_allocated_bitmap := b, pmm_next_search_frame := f + 1\<rparr>)"
proof -
  have wf: "pmm_wf st" using inv by (simp add: pmm_inv_def)
  from mark_frame_used_spec [OF wf, of f] obtain st1 where
    1: "pmm_mark_frame_used f st = Some st1" "pmm_wf st1" "pmm_rest st1 = pmm_rest st"
       "free_set st1 = free_set st - {unat f}" by blast
  note lt = free_set_bound [OF f]
  have "unat f < unat (pmm_total_frames st1)" using lt 1(3) by (simp add: pmm_rest_eq)
  from mark_frame_allocated_spec [OF 1(2) this] obtain b where
    2: "pmm_mark_frame_allocated f st1 = Some (st1\<lparr>pmm_allocated_bitmap := b\<rparr>)" "alen b = 32768"
       "alloc_set (st1\<lparr>pmm_allocated_bitmap := b\<rparr>) = insert (unat f) (alloc_set st1)" by blast
  let ?s = "st1\<lparr>pmm_allocated_bitmap := b, pmm_next_search_frame := f + 1\<rparr>"
  have alloc: "alloc_set ?s = insert (unat f) (alloc_set st)"
    using 2(3) alloc_set_rest [OF 1(3)] by (simp add: alloc_set_def)
  have free: "free_set ?s = free_set st - {unat f}" using 1(4) by (simp add: free_set_def)
  have wf': "pmm_wf ?s" using pmm_wf_swap [OF 1(2) 2(2), of ?s] by simp
  have T: "pmm_total_frames st1 = pmm_total_frames st" "pmm_initialized st1 = pmm_initialized st"
    using 1(3) by (simp_all add: pmm_rest_eq)
  have n: "unat (f + 1) = Suc (unat f)"
    using lt by (intro unat_inc_less [of f "pmm_total_frames st"]) (simp add: word_nat)
  have "handed_out (unat f) st ?s"
    using f alloc free wf' T n lt inv unfolding handed_out_def pmm_inv_def
    by (auto simp: word_le_nat_alt)
  then show thesis using 1(1) 2(1) that by blast
qed

lemma allocate_scan_spec:
  assumes "pmm_inv st" "unat b \<le> unat (pmm_total_frames st)"
  shows "case find (\<lambda>f. f \<in> free_set st) [unat a..<unat b] of
           None \<Rightarrow> pmm_allocate_scan a b st = Some (None, st)
         | Some f \<Rightarrow> \<exists>st'. pmm_allocate_scan a b st = Some (Some (of_nat f * PMM_FRAME_SIZE), st') \<and>
                       handed_out f st st'"
  using assms
proof (induction "unat b - unat a" arbitrary: a)
  case 0
  then have "\<not> a < b" by (simp add: word_nat)
  with 0 show ?case by (simp add: pmm_allocate_scan.simps)
next
  case (Suc n)
  then have ab: "a < b" by (simp add: word_nat)
  have wf: "pmm_wf st" using Suc.prems by (simp add: pmm_inv_def)
  have lt: "unat a < unat (pmm_total_frames st)" using ab Suc.prems(2) by (simp add: word_nat)
  have split: "[unat a..<unat b] = unat a # [unat (a + 1)..<unat b]"
    using ab by (simp add: unat_inc_less upt_conv_Cons word_less_nat_alt)
  show ?case
  proof (cases "unat a \<in> free_set st")
    case True
    from take_frame [OF Suc.prems(1) this] obtain st1 c where
      "pmm_mark_frame_used a st = Some st1"
      "pmm_mark_frame_allocated a st1 = Some (st1\<lparr>pmm_allocated_bitmap := c\<rparr>)"
      "handed_out (unat a) st (st1\<lparr>pmm_allocated_bitmap := c, pmm_next_search_frame := a + 1\<rparr>)" .
    then show ?thesis unfolding split using True ab
      by (subst pmm_allocate_scan.simps) (simp add: index_used_eq [OF wf lt])
  next
    case False
    have n: "n = unat b - unat (a + 1)" using Suc.hyps(2) unat_inc_less [OF ab] by simp
    have step: "pmm_allocate_scan a b st = pmm_allocate_scan (a + 1) b st"
      using ab False by (subst pmm_allocate_scan.simps) (simp add: index_used_eq [OF wf lt])
    show ?thesis unfolding split step
      using Suc.hyps(1) [OF n Suc.prems] False by simp
  qed
qed

lemma find_append: "find P (xs @ ys) = (case find P xs of None \<Rightarrow> find P ys | Some x \<Rightarrow> Some x)"
  by (induction xs) auto

lemma allocate_frame_cases:
  assumes inv: "pmm_inv st" and init: "pmm_initialized st"
  shows "case next_fit (unat (pmm_next_search_frame st)) (unat (pmm_total_frames st)) (free_set st) of
           None \<Rightarrow> pmm_allocate_frame (Some v) st = Some (False, Some v, st)
         | Some f \<Rightarrow> \<exists>st'. pmm_allocate_frame (Some v) st = Some (True, Some (of_nat f * PMM_FRAME_SIZE), st') \<and>
                       handed_out f st st'"
proof -
  let ?n = "pmm_next_search_frame st" and ?t = "pmm_total_frames st"
  let ?find = "\<lambda>a b. find (\<lambda>f. f \<in> free_set st) [a..<b]"
  have n: "unat ?n \<le> unat ?t" using inv by (simp add: pmm_inv_def word_le_nat_alt)
  note s1 = allocate_scan_spec [OF inv order_refl, of ?n]
  note s2 = allocate_scan_spec [OF inv n, of 0, unfolded unat_0]
  show ?thesis
  proof (cases "?find (unat ?n) (unat ?t)")
    case None
    with s1 have first: "pmm_allocate_scan ?n ?t st = Some (None, st)" by simp
    then have "pmm_allocate_frame (Some v) st =
        Option.bind (pmm_allocate_scan 0 ?n st)
          (\<lambda>(found', st2). case found' of Some a \<Rightarrow> Some (True, Some a, st2)
                                      | None \<Rightarrow> Some (False, Some v, st2))"
      using init by (simp add: pmm_allocate_frame_def)
    then show ?thesis using s2 None
      by (auto simp: next_fit_def find_append split: option.splits)
  next
    case (Some f)
    with s1 init show ?thesis
      by (auto simp: next_fit_def find_append pmm_allocate_frame_def)
  qed
qed

lemma next_fit_None:
  assumes "n \<le> t" "S \<subseteq> {0..<t}"
  shows "next_fit n t S = None \<longleftrightarrow> S = {}"
  using assms by (fastforce simp: next_fit_def find_None_iff)

lemma next_fit_Some: "next_fit n t S = Some f \<Longrightarrow> f \<in> S"
  by (auto simp: next_fit_def find_Some_iff)

lemma free_set_subset: "free_set st \<subseteq> {0..<unat (pmm_total_frames st)}"
  by (auto simp: free_set_def)

section \<open>Freeing\<close>

text \<open>The frame an address starts, when it starts one.\<close>

definition frame_of :: "u32 \<Rightarrow> nat option" where
  "frame_of a = (if unat a mod 4096 = 0 then Some (unat a div 4096) else None)"

definition given_back :: "nat \<Rightarrow> pmm \<Rightarrow> pmm \<Rightarrow> bool" where
  "given_back f st st' \<longleftrightarrow>
     f \<in> alloc_set st \<and> pmm_inv st' \<and>
     free_set st' = insert f (free_set st) \<and>
     alloc_set st' = alloc_set st - {f} \<and>
     pmm_total_frames st' = pmm_total_frames st \<and>
     pmm_initialized st' = pmm_initialized st \<and>
     unat (pmm_next_search_frame st') = min f (unat (pmm_next_search_frame st))"

lemma free_frame_refused:
  assumes inv: "pmm_inv st" and bad: "\<forall>f. frame_of a = Some f \<longrightarrow> f \<notin> alloc_set st"
  shows "pmm_free_frame a st = Some (False, st)"
proof -
  have wf: "pmm_wf st" using inv by (simp add: pmm_inv_def)
  have d: "unat (a div PMM_FRAME_SIZE) = unat a div 4096" by (simp add: unat_div PMM_FRAME_SIZE_def)
  have m: "a mod PMM_FRAME_SIZE = 0 \<longleftrightarrow> unat a mod 4096 = 0"
    by (simp add: word_unat_eq_iff unat_mod PMM_FRAME_SIZE_def)
  show ?thesis
    using bad by (auto simp: pmm_free_frame_def m Let_def valid_frame_index [OF wf] d
        frame_of_def frame_allocated_eq [OF wf] alloc_set_def)
qed

lemma free_frame_accepted:
  assumes inv: "pmm_inv st" and init: "pmm_initialized st"
    and f: "frame_of a = Some f" "f \<in> alloc_set st"
  shows "\<exists>st'. pmm_free_frame a st = Some (True, st') \<and> given_back f st st'"
proof -
  let ?i = "a div PMM_FRAME_SIZE"
  have wf: "pmm_wf st" using inv by (simp add: pmm_inv_def)
  have fa: "f = unat a div 4096" "unat a mod 4096 = 0"
    using f(1) by (simp_all add: frame_of_def split: if_splits)
  have d: "unat ?i = f" by (simp add: unat_div PMM_FRAME_SIZE_def fa)
  have m: "a mod PMM_FRAME_SIZE = 0"
    using fa(2) by (simp add: word_unat_eq_iff unat_mod PMM_FRAME_SIZE_def)
  have lt: "unat ?i < unat (pmm_total_frames st)" using f(2) d by (simp add: alloc_set_def)
  from mark_frame_unallocated_spec [OF wf lt] obtain b where
    1: "pmm_mark_frame_unallocated ?i st = Some (st\<lparr>pmm_allocated_bitmap := b\<rparr>)" "alen b = 32768"
       "alloc_set (st\<lparr>pmm_allocated_bitmap := b\<rparr>) = alloc_set st - {f}"
    unfolding d by blast
  let ?s = "st\<lparr>pmm_allocated_bitmap := b\<rparr>"
  have wf1: "pmm_wf ?s" and free1: "free_set ?s = free_set st"
    using pmm_wf_swap [OF wf 1(2), of ?s] by simp_all
  have "unat ?i < unat (pmm_total_frames ?s)" using lt by simp
  from mark_frame_free_spec [OF wf1 this] obtain st2 where
    2: "pmm_mark_frame_free ?i ?s = Some st2" "pmm_wf st2" "pmm_rest st2 = pmm_rest ?s"
       "free_set st2 = free_set st \<union> {f}"
    unfolding free1 d by blast
  let ?n = "pmm_next_search_frame st"
  let ?e = "if ?i < pmm_next_search_frame st2 then st2\<lparr>pmm_next_search_frame := ?i\<rparr> else st2"
  have rest: "pmm_next_search_frame st2 = ?n" "pmm_total_frames st2 = pmm_total_frames st"
    "pmm_initialized st2 = pmm_initialized st" "pmm_allocated_bitmap st2 = b"
    using 2(3) by (simp_all add: pmm_rest_eq)
  have eq: "pmm_free_frame a st = Some (True, ?e)"
    using init m lt 1(1) 2(1) f(2) d
    by (simp add: pmm_free_frame_def Let_def valid_frame_index [OF wf] frame_allocated_eq [OF wf])
  have sets: "free_set ?e = insert f (free_set st)" "alloc_set ?e = alloc_set st - {f}"
    using 2(4) 1(3) rest by (auto simp: free_set_def alloc_set_def)
  have wf2: "pmm_wf ?e" using 2(2) sets(1) 2(4) by (simp add: pmm_wf_def)
  have next_frame: "unat (pmm_next_search_frame ?e) = min f (unat ?n)"
    using rest d by (auto simp: word_less_nat_alt)
  have "given_back f st ?e"
    unfolding given_back_def pmm_inv_def
    using f(2) wf2 sets next_frame rest inv lt d by (auto simp: pmm_inv_def word_le_nat_alt)
  then show ?thesis using eq by blast
qed

section \<open>The allocator as its clients see it\<close>

text \<open>
  A client's calls, what each returned, and the frames the client holds after a trace of
  returns.
\<close>

datatype frame_call = Allocate | Release u32

datatype frame_return = Granted u32 | Exhausted | Released u32 | Refused u32

fun frames_held :: "u32 set \<Rightarrow> frame_return list \<Rightarrow> u32 set" where
  "frames_held H [] = H"
| "frames_held H (Granted a # tr) = frames_held (insert a H) tr"
| "frames_held H (Exhausted # tr) = frames_held H tr"
| "frames_held H (Released a # tr) = frames_held (H - {a}) tr"
| "frames_held H (Refused a # tr) = frames_held H tr"

text \<open>No frame is granted while it is held, and exactly the held frames can be released.\<close>

fun trace_sound :: "u32 set \<Rightarrow> frame_return list \<Rightarrow> bool" where
  "trace_sound H [] \<longleftrightarrow> True"
| "trace_sound H (Granted a # tr) \<longleftrightarrow> a \<notin> H \<and> trace_sound (insert a H) tr"
| "trace_sound H (Exhausted # tr) \<longleftrightarrow> trace_sound H tr"
| "trace_sound H (Released a # tr) \<longleftrightarrow> a \<in> H \<and> trace_sound (H - {a}) tr"
| "trace_sound H (Refused a # tr) \<longleftrightarrow> a \<notin> H \<and> trace_sound H tr"

lemma frames_held_Cons: "frames_held H (r # tr) = frames_held (frames_held H [r]) tr"
  by (cases r) simp_all

lemma trace_sound_Cons:
  "trace_sound H (r # tr) \<longleftrightarrow> trace_sound H [r] \<and> trace_sound (frames_held H [r]) tr"
  by (cases r) simp_all

text \<open>A sequence of calls, through an allocator's two operations.\<close>

fun do_call ::
  "('s \<Rightarrow> (u32 option \<times> 's) option) \<Rightarrow> (u32 \<Rightarrow> 's \<Rightarrow> (bool \<times> 's) option) \<Rightarrow>
   frame_call \<Rightarrow> 's \<Rightarrow> (frame_return \<times> 's) option" where
  "do_call alloc release Allocate s =
     map_option (map_prod (\<lambda>r. case r of Some a \<Rightarrow> Granted a | None \<Rightarrow> Exhausted) id) (alloc s)"
| "do_call alloc release (Release a) s =
     map_option (map_prod (\<lambda>ok. if ok then Released a else Refused a) id) (release a s)"

fun run_calls ::
  "('s \<Rightarrow> (u32 option \<times> 's) option) \<Rightarrow> (u32 \<Rightarrow> 's \<Rightarrow> (bool \<times> 's) option) \<Rightarrow>
   frame_call list \<Rightarrow> 's \<Rightarrow> (frame_return list \<times> 's) option" where
  "run_calls alloc release [] s = Some ([], s)"
| "run_calls alloc release (c # cs) s = do {
     (r, s1) \<leftarrow> do_call alloc release c s;
     (tr, s2) \<leftarrow> run_calls alloc release cs s1;
     Some (r # tr, s2)
   }"

locale frame_allocator =
  fixes inv :: "'s \<Rightarrow> bool"
    and alloc :: "'s \<Rightarrow> (u32 option \<times> 's) option"
    and release :: "u32 \<Rightarrow> 's \<Rightarrow> (bool \<times> 's) option"
    and live :: "'s \<Rightarrow> u32 set"
    and avail :: "'s \<Rightarrow> u32 set"
  assumes live_avail: "inv s \<Longrightarrow> live s \<inter> avail s = {}"
    and alloc_granted: "inv s \<Longrightarrow> avail s \<noteq> {} \<Longrightarrow>
      \<exists>a s'. alloc s = Some (Some a, s') \<and> inv s' \<and> a \<in> avail s \<and>
        live s' = insert a (live s) \<and> avail s' = avail s - {a}"
    and alloc_exhausted: "inv s \<Longrightarrow> avail s = {} \<Longrightarrow> alloc s = Some (None, s)"
    and release_live: "inv s \<Longrightarrow> a \<in> live s \<Longrightarrow>
      \<exists>s'. release a s = Some (True, s') \<and> inv s' \<and> live s' = live s - {a} \<and>
        avail s' = insert a (avail s)"
    and release_refused: "inv s \<Longrightarrow> a \<notin> live s \<Longrightarrow> release a s = Some (False, s)"
begin

lemma call_step:
  assumes s: "inv s"
  shows "\<exists>r s'. do_call alloc release c s = Some (r, s') \<and> inv s' \<and>
           live s' = frames_held (live s) [r] \<and> trace_sound (live s) [r] \<and>
           live s' \<union> avail s' = live s \<union> avail s"
proof (cases c)
  case Allocate
  show ?thesis
  proof (cases "avail s = {}")
    case True
    from alloc_exhausted [OF s True] s show ?thesis by (simp add: Allocate)
  next
    case False
    from alloc_granted [OF s False] obtain a s' where
      1: "alloc s = Some (Some a, s')" "inv s'" "a \<in> avail s"
         "live s' = insert a (live s)" "avail s' = avail s - {a}" by blast
    have "a \<notin> live s" using live_avail [OF s] 1(3) by blast
    moreover have "live s' \<union> avail s' = live s \<union> avail s"
      unfolding 1(4,5) using 1(3) by blast
    ultimately show ?thesis using 1(1,2,4) by (simp add: Allocate)
  qed
next
  case (Release a)
  show ?thesis
  proof (cases "a \<in> live s")
    case True
    from release_live [OF s True] obtain s' where
      1: "release a s = Some (True, s')" "inv s'" "live s' = live s - {a}"
         "avail s' = insert a (avail s)" by blast
    have "live s' \<union> avail s' = live s \<union> avail s"
      unfolding 1(3,4) using True by blast
    then show ?thesis using 1(1-3) True by (simp add: Release)
  next
    case False
    from release_refused [OF s False] s False show ?thesis by (simp add: Release)
  qed
qed

lemma run_total:
  assumes "inv s"
  shows "\<exists>tr s'. run_calls alloc release cs s = Some (tr, s') \<and> inv s' \<and>
           live s' = frames_held (live s) tr \<and> trace_sound (live s) tr \<and>
           live s' \<union> avail s' = live s \<union> avail s"
  using assms
proof (induction cs arbitrary: s)
  case Nil
  then show ?case by simp
next
  case (Cons c cs)
  from call_step [OF Cons.prems, of c] obtain r s1 where
    1: "do_call alloc release c s = Some (r, s1)" "inv s1" "live s1 = frames_held (live s) [r]"
       "trace_sound (live s) [r]" "live s1 \<union> avail s1 = live s \<union> avail s" by blast
  from Cons.IH [OF 1(2)] obtain tr s2 where
    2: "run_calls alloc release cs s1 = Some (tr, s2)" "inv s2" "live s2 = frames_held (live s1) tr"
       "trace_sound (live s1) tr" "live s2 \<union> avail s2 = live s1 \<union> avail s1" by blast
  have "live s2 = frames_held (live s) (r # tr)"
    by (subst frames_held_Cons) (simp only: 2(3) 1(3))
  moreover have "trace_sound (live s) (r # tr)"
    by (subst trace_sound_Cons) (use 1(3,4) 2(4) in simp)
  ultimately show ?case using 1(1,5) 2(1,2,5) by simp
qed

end

text \<open>The kernel's allocator in the form of the interface.\<close>

definition pmm_alloc_op :: "pmm \<Rightarrow> (u32 option \<times> pmm) option" where
  "pmm_alloc_op st =
     map_option (\<lambda>(ok, out, st'). (if ok then out else None, st')) (pmm_allocate_frame (Some 0) st)"

definition frame_address :: "nat \<Rightarrow> u32" where
  "frame_address f = of_nat f * PMM_FRAME_SIZE"

definition pmm_running :: "pmm \<Rightarrow> bool" where
  "pmm_running st \<longleftrightarrow> pmm_inv st \<and> pmm_initialized st"

lemma unat_frame_address: "f < 1048576 \<Longrightarrow> unat (frame_address f) = 4096 * f"
  by (simp add: frame_address_def PMM_FRAME_SIZE_def unat_word_ariths unat_of_nat)

lemma inj_frame_address: "inj_on frame_address {0..<1048576}"
proof (rule inj_on_inverseI)
  fix f :: nat assume "f \<in> {0..<1048576}"
  then have "unat (frame_address f) = 4096 * f" by (intro unat_frame_address) simp
  then show "(\<lambda>a. unat a div 4096) (frame_address f) = f" by simp
qed

lemma frame_address_diff:
  assumes "X \<subseteq> {0..<1048576}" "f < 1048576"
  shows "frame_address ` (X - {f}) = frame_address ` X - {frame_address f}"
  using inj_on_image_set_diff [OF inj_frame_address, of X "{f}"] assms by auto

lemma pmm_inv_bounds:
  assumes "pmm_inv st"
  shows "free_set st \<subseteq> {0..<1048576}" "alloc_set st \<subseteq> {0..<1048576}"
  using assms by (auto simp: pmm_inv_def pmm_wf_def free_set_def alloc_set_def)

lemma frame_of_address: "f < 1048576 \<Longrightarrow> frame_of (frame_address f) = Some f"
  by (simp add: frame_of_def unat_frame_address)

lemma frame_of_Some: "frame_of a = Some f \<Longrightarrow> a = frame_address f \<and> f < 1048576"
proof -
  assume f: "frame_of a = Some f"
  then have m: "unat a = 4096 * f" by (auto simp: frame_of_def split: if_splits)
  then have lt: "f < 1048576" using unat_lt_u32 [of a] by simp
  then have "unat (frame_address f) = unat a" by (simp add: unat_frame_address m)
  then show ?thesis using lt by (simp add: word_unat_eq_iff)
qed

lemma pmm_next_fit_None:
  assumes "pmm_inv st"
  shows "next_fit (unat (pmm_next_search_frame st)) (unat (pmm_total_frames st)) (free_set st) = None
           \<longleftrightarrow> free_set st = {}"
  using assms by (intro next_fit_None free_set_subset) (simp add: pmm_inv_def word_le_nat_alt)

interpretation pmm_client: frame_allocator pmm_running pmm_alloc_op pmm_free_frame
  "\<lambda>st. frame_address ` alloc_set st" "\<lambda>st. frame_address ` free_set st"
proof
  fix s assume s: "pmm_running s"
  then have inv: "pmm_inv s" and init: "pmm_initialized s" by (simp_all add: pmm_running_def)
  note bounds = pmm_inv_bounds [OF inv]
  show "frame_address ` alloc_set s \<inter> frame_address ` free_set s = {}"
    using inj_on_image_Int [OF inj_frame_address bounds(2,1)] inv by (simp add: pmm_inv_def)
  { assume "frame_address ` free_set s \<noteq> {}"
    then have "free_set s \<noteq> {}" by simp
    then obtain f where f: "next_fit (unat (pmm_next_search_frame s)) (unat (pmm_total_frames s)) (free_set s) = Some f"
      using pmm_next_fit_None [OF inv] by blast
    from allocate_frame_cases [OF inv init, of 0] f obtain s' where
      1: "pmm_allocate_frame (Some 0) s = Some (True, Some (frame_address f), s')" "handed_out f s s'"
      by (auto simp: frame_address_def)
    have "frame_address ` (free_set s - {f}) = frame_address ` free_set s - {frame_address f}"
      using 1(2) bounds(1) by (intro frame_address_diff) (auto simp: handed_out_def)
    then show "\<exists>a s'. pmm_alloc_op s = Some (Some a, s') \<and> pmm_running s' \<and> a \<in> frame_address ` free_set s \<and>
        frame_address ` alloc_set s' = insert a (frame_address ` alloc_set s) \<and>
        frame_address ` free_set s' = frame_address ` free_set s - {a}"
      using 1 init by (auto simp: pmm_alloc_op_def handed_out_def pmm_running_def) }
  { assume "frame_address ` free_set s = {}"
    then have "next_fit (unat (pmm_next_search_frame s)) (unat (pmm_total_frames s)) (free_set s) = None"
      using pmm_next_fit_None [OF inv] by simp
    with allocate_frame_cases [OF inv init, of 0] show "pmm_alloc_op s = Some (None, s)"
      by (simp add: pmm_alloc_op_def) }
  { fix a assume "a \<in> frame_address ` alloc_set s"
    then obtain f where f: "a = frame_address f" "f \<in> alloc_set s" by blast
    have lt: "f < 1048576" using f(2) bounds(2) by auto
    from free_frame_accepted [OF inv init frame_of_address [OF lt] f(2)] obtain s' where
      1: "pmm_free_frame a s = Some (True, s')" "given_back f s s'" unfolding f(1) by blast
    have "frame_address ` (alloc_set s - {f}) = frame_address ` alloc_set s - {a}"
      unfolding f(1) using lt bounds(2) by (intro frame_address_diff)
    then show "\<exists>s'. pmm_free_frame a s = Some (True, s') \<and> pmm_running s' \<and>
        frame_address ` alloc_set s' = frame_address ` alloc_set s - {a} \<and>
        frame_address ` free_set s' = insert a (frame_address ` free_set s)"
      using 1 init f(1) by (auto simp: given_back_def pmm_running_def) }
  { fix a assume "a \<notin> frame_address ` alloc_set s"
    then have "\<forall>f. frame_of a = Some f \<longrightarrow> f \<notin> alloc_set s" using frame_of_Some by blast
    then show "pmm_free_frame a s = Some (False, s)" by (rule free_frame_refused [OF inv]) }
qed

section \<open>Properties\<close>

text \<open>A small running allocator: frames 1 and 2 of 4 are free.\<close>

definition sample_pmm :: pmm where
  "sample_pmm = pmm_static\<lparr>
     pmm_bitmap := CArray 32768 ((\<lambda>_. 0xFFFFFFFF)(0 := 0xFFFFFFF9)),
     pmm_initialized := True,
     pmm_total_frames := 4,
     pmm_free_frames := 2,
     pmm_used_frames := 2\<rparr>"

lemma sample_free_set: "free_set sample_pmm = {1, 2}"
proof -
  have four: "f < 4 \<longleftrightarrow> f = 0 \<or> f = 1 \<or> f = 2 \<or> f = 3" for f :: nat by auto
  have T: "unat (pmm_total_frames sample_pmm) = 4" by (simp add: sample_pmm_def)
  have b: "bitmap_test (pmm_bitmap sample_pmm) f \<longleftrightarrow> bit (0xFFFFFFF9 :: u32) f" if "f < 4" for f
    using that by (simp add: bitmap_test_def sample_pmm_def)
  have "f \<in> free_set sample_pmm \<longleftrightarrow> f = 1 \<or> f = 2" for f
  proof (cases "f < 4")
    case True
    then show ?thesis using b [OF True] by (auto simp: free_set_def T four)
  next
    case False
    then show ?thesis by (auto simp: free_set_def T)
  qed
  then show ?thesis by blast
qed

lemma sample_alloc_set: "alloc_set sample_pmm = {}"
  by (auto simp: alloc_set_def sample_pmm_def pmm_static_def bitmap_test_def)

lemma sample_running: "pmm_running sample_pmm"
  by (simp add: pmm_running_def pmm_inv_def pmm_wf_def sample_free_set sample_alloc_set)
     (simp add: sample_pmm_def pmm_static_def PMM_BITMAP_WORD_COUNT_eq)

lemma frame_used_eq:
  assumes "pmm_inv st"
  shows "pmm_is_frame_used a st = Some (unat a div 4096 \<notin> free_set st)"
proof -
  have wf: "pmm_wf st" using assms by (simp add: pmm_inv_def)
  have d: "unat (a div PMM_FRAME_SIZE) = unat a div 4096" by (simp add: unat_div PMM_FRAME_SIZE_def)
  show ?thesis
    using index_used_eq [OF wf, of "a div PMM_FRAME_SIZE"] valid_frame_index [OF wf, of "a div PMM_FRAME_SIZE"]
    by (auto simp: pmm_is_frame_used_def Let_def d free_set_def)
qed

text \<open>C26. The two range functions change the set of free frames exactly as their names say: releasing
  a byte range frees the tracked frames that lie wholly inside it, reserving one takes away every
  frame it touches.  Neither indexes outside a bitmap, the counters keep counting the bitmap, and
  nothing else changes; a range that wraps past the 64-bit address space is cut at its end.\<close>

theorem pmm_mark_ranges_exact:
  assumes "pmm_wf st"
  shows "\<exists>st1 st2.
     pmm_mark_range_free base len st = Some st1 \<and> pmm_wf st1 \<and> pmm_rest st1 = pmm_rest st \<and>
     free_set st1 = free_set st \<union> {f \<in> frames_inside base len. f < unat (pmm_total_frames st)} \<and>
     pmm_mark_range_used base len st = Some st2 \<and> pmm_wf st2 \<and> pmm_rest st2 = pmm_rest st \<and>
     free_set st2 = free_set st - frames_touched base len"
  using mark_range_free_spec [OF assms, of base len] mark_range_used_spec [OF assms, of base len]
  by blast

lemma pmm_mark_ranges_exact_witness:
  "\<exists>st1 st2. pmm_mark_range_free 100 20000 sample_pmm = Some st1 \<and>
     pmm_mark_range_used 5000 1 sample_pmm = Some st2 \<and> free_set st2 = {2}"
proof -
  have wf: "pmm_wf sample_pmm" using sample_running by (simp add: pmm_running_def pmm_inv_def)
  have "frames_touched 5000 1 = {1}" by (auto simp: frames_touched_def range_limit_def)
  then show ?thesis
    using pmm_mark_ranges_exact [OF wf, of 100 20000] pmm_mark_ranges_exact [OF wf, of 5000 1]
    by (auto simp: sample_free_set)
qed

text \<open>C17. Allocation is next fit: it grants the first free frame found from the search cursor up and
  then from frame zero up to the cursor, whose address is the frame number times 4096; that frame
  leaves the free set, joins the allocated set and the cursor moves past it, with every invariant
  kept.  It refuses, changing nothing, exactly when no frame is free.\<close>

theorem pmm_allocate_frame_next_fit:
  assumes "pmm_running st"
  shows "case next_fit (unat (pmm_next_search_frame st)) (unat (pmm_total_frames st)) (free_set st) of
      None \<Rightarrow> free_set st = {} \<and> pmm_allocate_frame (Some v) st = Some (False, Some v, st)
    | Some f \<Rightarrow> \<exists>st'. pmm_allocate_frame (Some v) st = Some (True, Some (frame_address f), st') \<and>
                 handed_out f st st' \<and> unat (frame_address f) = 4096 * f"
proof -
  have inv: "pmm_inv st" and init: "pmm_initialized st" using assms by (simp_all add: pmm_running_def)
  have "f \<in> free_set st \<Longrightarrow> unat (frame_address f) = 4096 * f" for f
    using pmm_inv_bounds(1) [OF inv] by (intro unat_frame_address) auto
  then show ?thesis
    using allocate_frame_cases [OF inv init, of v] pmm_next_fit_None [OF inv]
    by (auto simp: frame_address_def handed_out_def split: option.splits)
qed

lemma pmm_allocate_frame_next_fit_witness:
  "\<exists>st'. pmm_allocate_frame (Some 7) sample_pmm = Some (True, Some 4096, st') \<and> handed_out 1 sample_pmm st'"
proof -
  have n: "next_fit (unat (pmm_next_search_frame sample_pmm)) (unat (pmm_total_frames sample_pmm))
      (free_set sample_pmm) = Some 1"
    unfolding sample_free_set by (simp add: next_fit_def sample_pmm_def pmm_static_def upt_rec)
  show ?thesis
    using pmm_allocate_frame_next_fit [OF sample_running, of 7] unfolding n
    by (simp add: frame_address_def PMM_FRAME_SIZE_def)
qed

text \<open>C18. Freeing accepts exactly the page-aligned address of a frame that was handed out and not yet
  given back: the frame returns to the free set and the cursor moves down to it if it was above.
  Every other address - unaligned, untracked, reserved, never allocated, or freed before - is
  refused and changes nothing, so a double free cannot corrupt the allocator.\<close>

theorem pmm_free_frame_exact:
  assumes "pmm_running st"
  shows "if \<exists>f \<in> alloc_set st. a = frame_address f
         then \<exists>st' f. a = frame_address f \<and> pmm_free_frame a st = Some (True, st') \<and> given_back f st st' \<and>
                \<not> (\<exists>f \<in> alloc_set st'. a = frame_address f)
         else pmm_free_frame a st = Some (False, st)"
proof -
  have inv: "pmm_inv st" and init: "pmm_initialized st" using assms by (simp_all add: pmm_running_def)
  note bounds = pmm_inv_bounds [OF inv]
  show ?thesis
  proof (cases "\<exists>f \<in> alloc_set st. a = frame_address f")
    case True
    then obtain f where f: "f \<in> alloc_set st" "a = frame_address f" by blast
    then have lt: "f < 1048576" using bounds(2) by auto
    from free_frame_accepted [OF inv init frame_of_address [OF lt] f(1)] obtain st' where
      1: "pmm_free_frame a st = Some (True, st')" "given_back f st st'" unfolding f(2) by blast
    have "a \<notin> frame_address ` (alloc_set st - {f})"
      using frame_address_diff [OF bounds(2) lt] f(2) by simp
    then have "\<not> (\<exists>f \<in> alloc_set st'. a = frame_address f)" using 1(2) by (auto simp: given_back_def)
    then show ?thesis using True 1 f(2) by auto
  next
    case False
    then have "\<forall>f. frame_of a = Some f \<longrightarrow> f \<notin> alloc_set st" using frame_of_Some by blast
    then show ?thesis using False free_frame_refused [OF inv] by simp
  qed
qed

lemma pmm_free_frame_exact_witness: "pmm_free_frame 4096 sample_pmm = Some (False, sample_pmm)"
  using pmm_free_frame_exact [OF sample_running, of 4096] by (simp add: sample_alloc_set)

text \<open>C2. For every sequence of allocation and free calls of any clients, starting with no frame handed
  out: no call faults, no frame is granted while a client still holds it, a free succeeds exactly
  when the address is held, the allocation bitmap is at every moment the set of held frames, and
  the free and the held frames together are always the frames that were free at the start.\<close>

theorem pmm_calls_never_share_a_frame:
  assumes "pmm_running st" "alloc_set st = {}"
  shows "\<exists>tr st'. run_calls pmm_alloc_op pmm_free_frame cs st = Some (tr, st') \<and> pmm_running st' \<and>
     trace_sound {} tr \<and> frame_address ` alloc_set st' = frames_held {} tr \<and>
     frames_held {} tr \<union> frame_address ` free_set st' = frame_address ` free_set st"
proof -
  from pmm_client.run_total [OF assms(1), of cs] obtain tr st' where
    "run_calls pmm_alloc_op pmm_free_frame cs st = Some (tr, st')" "pmm_running st'"
    "frame_address ` alloc_set st' = frames_held (frame_address ` alloc_set st) tr"
    "trace_sound (frame_address ` alloc_set st) tr"
    "frame_address ` alloc_set st' \<union> frame_address ` free_set st' =
       frame_address ` alloc_set st \<union> frame_address ` free_set st"
    by (elim exE conjE)
  then show ?thesis using assms(2) by (intro exI [of _ tr] exI [of _ st']) simp
qed

lemma pmm_calls_never_share_a_frame_witness:
  "\<exists>tr st'. run_calls pmm_alloc_op pmm_free_frame
      [Allocate, Release 4096, Release 4096, Allocate, Allocate, Allocate] sample_pmm = Some (tr, st') \<and>
     trace_sound {} tr"
  using pmm_calls_never_share_a_frame [OF sample_running sample_alloc_set] by blast

text \<open>Taking a frame and giving it back leaves every variable but the search position as it was.\<close>

definition same_but_search :: "pmm \<Rightarrow> pmm \<Rightarrow> bool" where
  "same_but_search st st' \<longleftrightarrow> st'\<lparr>pmm_next_search_frame := 0\<rparr> = st\<lparr>pmm_next_search_frame := 0\<rparr>"

lemma same_but_search_eq: "same_but_search st st' \<Longrightarrow> st' = st\<lparr>pmm_next_search_frame := pmm_next_search_frame st'\<rparr>"
  by (cases st; cases st') (simp add: same_but_search_def)

lemma bit_mask_restore:
  "\<not> bit w (unat f mod 32) \<Longrightarrow> (w OR pmm_bitmap_bit_mask f) AND NOT (pmm_bitmap_bit_mask f) = w"
  by (rule bit_word_eqI) (auto simp: bit_and_iff bit_or_iff bit_not_iff bit_mask_bit)

lemma take_and_give_back:
  assumes wf: "pmm_wf st" and f: "unat f \<in> free_set st" "unat f \<notin> alloc_set st"
    and 1: "pmm_mark_frame_used f st = Some st1" "pmm_mark_frame_allocated f st1 = Some st2"
    and 2: "pmm_mark_frame_unallocated f (st2\<lparr>pmm_next_search_frame := n\<rparr>) = Some st3"
      "pmm_mark_frame_free f st3 = Some st4"
  shows "same_but_search st st4"
proof -
  let ?i = "unat f div 32" and ?m = "pmm_bitmap_bit_mask f"
  let ?b = "CArray 32768 ((acell (pmm_bitmap st))(?i := acell (pmm_bitmap st) ?i OR ?m))"
  let ?a = "CArray 32768 ((acell (pmm_allocated_bitmap st))(?i := acell (pmm_allocated_bitmap st) ?i OR ?m))"
  note lt = free_set_bound [OF f(1)] and i = frame_word_in [OF free_set_bound [OF f(1)] wf]
  have len: "alen (pmm_bitmap st) = 32768" "alen (pmm_allocated_bitmap st) = 32768"
    and valid: "f < pmm_total_frames st" "f < PMM_MAX_FRAMES"
    using wf lt valid_frame_index [OF wf, of f] by (simp_all add: pmm_wf_def pmm_is_valid_frame_index_def)
  have clear: "\<not> bit (acell (pmm_bitmap st) ?i) (unat f mod 32)" "\<not> bit (acell (pmm_allocated_bitmap st) ?i) (unat f mod 32)"
    using f lt by (auto simp: free_set_def alloc_set_def bitmap_test_def)
  have pos: "0 < pmm_free_frames st" "0 < pmm_used_frames st + 1"
    using wf f(1) card_gt_0_iff [of "free_set st"] by (auto simp: pmm_wf_def word_less_nat_alt unat_add_u32)
  have st1: "st1 = st\<lparr>pmm_bitmap := ?b, pmm_free_frames := pmm_free_frames st - 1, pmm_used_frames := pmm_used_frames st + 1\<rparr>"
    using 1(1) f(1) lt wf i pos len
    by (simp add: pmm_mark_frame_used_def valid_frame_index index_used_eq unat_word_index Let_def)
  have st2: "st2 = st1\<lparr>pmm_allocated_bitmap := ?a\<rparr>"
    using 1(2) valid i len by (simp add: st1 pmm_mark_frame_allocated_def pmm_is_valid_frame_index_def unat_word_index)
  have st3: "st3 = st2\<lparr>pmm_next_search_frame := n, pmm_allocated_bitmap := pmm_allocated_bitmap st\<rparr>"
    using 2(1) valid i len carray.collapse [of "pmm_allocated_bitmap st"]
    by (simp add: st1 st2 pmm_mark_frame_unallocated_def pmm_is_valid_frame_index_def unat_word_index
        bit_mask_restore [OF clear(2)])
  have "bit (acell ?b ?i) (unat f mod 32)" by (simp add: bit_or_iff bit_mask_bit)
  then have "st4 = st\<lparr>pmm_next_search_frame := n\<rparr>"
    using 2(2) valid i len carray.collapse [of "pmm_bitmap st"] pos(2)
    by (simp add: st1 st2 st3 pmm_mark_frame_free_def pmm_is_valid_frame_index_def pmm_is_frame_index_used_def
        unat_word_index mask_test Let_def bit_mask_restore [OF clear(1)])
  then show ?thesis by (simp add: same_but_search_def)
qed

lemma scan_taken:
  "pmm_allocate_scan a b st = Some (found, st') \<Longrightarrow> (case found of None \<Rightarrow> st' = st
     | Some x \<Rightarrow> \<exists>f st1 st2. f < b \<and> x = f * PMM_FRAME_SIZE \<and> pmm_is_frame_index_used f st = Some False \<and>
         pmm_mark_frame_used f st = Some st1 \<and> pmm_mark_frame_allocated f st1 = Some st2 \<and>
         st' = st2\<lparr>pmm_next_search_frame := f + 1\<rparr>)"
proof (induction a b st rule: pmm_allocate_scan.induct)
  case (1 a b st)
  show ?case
  proof (cases "a < b \<and> pmm_is_frame_index_used a st = Some True")
    case True
    then have "pmm_allocate_scan (a + 1) b st = Some (found, st')"
      using 1(2) by (subst (asm) pmm_allocate_scan.simps) simp
    then show ?thesis using 1(1) True by simp
  next
    case False
    then show ?thesis using 1(2)
      by (subst (asm) pmm_allocate_scan.simps) (auto split: if_splits bind_splits intro!: exI [of _ a] exI)
  qed
qed

lemma allocate_taken:
  assumes inv: "pmm_inv st" and st': "pmm_allocate_frame (Some v) st = Some (True, Some x, st')"
  obtains f st1 st2 where "unat f \<in> free_set st" "x = f * PMM_FRAME_SIZE" "pmm_mark_frame_used f st = Some st1"
    "pmm_mark_frame_allocated f st1 = Some st2" "st' = st2\<lparr>pmm_next_search_frame := f + 1\<rparr>"
proof -
  have wf: "pmm_wf st" and n: "pmm_next_search_frame st \<le> pmm_total_frames st" using inv by (simp_all add: pmm_inv_def)
  from st' obtain a b where b: "b \<le> pmm_total_frames st" "pmm_allocate_scan a b st = Some (Some x, st')"
    using scan_taken [of "pmm_next_search_frame st" "pmm_total_frames st" st None] n
    by (auto simp: pmm_allocate_frame_def split: if_splits bind_splits option.splits) blast+
  from scan_taken [OF b(2)] obtain f st1 st2 where f: "f < b" "x = f * PMM_FRAME_SIZE"
    "pmm_is_frame_index_used f st = Some False" "pmm_mark_frame_used f st = Some st1"
    "pmm_mark_frame_allocated f st1 = Some st2" "st' = st2\<lparr>pmm_next_search_frame := f + 1\<rparr>" by auto
  have "unat f < unat (pmm_total_frames st)" using f(1) b(1) by (simp add: word_less_nat_alt word_le_nat_alt)
  then have "unat f \<in> free_set st" using index_used_eq [OF wf, of f] f(3) by simp
  then show thesis using that f by blast
qed

lemma free_given:
  assumes "pmm_free_frame a st = Some (True, st')"
  obtains st1 st2 n where "pmm_mark_frame_unallocated (a div PMM_FRAME_SIZE) st = Some st1"
    "pmm_mark_frame_free (a div PMM_FRAME_SIZE) st1 = Some st2" "st' = st2\<lparr>pmm_next_search_frame := n\<rparr>"
proof -
  from assms obtain st1 st2 where s: "pmm_mark_frame_unallocated (a div PMM_FRAME_SIZE) st = Some st1"
    "pmm_mark_frame_free (a div PMM_FRAME_SIZE) st1 = Some st2"
    "st' = (if a div PMM_FRAME_SIZE < pmm_next_search_frame st2
            then st2\<lparr>pmm_next_search_frame := a div PMM_FRAME_SIZE\<rparr> else st2)"
    by (auto simp: pmm_free_frame_def Let_def split: if_splits bind_splits)
  have "\<exists>n. st' = st2\<lparr>pmm_next_search_frame := n\<rparr>"
    unfolding s(3) by (auto intro: exI [of _ "pmm_next_search_frame st2"])
  then show thesis using that s(1,2) by blast
qed

lemma allocate_free_restores:
  assumes inv: "pmm_inv st" and 1: "pmm_allocate_frame (Some v) st = Some (True, Some x, st1)"
    and 2: "pmm_free_frame x st1 = Some (True, st2)"
  shows "same_but_search st st2"
proof -
  have wf: "pmm_wf st" and apart: "free_set st \<inter> alloc_set st = {}" using inv by (auto simp: pmm_inv_def)
  from allocate_taken [OF inv 1] obtain f sa sb where f: "unat f \<in> free_set st" "x = f * PMM_FRAME_SIZE"
    "pmm_mark_frame_used f st = Some sa" "pmm_mark_frame_allocated f sa = Some sb"
    "st1 = sb\<lparr>pmm_next_search_frame := f + 1\<rparr>" .
  have "unat f < 1048576" using f(1) pmm_inv_bounds(1) [OF inv] by auto
  then have "unat x = 4096 * unat f" using f(2) by (simp add: PMM_FRAME_SIZE_def unat_word_ariths)
  then have x: "x div PMM_FRAME_SIZE = f" by (simp add: word_unat_eq_iff unat_div PMM_FRAME_SIZE_def)
  from free_given [OF 2, unfolded x] obtain sc sd n where
    g: "pmm_mark_frame_unallocated f st1 = Some sc" "pmm_mark_frame_free f sc = Some sd"
      "st2 = sd\<lparr>pmm_next_search_frame := n\<rparr>" .
  have "unat f \<notin> alloc_set st" using apart f(1) by auto
  from take_and_give_back [OF wf f(1) this f(3,4) g(1) [unfolded f(5)] g(2)]
  show ?thesis by (simp add: same_but_search_def g(3))
qed

lemma self_test_spec:
  assumes "pmm_running st"
  shows "\<exists>st'. pmm_run_basic_self_test st = Some (free_set st \<noteq> {}, st') \<and> pmm_running st' \<and>
     free_set st' = free_set st \<and> alloc_set st' = alloc_set st \<and>
     pmm_free_frames st' = pmm_free_frames st \<and> pmm_used_frames st' = pmm_used_frames st \<and> same_but_search st st'"
proof (cases "free_set st = {}")
  case True
  have inv: "pmm_inv st" and init: "pmm_initialized st" using assms by (simp_all add: pmm_running_def)
  from True allocate_frame_cases [OF inv init, of 0] pmm_next_fit_None [OF inv] assms
  show ?thesis by (simp add: pmm_run_basic_self_test_def same_but_search_def)
next
  case False
  have inv: "pmm_inv st" and init: "pmm_initialized st" using assms by (simp_all add: pmm_running_def)
  from False pmm_next_fit_None [OF inv] allocate_frame_cases [OF inv init, of 0] obtain f st1 where
    1: "pmm_allocate_frame (Some 0) st = Some (True, Some (frame_address f), st1)" "handed_out f st st1"
    by (auto simp: frame_address_def split: option.splits)
  have inv1: "pmm_inv st1" and init1: "pmm_initialized st1" and f: "f \<in> alloc_set st1" "f \<notin> free_set st1"
    using 1(2) init by (auto simp: handed_out_def)
  have lt: "f < 1048576" using pmm_inv_bounds(1) [OF inv] 1(2) by (auto simp: handed_out_def)
  from free_frame_accepted [OF inv1 init1 frame_of_address [OF lt] f(1)] obtain st2 where
    2: "pmm_free_frame (frame_address f) st1 = Some (True, st2)" "given_back f st1 st2" by blast
  have notin: "f \<notin> alloc_set st" using inv 1(2) by (auto simp: pmm_inv_def handed_out_def)
  have sets: "free_set st2 = free_set st" "alloc_set st2 = alloc_set st"
    using 1(2) 2(2) notin by (auto simp: handed_out_def given_back_def)
  have T: "pmm_total_frames st1 = pmm_total_frames st" "pmm_total_frames st2 = pmm_total_frames st"
    using 1(2) 2(2) by (simp_all add: handed_out_def given_back_def)
  have inv2: "pmm_inv st2" "pmm_initialized st2" using 2(2) init1 by (simp_all add: given_back_def)
  have wf: "pmm_wf st" "pmm_wf st1" "pmm_wf st2" using inv inv1 inv2 by (simp_all add: pmm_inv_def)
  have "card (free_set st1) = card (free_set st) - 1" "0 < card (free_set st)"
    using 1(2) by (auto simp: handed_out_def card_gt_0_iff)
  with wf T sets have counters:
    "pmm_free_frames st1 = pmm_free_frames st - 1" "pmm_used_frames st1 = pmm_used_frames st + 1"
    "pmm_free_frames st2 = pmm_free_frames st" "pmm_used_frames st2 = pmm_used_frames st"
    by (auto simp: pmm_wf_def word_unat_eq_iff unat_pred_pos unat_add_u32)
  have used: "pmm_is_frame_used (frame_address f) st1 = Some True"
    using f(2) by (simp add: frame_used_eq [OF inv1] unat_frame_address [OF lt])
  show ?thesis
    using 1(1) 2(1) used counters inv2 sets False allocate_free_restores [OF inv 1(1) 2(1)]
    by (simp add: pmm_run_basic_self_test_def pmm_running_def pmm_get_free_frame_count_def
        pmm_get_used_frame_count_def)
qed

text \<open>The boot self-test passes exactly when a frame is free, and leaves the allocator with the
  same free frames, the same allocated frames and the same counters it found.\<close>

theorem pmm_self_test_verdict:
  assumes "pmm_running st"
  shows "\<exists>st'. pmm_run_basic_self_test st = Some (free_set st \<noteq> {}, st') \<and> pmm_running st' \<and>
     free_set st' = free_set st \<and> alloc_set st' = alloc_set st \<and>
     pmm_free_frames st' = pmm_free_frames st \<and> pmm_used_frames st' = pmm_used_frames st"
  using self_test_spec [OF assms] by blast

lemma pmm_self_test_verdict_witness:
  "\<exists>st'. pmm_run_basic_self_test sample_pmm = Some (True, st') \<and> free_set st' = {1, 2}"
  using pmm_self_test_verdict [OF sample_running] by (auto simp: sample_free_set)

end
