(* ===== verification/Format.thy ===== *)
theory Format
  imports Prelude
begin

text \<open>
  \<^verbatim>\<open>src/kernel/format.c\<close>: the integer formatters.  The digit loops write to the local array
  \<open>digits\<close> and copy it backwards into the caller's buffer; every array access is
  checked, so a result \<open>Some\<close> says that no access left an array.  A buffer is
  \<open>None\<close> for a NULL pointer.  The 32-bit and the 64-bit decimal formatter have the same
  text up to the width and the size of \<open>digits\<close> (10 and 20), so their loops are one
  definition over any word length.
\<close>

section \<open>The formatters\<close>

text \<open>\<open>(char)('0' + (value % 10))\<close>.\<close>

definition kformat_digit_char :: "'a :: len word \<Rightarrow> char" where
  "kformat_digit_char value = char_of (48 + unat (value mod 10))"

function kformat_collect_digits ::
  "'a :: len word \<Rightarrow> char carray \<Rightarrow> nat \<Rightarrow> (char carray \<times> nat) option" where
  "kformat_collect_digits value digits digit_count =
     (if value > 0 then do {
        digits' \<leftarrow> awrite digits digit_count (kformat_digit_char value);
        kformat_collect_digits (value div 10) digits' (digit_count + 1)
      }
      else Some (digits, digit_count))"
  by pat_completeness auto
termination
  by (relation "measure (\<lambda>(value, digits, digit_count). unat value)") (auto simp: unat_div_ten_less)

declare kformat_collect_digits.simps [simp del]

fun kformat_copy_digits ::
  "char carray \<Rightarrow> nat \<Rightarrow> char carray \<Rightarrow> nat \<Rightarrow> (char carray \<times> nat) option" where
  "kformat_copy_digits digits 0 buffer output_index = Some (buffer, output_index)"
| "kformat_copy_digits digits (Suc digit_count) buffer output_index = do {
     c \<leftarrow> aread digits digit_count;
     buffer' \<leftarrow> awrite buffer output_index c;
     kformat_copy_digits digits digit_count buffer' (output_index + 1)
   }"

definition kformat_decimal ::
  "nat \<Rightarrow> 'a :: len word \<Rightarrow> char carray option \<Rightarrow> nat \<Rightarrow> (bool \<times> char carray option) option" where
  "kformat_decimal digits_size value buffer buffer_size =
     (case buffer of
        None \<Rightarrow> Some (False, None)
      | Some b \<Rightarrow>
          if buffer_size = 0 then Some (False, Some b)
          else if value = 0 then
            if buffer_size < 2 then Some (False, Some b)
            else do {
              b1 \<leftarrow> awrite b 0 (CHR ''0'');
              b2 \<leftarrow> awrite b1 1 NUL;
              Some (True, Some b2)
            }
          else do {
            (digits, digit_count) \<leftarrow> kformat_collect_digits value (afill digits_size NUL) 0;
            if buffer_size \<le> digit_count then Some (False, Some b)
            else do {
              (b1, output_index) \<leftarrow> kformat_copy_digits digits digit_count b 0;
              b2 \<leftarrow> awrite b1 output_index NUL;
              Some (True, Some b2)
            }
          })"

definition kformat_uint32_decimal ::
  "u32 \<Rightarrow> char carray option \<Rightarrow> nat \<Rightarrow> (bool \<times> char carray option) option" where
  "kformat_uint32_decimal value buffer buffer_size = kformat_decimal 10 value buffer buffer_size"

definition kformat_uint64_decimal ::
  "u64 \<Rightarrow> char carray option \<Rightarrow> nat \<Rightarrow> (bool \<times> char carray option) option" where
  "kformat_uint64_decimal value buffer buffer_size = kformat_decimal 20 value buffer buffer_size"

definition hex_digits :: string where
  "hex_digits = ''0123456789ABCDEF''"

definition kformat_hex_digit :: "u32 \<Rightarrow> nat \<Rightarrow> nat" where
  "kformat_hex_digit value i =
     (let shift = 28 - i * 4; digit = drop_bit shift value AND 0xF in unat digit)"

fun kformat_hex_loop :: "u32 \<Rightarrow> nat \<Rightarrow> nat \<Rightarrow> char carray \<Rightarrow> char carray option" where
  "kformat_hex_loop value 0 i buffer = Some buffer"
| "kformat_hex_loop value (Suc n) i buffer = do {
     buffer' \<leftarrow> awrite buffer (2 + i) (hex_digits ! kformat_hex_digit value i);
     kformat_hex_loop value n (i + 1) buffer'
   }"

definition kformat_uint32_hex ::
  "u32 \<Rightarrow> char carray option \<Rightarrow> nat \<Rightarrow> (bool \<times> char carray option) option" where
  "kformat_uint32_hex value buffer buffer_size =
     (case buffer of
        None \<Rightarrow> Some (False, None)
      | Some b \<Rightarrow>
          if buffer_size < 11 then Some (False, Some b)
          else do {
            b1 \<leftarrow> awrite b 0 (CHR ''0'');
            b2 \<leftarrow> awrite b1 1 (CHR ''x'');
            b3 \<leftarrow> kformat_hex_loop value 8 0 b2;
            b4 \<leftarrow> awrite b3 10 NUL;
            Some (True, Some b4)
          })"

section \<open>Reference texts\<close>

text \<open>The digits of a number, least significant first, and its decimal text.\<close>

fun rdigits :: "nat \<Rightarrow> string" where
  "rdigits n = (if n = 0 then [] else char_of (48 + n mod 10) # rdigits (n div 10))"

declare rdigits.simps [simp del]

definition decimal_text :: "nat \<Rightarrow> string" where
  "decimal_text n = (if n = 0 then ''0'' else rev (rdigits n))"

text \<open>Reading a text back: positional value of its digits.\<close>

definition char_digit :: "char \<Rightarrow> nat" where
  "char_digit c = (if of_char c < (58 :: nat) then of_char c - 48 else of_char c - 55)"

definition decimal_digit :: "char \<Rightarrow> bool" where
  "decimal_digit c \<longleftrightarrow> 48 \<le> (of_char c :: nat) \<and> (of_char c :: nat) \<le> 57"

definition text_value :: "nat \<Rightarrow> string \<Rightarrow> nat" where
  "text_value b t = foldl (\<lambda>v c. v * b + char_digit c) 0 t"

definition hex_text :: "u32 \<Rightarrow> string" where
  "hex_text value = ''0x'' @ map (\<lambda>i. hex_digits ! kformat_hex_digit value i) [0..<8]"

section \<open>Facts about the reference texts\<close>

lemma rdigits_0 [simp]: "rdigits 0 = []"
  by (subst rdigits.simps) simp

lemma rdigits_pos: "n > 0 \<Longrightarrow> rdigits n = char_of (48 + n mod 10) # rdigits (n div 10)"
  by (subst rdigits.simps) simp

lemma length_rdigits_le: "n < 10 ^ k \<Longrightarrow> length (rdigits n) \<le> k"
proof (induction k arbitrary: n)
  case 0
  then show ?case by simp
next
  case (Suc k)
  show ?case
  proof (cases "n = 0")
    case False
    have "n div 10 < 10 ^ k" using Suc.prems by (simp add: less_mult_imp_div_less mult.commute)
    then have "length (rdigits (n div 10)) \<le> k" by (rule Suc.IH)
    with False show ?thesis by (simp add: rdigits_pos)
  qed simp
qed

lemma decimal_digit_char_of: "d < 10 \<Longrightarrow> decimal_digit (char_of (48 + d :: nat))"
  by (simp add: decimal_digit_def)

lemma rdigits_are_digits: "c \<in> set (rdigits n) \<Longrightarrow> decimal_digit c"
proof (induction n rule: rdigits.induct)
  case (1 n)
  show ?case
  proof (cases "n = 0")
    case False
    from "1.prems" False have "c = char_of (48 + n mod 10) \<or> c \<in> set (rdigits (n div 10))"
      by (simp add: rdigits_pos)
    with False "1.IH" show ?thesis by (auto simp: decimal_digit_char_of)
  qed (use "1.prems" in simp)
qed

lemma char_digit_char_of: "d < 10 \<Longrightarrow> char_digit (char_of (48 + d :: nat)) = d"
  by (simp add: char_digit_def)

lemma text_value_snoc: "text_value b (t @ [c]) = text_value b t * b + char_digit c"
  by (simp add: text_value_def)

lemma text_value_rdigits: "text_value 10 (rev (rdigits n)) = n"
proof (induction n rule: rdigits.induct)
  case (1 n)
  then show ?case
    by (cases "n = 0") (simp_all add: text_value_def [of _ "[]"] rdigits_pos text_value_snoc char_digit_char_of)
qed

lemma text_value_decimal: "text_value 10 (decimal_text n) = n"
  by (simp add: decimal_text_def text_value_rdigits) (simp add: text_value_def char_digit_def)

lemma decimal_text_digits: "c \<in> set (decimal_text n) \<Longrightarrow> decimal_digit c"
  using rdigits_are_digits [of c n] by (auto simp: decimal_text_def decimal_digit_def split: if_splits)

lemma decimal_text_no_NUL: "NUL \<notin> set (decimal_text n)"
  using decimal_text_digits [of NUL n] by (auto simp: decimal_digit_def)

lemma length_decimal_text:
  "length (decimal_text n) = (if n = 0 then 1 else length (rdigits n))"
  by (simp add: decimal_text_def)

lemma decimal_text_u32: "length (decimal_text (unat (v :: u32))) \<le> 10"
  using length_rdigits_le [of "unat v" 10] unat_lt_u32 [of v] by (simp add: length_decimal_text)

lemma decimal_text_u64: "length (decimal_text (unat (v :: u64))) \<le> 20"
  using length_rdigits_le [of "unat v" 20] unat_lt_u64 [of v] by (simp add: length_decimal_text)

section \<open>The loops write exactly the digits\<close>

lemma collect_digits_eq:
  assumes ten: "unat (10 :: 'a :: len word) = 10"
  shows "k + length (rdigits (unat v)) \<le> alen d \<Longrightarrow>
    kformat_collect_digits (v :: 'a word) d k =
      Some (ablit d k (rdigits (unat v)), k + length (rdigits (unat v)))"
proof (induction v d k rule: kformat_collect_digits.induct)
  case (1 v d k)
  show ?case
  proof (cases "v > 0")
    case True
    then have pos: "0 < unat v" by (simp add: word_less_nat_alt)
    have dv: "unat (v div 10) = unat v div 10" by (simp only: unat_div ten)
    have ch: "kformat_digit_char v = char_of (48 + unat v mod 10)"
      by (simp only: kformat_digit_char_def unat_mod ten)
    let ?d' = "ablit d k [kformat_digit_char v]"
    from "1.prems" pos have k: "k < alen d" by (simp add: rdigits_pos)
    have "kformat_collect_digits (v div 10) ?d' (k + 1) =
      Some (ablit ?d' (k + 1) (rdigits (unat v div 10)), k + 1 + length (rdigits (unat v div 10)))"
      using "1.IH" [OF True awrite_ablit [OF k]] "1.prems" pos by (simp add: rdigits_pos dv)
    with True k show ?thesis
      by (subst kformat_collect_digits.simps)
        (simp add: awrite_ablit ablit_Cons rdigits_pos [OF pos] ch del: awrite_in)
  next
    case False
    then have "v = 0" using word_neq_0_conv by blast
    then show ?thesis by (subst kformat_collect_digits.simps) simp
  qed
qed

lemma copy_digits_eq:
  "n \<le> alen d \<Longrightarrow> oi + n \<le> alen b \<Longrightarrow>
   kformat_copy_digits d n b oi = Some (ablit b oi (rev (map (acell d) [0..<n])), oi + n)"
proof (induction n arbitrary: b oi)
  case (Suc n)
  then show ?case by (simp add: awrite_ablit ablit_Cons del: awrite_in)
qed simp

lemma kformat_decimal_eq:
  assumes ten: "unat (10 :: 'a :: len word) = 10"
    and cap: "length (decimal_text (unat v)) \<le> cap" and fits: "sz \<le> alen b"
  shows "kformat_decimal cap (v :: 'a word) (Some b) sz =
    (if sz \<le> length (decimal_text (unat v)) then Some (False, Some b)
     else Some (True, Some (ablit b 0 (decimal_text (unat v) @ [NUL]))))"
proof (cases "v = 0")
  case True
  then show ?thesis using fits
    by (auto simp: kformat_decimal_def decimal_text_def awrite_ablit ablit_Cons simp del: awrite_in)
next
  case False
  let ?r = "rdigits (unat v)"
  have nz: "unat v \<noteq> 0" using False by (simp add: unat_eq_zero)
  then have dt: "decimal_text (unat v) = rev ?r" by (simp add: decimal_text_def)
  have c: "kformat_collect_digits v (afill cap NUL) 0 = Some (ablit (afill cap NUL) 0 ?r, length ?r)"
    using collect_digits_eq [OF ten, of 0 v "afill cap NUL"] cap dt by simp
  have m: "map (acell (ablit (afill cap NUL) 0 ?r)) [0..<length ?r] = ?r"
    by (rule nth_equalityI) (simp_all add: acell_ablit)
  have cp: "\<not> sz \<le> length ?r \<Longrightarrow>
    kformat_copy_digits (ablit (afill cap NUL) 0 ?r) (length ?r) b 0 = Some (ablit b 0 (rev ?r), length ?r)"
    using copy_digits_eq [of "length ?r" "ablit (afill cap NUL) 0 ?r" 0 b] cap fits dt m by simp
  have w: "\<not> sz \<le> length ?r \<Longrightarrow>
    awrite (ablit b 0 (rev ?r)) (length ?r) NUL = Some (ablit b 0 (rev ?r @ [NUL]))"
    using ablit_append [of b 0 "rev ?r" "[NUL]"] fits by (simp add: awrite_ablit del: awrite_in)
  show ?thesis
    using False dt c cp w by (auto simp: kformat_decimal_def)
qed

lemma hex_loop_eq:
  "2 + i + n \<le> alen b \<Longrightarrow> kformat_hex_loop v n i b =
     Some (ablit b (2 + i) (map (\<lambda>j. hex_digits ! kformat_hex_digit v j) [i..<i + n]))"
proof (induction n arbitrary: i b)
  case (Suc n)
  then show ?case by (simp add: awrite_ablit ablit_Cons upt_rec [of i] del: awrite_in)
qed simp

lemma kformat_hex_digit_eq: "kformat_hex_digit v i = unat v div 2 ^ (28 - i * 4) mod 16"
proof -
  have "x AND 0xF = take_bit 4 x" for x :: u32
    by (simp add: take_bit_eq_mask mask_eq_exp_minus_1)
  then have "kformat_hex_digit v i = unat (take_bit 4 (drop_bit (28 - i * 4) v))"
    by (simp only: kformat_hex_digit_def Let_def)
  then show ?thesis by (simp only: unat_take_bit_mod unat_drop_bit_div) simp
qed

lemma kformat_hex_digit_lt: "kformat_hex_digit v i < 16"
  by (simp add: kformat_hex_digit_eq)

lemma hex_digits_table:
  "\<forall>k\<in>set [0..<16]. char_digit (hex_digits ! k) = k \<and> hex_digits ! k \<noteq> NUL"
  by code_simp

lemma char_digit_hex: "k < 16 \<Longrightarrow> char_digit (hex_digits ! k) = k"
  using hex_digits_table by simp

lemma hex_prefix_value:
  "k \<le> 8 \<Longrightarrow>
   text_value 16 (map (\<lambda>i. hex_digits ! kformat_hex_digit v i) [0..<k]) = unat v div 2 ^ (32 - k * 4)"
proof (induction k)
  case 0
  then show ?case using unat_lt_u32 [of v] by (simp add: text_value_def)
next
  case (Suc k)
  have split: "unat v div 2 ^ (32 - k * 4) = unat v div 2 ^ (28 - k * 4) div 16"
  proof -
    have "32 - k * 4 = 28 - k * 4 + 4" using Suc.prems by simp
    then have "(2 :: nat) ^ (32 - k * 4) = 2 ^ (28 - k * 4) * 2 ^ 4" by (simp only: power_add)
    then show ?thesis by (simp add: div_mult2_eq)
  qed
  from Suc show ?case
    by (simp add: text_value_snoc char_digit_hex kformat_hex_digit_lt split kformat_hex_digit_eq
        del: upt_conv_Cons_Cons)
qed

lemma hex_text_no_NUL: "NUL \<notin> set (hex_text v)"
proof -
  have "hex_digits ! kformat_hex_digit v i \<noteq> NUL" for i
    using hex_digits_table kformat_hex_digit_lt by simp
  then show ?thesis by (fastforce simp: hex_text_def)
qed

section \<open>Properties\<close>

text \<open>
  C35. \<open>kformat_uint32_decimal\<close> on any value and any buffer that really has \<open>sz\<close> bytes:
  it makes no access outside \<open>digits\<close> or the buffer, it refuses exactly when the
  decimal text and its NUL do not fit (leaving the buffer as it was), and otherwise stores
  the text of the value followed by NUL and touches nothing behind it.
\<close>

theorem kformat_uint32_decimal_correct:
  assumes "sz \<le> alen b"
  shows "kformat_uint32_decimal v (Some b) sz =
    (if sz \<le> length (decimal_text (unat v)) then Some (False, Some b)
     else Some (True, Some (ablit b 0 (decimal_text (unat v) @ [NUL]))))"
  unfolding kformat_uint32_decimal_def
  by (rule kformat_decimal_eq [OF _ decimal_text_u32 assms]) simp

theorem kformat_uint32_decimal_correct_witness:
  "kformat_uint32_decimal 4294967295 (Some (afill 11 NUL)) 11 =
     Some (True, Some (ablit (afill 11 NUL) 0 (decimal_text 4294967295 @ [NUL])))"
  using kformat_uint32_decimal_correct [of 11 "afill 11 NUL" 4294967295]
    decimal_text_u32 [of 4294967295] by simp

text \<open>
  \<open>kformat_uint64_decimal\<close>: the same contract at 64 bits, whose text needs up to 20
  digits, the size of its local array.
\<close>

theorem kformat_uint64_decimal_correct:
  assumes "sz \<le> alen b"
  shows "kformat_uint64_decimal v (Some b) sz =
    (if sz \<le> length (decimal_text (unat v)) then Some (False, Some b)
     else Some (True, Some (ablit b 0 (decimal_text (unat v) @ [NUL]))))"
  unfolding kformat_uint64_decimal_def
  by (rule kformat_decimal_eq [OF _ decimal_text_u64 assms]) simp

theorem kformat_uint64_decimal_correct_witness:
  "kformat_uint64_decimal 18446744073709551615 (Some (afill 21 NUL)) 21 =
     Some (True, Some (ablit (afill 21 NUL) 0 (decimal_text 18446744073709551615 @ [NUL])))"
  using kformat_uint64_decimal_correct [of 21 "afill 21 NUL" 18446744073709551615]
    decimal_text_u64 [of 18446744073709551615] by simp

text \<open>The string a caller reads from a buffer that a formatter filled.\<close>

lemma c_text_ablit:
  "NUL \<notin> set t \<Longrightarrow> length t < alen b \<Longrightarrow> c_text (acells (ablit b 0 (t @ [NUL]))) = t"
  by (simp add: acells_ablit_0 c_text_append_NUL)

text \<open>
  Every caller's buffer is big enough and the text says the value: with the 11-byte
  buffers of \<open>klog_write_uint32\<close> and \<open>shell_print_uint32\<close> and the 21-byte buffer of
  \<open>klog_write_uint64\<close> formatting always succeeds, and the C string then in the buffer
  consists of decimal digits whose value is the number formatted.
\<close>

theorem kformat_decimal_roundtrip:
  assumes "alen b = 11" and "alen b' = 21"
  shows "\<exists>r r'.
    kformat_uint32_decimal v (Some b) 11 = Some (True, Some r) \<and>
    kformat_uint64_decimal v' (Some b') 21 = Some (True, Some r') \<and>
    text_value 10 (c_text (acells r)) = unat v \<and> list_all decimal_digit (c_text (acells r)) \<and>
    text_value 10 (c_text (acells r')) = unat v' \<and> list_all decimal_digit (c_text (acells r'))"
proof -
  let ?t = "decimal_text (unat v)" and ?t' = "decimal_text (unat v')"
  have len: "length ?t \<le> 10" "length ?t' \<le> 20" by (rule decimal_text_u32, rule decimal_text_u64)
  have "c_text (acells (ablit b 0 (?t @ [NUL]))) = ?t"
    "c_text (acells (ablit b' 0 (?t' @ [NUL]))) = ?t'"
    using assms len by (simp_all add: c_text_ablit decimal_text_no_NUL)
  then show ?thesis
    using kformat_decimal_eq [of v 10 11 b] kformat_decimal_eq [of v' 20 21 b'] assms len
    by (simp add: kformat_uint32_decimal_def kformat_uint64_decimal_def text_value_decimal
        list_all_iff decimal_text_digits)
qed

theorem kformat_decimal_roundtrip_witness:
  "\<exists>r r'.
    kformat_uint32_decimal 100 (Some (afill 11 NUL)) 11 = Some (True, Some r) \<and>
    kformat_uint64_decimal 0 (Some (afill 21 NUL)) 21 = Some (True, Some r') \<and>
    text_value 10 (c_text (acells r)) = 100 \<and> list_all decimal_digit (c_text (acells r)) \<and>
    text_value 10 (c_text (acells r')) = 0 \<and> list_all decimal_digit (c_text (acells r'))"
  using kformat_decimal_roundtrip [of "afill 11 NUL" "afill 21 NUL" 100 0] by simp

lemma kformat_uint32_hex_eq:
  assumes "sz \<le> alen b"
  shows "kformat_uint32_hex v (Some b) sz =
      (if sz < 11 then Some (False, Some b) else Some (True, Some (ablit b 0 (hex_text v @ [NUL]))))"
proof (cases "sz < 11")
  case True
  then show ?thesis by (simp add: kformat_uint32_hex_def)
next
  case False
  let ?ds = "map (\<lambda>j. hex_digits ! kformat_hex_digit v j) [0..<8]"
  have "ablit (ablit (ablit (ablit b 0 [CHR ''0'']) 1 [CHR ''x'']) 2 ?ds) 10 [NUL] =
      ablit b 0 (hex_text v @ [NUL])"
    using ablit_append [of b 0 "''0x'' @ ?ds" "[NUL]"] ablit_append [of b 0 "''0x''" ?ds]
      ablit_append [of b 0 "''0''" "''x''"]
    by (simp add: hex_text_def numeral_2_eq_2)
  with False assms show ?thesis
    by (simp add: kformat_uint32_hex_def awrite_ablit hex_loop_eq del: awrite_in)
qed

lemma length_hex_text: "length (hex_text v) = 10"
  by (simp add: hex_text_def)

text \<open>
  \<open>kformat_uint32_hex\<close> on a buffer that really has \<open>sz\<close> bytes: it refuses below
  11 bytes; otherwise it stores, inside the buffer, the prefix \<open>0x\<close> and eight digits whose
  hexadecimal value is the number formatted, then NUL.
\<close>

theorem kformat_uint32_hex_correct:
  assumes "sz \<le> alen b"
  shows "kformat_uint32_hex v (Some b) sz =
      (if sz < 11 then Some (False, Some b) else Some (True, Some (ablit b 0 (hex_text v @ [NUL]))))
    \<and> length (hex_text v) = 10 \<and> text_value 16 (drop 2 (hex_text v)) = unat v"
  using kformat_uint32_hex_eq [OF assms] length_hex_text hex_prefix_value [of 8 v]
  by (auto simp: hex_text_def simp del: upt_conv_Cons_Cons)

theorem kformat_uint32_hex_correct_witness:
  "kformat_uint32_hex 0xDEADBEEF (Some (afill 11 NUL)) 11 =
     Some (True, Some (ablit (afill 11 NUL) 0 (hex_text 0xDEADBEEF @ [NUL])))
   \<and> hex_text 0xDEADBEEF = ''0xDEADBEEF''"
  using kformat_uint32_hex_correct [of 11 "afill 11 NUL" "0xDEADBEEF"]
  by (simp add: hex_text_def kformat_hex_digit_eq hex_digits_def upt_rec)

end
