(* ===== verification/Sink.thy ===== *)
theory Sink
  imports Prelude
begin

text \<open>
  The interfaces of the output stack.  A device takes characters; what an observer sees of it
  is \<open>obs\<close>, and each character changes that by \<open>step\<close>.  A text sink also takes C strings, in
  whatever way, with the effect of their characters.  \<open>frame\<close> says what the operations leave
  alone.  The terminal, the serial port, the console and the log are interpreted below them.
\<close>

text \<open>A sequence of statements that may fault.\<close>

fun run_steps :: "('s \<Rightarrow> 's option) list \<Rightarrow> 's \<Rightarrow> 's option" where
  "run_steps [] s = Some s"
| "run_steps (f # fs) s = Option.bind (f s) (run_steps fs)"

text \<open>\<open>f\<close> does not fault and shows the text \<open>t\<close>.\<close>

definition prints_on ::
  "('s \<Rightarrow> bool) \<Rightarrow> ('s \<Rightarrow> 'o) \<Rightarrow> (char \<Rightarrow> 'o \<Rightarrow> 'o) \<Rightarrow> ('s \<Rightarrow> 's \<Rightarrow> bool) \<Rightarrow> ('s \<Rightarrow> 's option) \<Rightarrow> string \<Rightarrow> bool"
  where
  "prints_on ok obs step frame f t \<longleftrightarrow>
     (\<forall>s. ok s \<longrightarrow> (\<exists>s'. f s = Some s' \<and> ok s' \<and> obs s' = fold step t (obs s) \<and> frame s s'))"

lemma prints_onD:
  "prints_on ok obs step frame f t \<Longrightarrow> ok s \<Longrightarrow>
     \<exists>s'. f s = Some s' \<and> ok s' \<and> obs s' = fold step t (obs s) \<and> frame s s'"
  by (simp add: prints_on_def)

locale char_device =
  fixes inv :: "'s \<Rightarrow> bool"
    and obs :: "'s \<Rightarrow> 'o"
    and step :: "char \<Rightarrow> 'o \<Rightarrow> 'o"
    and frame :: "'s \<Rightarrow> 's \<Rightarrow> bool"
    and putc :: "char \<Rightarrow> 's \<Rightarrow> 's"
  assumes frame_refl: "frame s s"
    and frame_trans: "frame a b \<Longrightarrow> frame b d \<Longrightarrow> frame a d"
    and putc: "inv s \<Longrightarrow> inv (putc c s) \<and> obs (putc c s) = step c (obs s) \<and> frame s (putc c s)"
begin

lemma put_all:
  "inv s \<Longrightarrow> inv (fold putc t s) \<and> obs (fold putc t s) = fold step t (obs s) \<and> frame s (fold putc t s)"
proof (induction t arbitrary: s)
  case Nil
  then show ?case by (simp add: frame_refl)
next
  case (Cons c t)
  from putc [OF Cons.prems, of c] Cons.IH [of "putc c s"] show ?case
    by (auto intro: frame_trans)
qed

lemma prints_putc: "prints_on inv obs step frame (\<lambda>s. Some (putc c s)) [c]"
  using putc by (simp add: prints_on_def)

lemma prints_nothing: "prints_on inv obs step frame Some []"
  using frame_refl by (simp add: prints_on_def)

lemma prints_bind:
  assumes "prints_on inv obs step frame f t" "prints_on inv obs step frame g u"
  shows "prints_on inv obs step frame (\<lambda>s. Option.bind (f s) g) (t @ u)"
  unfolding prints_on_def
proof (intro allI impI)
  fix s assume "inv s"
  from prints_onD [OF assms(1) this] obtain s1 where
    1: "f s = Some s1" "inv s1" "obs s1 = fold step t (obs s)" "frame s s1" by blast
  from prints_onD [OF assms(2) 1(2)] obtain s2 where
    2: "g s1 = Some s2" "inv s2" "obs s2 = fold step u (obs s1)" "frame s1 s2" by blast
  show "\<exists>s'. Option.bind (f s) g = Some s' \<and> inv s' \<and> obs s' = fold step (t @ u) (obs s) \<and> frame s s'"
    using 1 2 frame_trans [OF 1(4) 2(4)] by simp
qed

lemma prints_steps:
  "list_all2 (prints_on inv obs step frame) fs ts \<Longrightarrow> prints_on inv obs step frame (run_steps fs) (concat ts)"
proof (induction rule: list_all2_induct)
  case Nil
  then show ?case using prints_nothing by (simp add: prints_on_def)
next
  case (Cons f fs t ts)
  then show ?case using prints_bind [of f t "run_steps fs" "concat ts"] by simp
qed

text \<open>A counted loop shows what its bodies show.\<close>

lemma prints_for_range:
  assumes "\<And>i. a \<le> i \<Longrightarrow> i < b \<Longrightarrow> prints_on inv obs step frame (body i) (t i)"
  shows "prints_on inv obs step frame (for_range a b body) (concat (map t [a..<b]))"
  using assms
proof (induction "b - a" arbitrary: a)
  case 0
  have "for_range a b body = Some" using 0 by (auto simp: fun_eq_iff)
  then show ?case using 0 prints_nothing by simp
next
  case (Suc n)
  then have ab: "a < b" by simp
  have rest: "prints_on inv obs step frame (for_range (Suc a) b body) (concat (map t [Suc a..<b]))"
    using Suc.hyps(2) Suc.prems by (intro Suc.hyps(1)) simp_all
  have "for_range a b body = (\<lambda>s. Option.bind (body a s) (for_range (Suc a) b body))"
    using ab by (simp add: fun_eq_iff for_range_step)
  then show ?case using prints_bind [OF Suc.prems [OF order_refl ab] rest] ab by (simp add: upt_conv_Cons)
qed

end

locale text_sink = char_device +
  fixes puts :: "cstring \<Rightarrow> 's \<Rightarrow> 's"
  assumes puts: "inv s \<Longrightarrow>
    inv (puts t s) \<and> obs (puts t s) = fold step (c_text t) (obs s) \<and> frame s (puts t s)"
begin

lemma prints_puts: "prints_on inv obs step frame (\<lambda>s. Some (puts t s)) (c_text t)"
  using puts by (simp add: prints_on_def)

text \<open>Several strings in a row show their concatenation.\<close>

lemma puts_all:
  "inv s \<Longrightarrow> inv (fold puts ts s) \<and>
     obs (fold puts ts s) = fold step (concat (map c_text ts)) (obs s) \<and> frame s (fold puts ts s)"
proof (induction ts arbitrary: s)
  case Nil
  then show ?case by (simp add: frame_refl)
next
  case (Cons t ts)
  from puts [OF Cons.prems, of t] Cons.IH [of "puts t s"] show ?case
    by (auto intro: frame_trans)
qed

end

end
