(* ===== verification/Machine.thy ===== *)
theory Machine
  imports Prelude
begin

text \<open>
  What the C code asks of the processor and of the devices: \<^verbatim>\<open>arch/i386/cpu/io.c\<close>,
  \<^verbatim>\<open>arch/i386/cpu/cpu.c\<close> and the registers that \<^verbatim>\<open>gdt.c\<close>, \<^verbatim>\<open>idt.c\<close> and \<^verbatim>\<open>paging.c\<close> load.

  A device behind a port is not part of the program.  What it answers is the parameter
  \<open>io_device\<close>, a function of the whole history of port accesses and of the port read; the
  history is \<open>io_log\<close>, the newest access first.  Every later record extends \<open>machine\<close>, and
  the operations apply to any extension.
\<close>

datatype io_event = Out u16 u8 | In u16 u8

record machine =
  io_device :: "io_event list \<Rightarrow> u16 \<Rightarrow> u8"
  io_log :: "io_event list"
  reg_if :: bool
  cpu_halted :: bool
  reg_cr0 :: u32
  reg_cr3 :: u32
  reg_gdtr :: "u16 \<times> u32"
  reg_idtr :: "u16 \<times> u32"

section \<open>Port access\<close>

definition outb :: "u16 \<Rightarrow> u8 \<Rightarrow> 'a machine_scheme \<Rightarrow> 'a machine_scheme" where
  "outb port v s = s\<lparr>io_log := Out port v # io_log s\<rparr>"

definition inb :: "u16 \<Rightarrow> 'a machine_scheme \<Rightarrow> u8 \<times> 'a machine_scheme" where
  "inb port s =
     (let v = io_device s (io_log s) port in (v, s\<lparr>io_log := In port v # io_log s\<rparr>))"

definition io_wait :: "'a machine_scheme \<Rightarrow> 'a machine_scheme" where
  "io_wait s = outb 0x80 0 s"

section \<open>Interrupt flag and halt\<close>

definition cpu_enable_interrupts :: "'a machine_scheme \<Rightarrow> 'a machine_scheme" where
  "cpu_enable_interrupts s = s\<lparr>reg_if := True\<rparr>"

definition cpu_disable_interrupts :: "'a machine_scheme \<Rightarrow> 'a machine_scheme" where
  "cpu_disable_interrupts s = s\<lparr>reg_if := False\<rparr>"

text \<open>
  \<open>hlt\<close> stops the processor until an interrupt; \<open>sti\<close> takes effect after the instruction
  that follows it, so no interrupt is taken between the two of the pair.
\<close>

definition cpu_halt :: "'a machine_scheme \<Rightarrow> 'a machine_scheme" where
  "cpu_halt s = s\<lparr>cpu_halted := True\<rparr>"

definition cpu_enable_interrupts_and_halt :: "'a machine_scheme \<Rightarrow> 'a machine_scheme" where
  "cpu_enable_interrupts_and_halt s = s\<lparr>reg_if := True, cpu_halted := True\<rparr>"

section \<open>What a port has been sent\<close>

text \<open>The bytes written to a port, oldest first.\<close>

definition sent_to :: "u16 \<Rightarrow> io_event list \<Rightarrow> u8 list" where
  "sent_to p l = rev (concat (map (\<lambda>e. case e of Out q v \<Rightarrow> if q = p then [v] else [] | In _ _ \<Rightarrow> []) l))"

lemma sent_to_Nil [simp]: "sent_to p [] = []"
  by (simp add: sent_to_def)

lemma sent_to_Out [simp]: "sent_to p (Out q v # l) = sent_to p l @ (if q = p then [v] else [])"
  by (simp add: sent_to_def)

lemma sent_to_In [simp]: "sent_to p (In q v # l) = sent_to p l"
  by (simp add: sent_to_def)

text \<open>The accesses to all ports but some.\<close>

fun event_port :: "io_event \<Rightarrow> u16" where
  "event_port (In p v) = p"
| "event_port (Out p v) = p"

definition other_events :: "u16 set \<Rightarrow> io_event list \<Rightarrow> io_event list" where
  "other_events ps l = filter (\<lambda>e. event_port e \<notin> ps) l"

lemma other_events_simps [simp]:
  "other_events ps [] = []"
  "other_events ps (e # l) = (if event_port e \<in> ps then other_events ps l else e # other_events ps l)"
  "other_events ps (l @ l') = other_events ps l @ other_events ps l'"
  by (simp_all add: other_events_def)

lemma other_events_mono:
  assumes "other_events ps l = other_events ps l'" "ps \<subseteq> qs"
  shows "other_events qs l = other_events qs l'"
proof -
  have "other_events qs x = filter (\<lambda>e. event_port e \<notin> qs) (other_events ps x)" for x
    using assms(2) by (auto simp: other_events_def intro!: filter_cong)
  then show ?thesis using assms(1) by simp
qed

lemma sent_to_other: "p \<notin> ps \<Longrightarrow> sent_to p (other_events ps l) = sent_to p l"
proof (induction l)
  case (Cons e l)
  then show ?case by (cases e) auto
qed simp

lemma io_log_outb [simp]: "io_log (outb p v s) = Out p v # io_log s"
  by (simp add: outb_def)

lemma io_device_outb [simp]: "io_device (outb p v s) = io_device s"
  by (simp add: outb_def)

lemma outb_reg [simp]: "reg_if (outb p v s) = reg_if s" "cpu_halted (outb p v s) = cpu_halted s"
  by (simp_all add: outb_def)

end
