(* ===== verification/Vga.thy ===== *)
theory Vga
  imports Sink Machine
begin

text \<open>
  \<^verbatim>\<open>src/drivers/vga.c\<close>: the text terminal.  Its static variables and the memory-mapped text
  buffer extend the machine.  The buffer is the memory from \<open>VGA_MEMORY\<close> on, one cell per
  16-bit word; the theorems show which cells are written.  The three \<open>size_t\<close> variables are
  natural numbers: the invariant keeps them below 16384, and a cell index is reduced modulo
  16384, which divides \<open>2 ^ 32\<close>.
\<close>

section \<open>State\<close>

definition VGA_WIDTH :: nat where "VGA_WIDTH = 80"

definition VGA_HEIGHT :: nat where "VGA_HEIGHT = 25"

definition TAB_WIDTH :: nat where "TAB_WIDTH = 4"

definition VGA_TEXT_MEMORY_BYTES :: nat where "VGA_TEXT_MEMORY_BYTES = 32768"

definition VGA_TEXT_MEMORY_CELLS :: nat where
  "VGA_TEXT_MEMORY_CELLS = VGA_TEXT_MEMORY_BYTES div 2"

definition VGA_CRTC_INDEX_PORT :: u16 where "VGA_CRTC_INDEX_PORT = 0x3D4"

definition VGA_CRTC_DATA_PORT :: u16 where "VGA_CRTC_DATA_PORT = 0x3D5"

definition VGA_CRTC_START_ADDRESS_HIGH :: u8 where "VGA_CRTC_START_ADDRESS_HIGH = 0x0C"

definition VGA_CRTC_START_ADDRESS_LOW :: u8 where "VGA_CRTC_START_ADDRESS_LOW = 0x0D"

datatype vga_color =
    VGA_COLOR_BLACK | VGA_COLOR_BLUE | VGA_COLOR_GREEN | VGA_COLOR_CYAN
  | VGA_COLOR_RED | VGA_COLOR_MAGENTA | VGA_COLOR_BROWN | VGA_COLOR_LIGHT_GREY
  | VGA_COLOR_DARK_GREY | VGA_COLOR_LIGHT_BLUE | VGA_COLOR_LIGHT_GREEN | VGA_COLOR_LIGHT_CYAN
  | VGA_COLOR_LIGHT_RED | VGA_COLOR_LIGHT_MAGENTA | VGA_COLOR_LIGHT_BROWN | VGA_COLOR_WHITE

fun vga_color_code :: "vga_color \<Rightarrow> nat" where
  "vga_color_code VGA_COLOR_BLACK = 0"
| "vga_color_code VGA_COLOR_BLUE = 1"
| "vga_color_code VGA_COLOR_GREEN = 2"
| "vga_color_code VGA_COLOR_CYAN = 3"
| "vga_color_code VGA_COLOR_RED = 4"
| "vga_color_code VGA_COLOR_MAGENTA = 5"
| "vga_color_code VGA_COLOR_BROWN = 6"
| "vga_color_code VGA_COLOR_LIGHT_GREY = 7"
| "vga_color_code VGA_COLOR_DARK_GREY = 8"
| "vga_color_code VGA_COLOR_LIGHT_BLUE = 9"
| "vga_color_code VGA_COLOR_LIGHT_GREEN = 10"
| "vga_color_code VGA_COLOR_LIGHT_CYAN = 11"
| "vga_color_code VGA_COLOR_LIGHT_RED = 12"
| "vga_color_code VGA_COLOR_LIGHT_MAGENTA = 13"
| "vga_color_code VGA_COLOR_LIGHT_BROWN = 14"
| "vga_color_code VGA_COLOR_WHITE = 15"

record vga = machine +
  terminal_row :: nat
  terminal_column :: nat
  terminal_view_start :: nat
  terminal_color :: u8
  terminal_buffer :: "nat \<Rightarrow> u16"

section \<open>Operations\<close>

definition terminal_wrap_index :: "nat \<Rightarrow> nat" where
  "terminal_wrap_index index = index mod VGA_TEXT_MEMORY_CELLS"

definition terminal_get_buffer_index :: "nat \<Rightarrow> nat \<Rightarrow> 'a vga_scheme \<Rightarrow> nat" where
  "terminal_get_buffer_index row column s =
     terminal_wrap_index (terminal_view_start s + row * VGA_WIDTH + column)"

definition terminal_set_hardware_view_start :: "nat \<Rightarrow> 'a vga_scheme \<Rightarrow> 'a vga_scheme" where
  "terminal_set_hardware_view_start cell_offset s =
     (let address = of_nat cell_offset :: u16;
          s1 = outb VGA_CRTC_INDEX_PORT VGA_CRTC_START_ADDRESS_HIGH s;
          s2 = outb VGA_CRTC_DATA_PORT (ucast (drop_bit 8 address AND 0xFF)) s1;
          s3 = outb VGA_CRTC_INDEX_PORT VGA_CRTC_START_ADDRESS_LOW s2
      in outb VGA_CRTC_DATA_PORT (ucast (address AND 0xFF)) s3)"

definition vga_entry :: "char \<Rightarrow> u8 \<Rightarrow> u16" where
  "vga_entry character color = of_char character OR push_bit 8 (ucast color)"

definition vga_entry_color :: "vga_color \<Rightarrow> vga_color \<Rightarrow> u8" where
  "vga_entry_color foreground background =
     of_nat (vga_color_code foreground) OR push_bit 4 (of_nat (vga_color_code background))"

definition terminal_store :: "nat \<Rightarrow> u16 \<Rightarrow> 'a vga_scheme \<Rightarrow> 'a vga_scheme" where
  "terminal_store index v s = s\<lparr>terminal_buffer := (terminal_buffer s)(index := v)\<rparr>"

definition terminal_clear_row :: "nat \<Rightarrow> 'a vga_scheme \<Rightarrow> 'a vga_scheme" where
  "terminal_clear_row row s =
     fold (\<lambda>x s. terminal_store (terminal_get_buffer_index row x s) (vga_entry CHR '' '' (terminal_color s)) s)
       [0..<VGA_WIDTH] s"

definition terminal_strlen :: "cstring \<Rightarrow> nat" where
  "terminal_strlen str = c_strlen str"

definition terminal_clear :: "'a vga_scheme \<Rightarrow> 'a vga_scheme" where
  "terminal_clear s =
     (let s1 = s\<lparr>terminal_view_start := 0\<rparr>;
          s2 = terminal_set_hardware_view_start (terminal_view_start s1) s1;
          s3 = fold terminal_clear_row [0..<VGA_HEIGHT] s2
      in s3\<lparr>terminal_row := 0, terminal_column := 0\<rparr>)"

definition terminal_initialize :: "'a vga_scheme \<Rightarrow> 'a vga_scheme" where
  "terminal_initialize s =
     terminal_clear (s\<lparr>terminal_row := 0, terminal_column := 0, terminal_view_start := 0,
       terminal_color := vga_entry_color VGA_COLOR_LIGHT_GREY VGA_COLOR_BLACK\<rparr>)"

definition terminal_setcolor :: "u8 \<Rightarrow> 'a vga_scheme \<Rightarrow> 'a vga_scheme" where
  "terminal_setcolor color s = s\<lparr>terminal_color := color\<rparr>"

definition terminal_scroll_up :: "'a vga_scheme \<Rightarrow> 'a vga_scheme" where
  "terminal_scroll_up s =
     (let s1 = s\<lparr>terminal_view_start := terminal_wrap_index (terminal_view_start s + VGA_WIDTH)\<rparr>;
          s2 = terminal_set_hardware_view_start (terminal_view_start s1) s1
      in terminal_clear_row (VGA_HEIGHT - 1) s2)"

definition terminal_newline :: "'a vga_scheme \<Rightarrow> 'a vga_scheme" where
  "terminal_newline s =
     (let s1 = s\<lparr>terminal_column := 0\<rparr> in
      if terminal_row s1 + 1 \<ge> VGA_HEIGHT
      then (terminal_scroll_up s1)\<lparr>terminal_row := VGA_HEIGHT - 1\<rparr>
      else s1\<lparr>terminal_row := terminal_row s1 + 1\<rparr>)"

definition terminal_carriage_return :: "'a vga_scheme \<Rightarrow> 'a vga_scheme" where
  "terminal_carriage_return s = s\<lparr>terminal_column := 0\<rparr>"

definition terminal_backspace :: "'a vga_scheme \<Rightarrow> 'a vga_scheme" where
  "terminal_backspace s =
     (if terminal_column s = 0 \<and> terminal_row s = 0 then s
      else
        let s1 = (if terminal_column s > 0 then s\<lparr>terminal_column := terminal_column s - 1\<rparr>
                  else s\<lparr>terminal_row := terminal_row s - 1, terminal_column := VGA_WIDTH - 1\<rparr>)
        in terminal_store (terminal_get_buffer_index (terminal_row s1) (terminal_column s1) s1)
             (vga_entry CHR '' '' (terminal_color s1)) s1)"

definition terminal_form_feed :: "'a vga_scheme \<Rightarrow> 'a vga_scheme" where
  "terminal_form_feed s = terminal_clear s"

text \<open>
  \<open>terminal_put_glyph\<close> is the part of \<open>terminal_putchar\<close> after the switch, which a space
  reaches; \<open>terminal_tab\<close> calls back with spaces only.
\<close>

definition terminal_put_glyph :: "char \<Rightarrow> 'a vga_scheme \<Rightarrow> 'a vga_scheme" where
  "terminal_put_glyph c s =
     (let index = terminal_get_buffer_index (terminal_row s) (terminal_column s) s;
          s1 = terminal_store index (vga_entry c (terminal_color s)) s;
          s2 = s1\<lparr>terminal_column := terminal_column s1 + 1\<rparr>
      in if terminal_column s2 \<ge> VGA_WIDTH then terminal_newline s2 else s2)"

definition terminal_tab :: "'a vga_scheme \<Rightarrow> 'a vga_scheme" where
  "terminal_tab s =
     (let spaces = TAB_WIDTH - terminal_column s mod TAB_WIDTH
      in (terminal_put_glyph CHR '' '' ^^ spaces) s)"

definition terminal_putchar :: "char \<Rightarrow> 'a vga_scheme \<Rightarrow> 'a vga_scheme" where
  "terminal_putchar c s =
     (if c = CHR 0x0A then terminal_newline s
      else if c = CHR 0x0D then terminal_carriage_return s
      else if c = CHR 0x09 then terminal_tab s
      else if c = CHR 0x08 then terminal_backspace s
      else if c = CHR 0x0C then terminal_form_feed s
      else terminal_put_glyph c s)"

text \<open>The caller of \<open>terminal_write\<close> provides at least \<open>n\<close> readable bytes.\<close>

definition terminal_write :: "cstring \<Rightarrow> nat \<Rightarrow> 'a vga_scheme \<Rightarrow> 'a vga_scheme" where
  "terminal_write data n s = fold (\<lambda>i. terminal_putchar (data ! i)) [0..<n] s"

definition terminal_writestring :: "cstring \<Rightarrow> 'a vga_scheme \<Rightarrow> 'a vga_scheme" where
  "terminal_writestring data s = terminal_write data (terminal_strlen data) s"

section \<open>Abstraction: the visible screen\<close>

text \<open>What the user sees: 25 rows of 80 cells, the cursor and the current color.\<close>

record tscreen =
  ts_cell :: "nat \<Rightarrow> nat \<Rightarrow> u16"
  ts_row :: nat
  ts_column :: nat
  ts_color :: u8

definition on_screen :: "nat \<Rightarrow> nat \<Rightarrow> bool" where
  "on_screen r c \<longleftrightarrow> r < 25 \<and> c < 80"

definition screen :: "'a vga_scheme \<Rightarrow> tscreen" where
  "screen s = \<lparr>
     ts_cell = (\<lambda>r c. if on_screen r c
                then terminal_buffer s ((terminal_view_start s + r * 80 + c) mod 16384) else 0),
     ts_row = terminal_row s,
     ts_column = terminal_column s,
     ts_color = terminal_color s\<rparr>"

text \<open>The display start address the CRT controller was last given: index, high and low byte.\<close>

fun crtc_registers :: "io_event list \<Rightarrow> u8 \<times> u8 \<times> u8" where
  "crtc_registers [] = (0, 0, 0)"
| "crtc_registers (In p v # l) = crtc_registers l"
| "crtc_registers (Out p v # l) =
     (let (index, high, low) = crtc_registers l in
      if p = 0x3D4 then (v, high, low)
      else if p = 0x3D5 \<and> index = 0x0C then (index, v, low)
      else if p = 0x3D5 \<and> index = 0x0D then (index, high, v)
      else (index, high, low))"

definition crtc_start :: "io_event list \<Rightarrow> nat" where
  "crtc_start l = (case crtc_registers l of (index, high, low) \<Rightarrow> 256 * unat high + unat low)"

text \<open>
  The invariant: the cursor is on the screen, the viewport starts inside the text memory, and
  the controller displays from where the driver thinks it does.
\<close>

definition vga_ok :: "'a vga_scheme \<Rightarrow> bool" where
  "vga_ok s \<longleftrightarrow>
     terminal_row s < 25 \<and> terminal_column s < 80 \<and> terminal_view_start s < 16384 \<and>
     crtc_start (io_log s) = terminal_view_start s"

text \<open>
  What no terminal operation changes: the processor, the extension of the record, memory
  outside the 16384 text cells, and the accesses to any other port.
\<close>

definition vga_frame :: "'a vga_scheme \<Rightarrow> 'a vga_scheme \<Rightarrow> bool" where
  "vga_frame s s' \<longleftrightarrow>
     io_device s' = io_device s \<and> reg_if s' = reg_if s \<and> cpu_halted s' = cpu_halted s \<and>
     reg_cr0 s' = reg_cr0 s \<and> reg_cr3 s' = reg_cr3 s \<and> reg_gdtr s' = reg_gdtr s \<and>
     reg_idtr s' = reg_idtr s \<and> vga.more s' = vga.more s \<and>
     (\<forall>i. 16384 \<le> i \<longrightarrow> terminal_buffer s' i = terminal_buffer s i) \<and>
     other_events {0x3D4, 0x3D5} (io_log s') = other_events {0x3D4, 0x3D5} (io_log s)"

text \<open>The terminal as a specification over what is seen.\<close>

definition ts_put :: "nat \<Rightarrow> nat \<Rightarrow> char \<Rightarrow> tscreen \<Rightarrow> tscreen" where
  "ts_put r c ch t =
     t\<lparr>ts_cell := (ts_cell t)(r := (ts_cell t r)(c := vga_entry ch (ts_color t)))\<rparr>"

definition ts_blank_row :: "tscreen \<Rightarrow> nat \<Rightarrow> u16" where
  "ts_blank_row t = (\<lambda>c. if c < 80 then vga_entry CHR '' '' (ts_color t) else 0)"

definition ts_clear :: "tscreen \<Rightarrow> tscreen" where
  "ts_clear t = t\<lparr>ts_cell := (\<lambda>r. if r < 25 then ts_blank_row t else (\<lambda>_. 0)), ts_row := 0, ts_column := 0\<rparr>"

definition ts_newline :: "tscreen \<Rightarrow> tscreen" where
  "ts_newline t =
     (if ts_row t = 24
      then t\<lparr>ts_cell := (\<lambda>r. if r = 24 then ts_blank_row t else ts_cell t (r + 1)), ts_column := 0\<rparr>
      else t\<lparr>ts_row := ts_row t + 1, ts_column := 0\<rparr>)"

definition ts_glyph :: "char \<Rightarrow> tscreen \<Rightarrow> tscreen" where
  "ts_glyph ch t =
     (let t1 = ts_put (ts_row t) (ts_column t) ch t in
      if ts_column t = 79 then ts_newline t1 else t1\<lparr>ts_column := ts_column t + 1\<rparr>)"

definition ts_backspace :: "tscreen \<Rightarrow> tscreen" where
  "ts_backspace t =
     (if ts_column t > 0 then
        ts_put (ts_row t) (ts_column t - 1) CHR '' '' (t\<lparr>ts_column := ts_column t - 1\<rparr>)
      else if ts_row t > 0 then
        ts_put (ts_row t - 1) 79 CHR '' '' (t\<lparr>ts_row := ts_row t - 1, ts_column := 79\<rparr>)
      else t)"

definition ts_putchar :: "char \<Rightarrow> tscreen \<Rightarrow> tscreen" where
  "ts_putchar ch t =
     (if ch = CHR 0x0A then ts_newline t
      else if ch = CHR 0x0D then t\<lparr>ts_column := 0\<rparr>
      else if ch = CHR 0x09 then (ts_glyph CHR '' '' ^^ (4 - ts_column t mod 4)) t
      else if ch = CHR 0x08 then ts_backspace t
      else if ch = CHR 0x0C then ts_clear t
      else ts_glyph ch t)"

section \<open>The operations implement the specification\<close>

text \<open>The cells of the viewport are distinct cells of the text memory.\<close>

lemma view_cells_distinct:
  assumes "on_screen r c" "on_screen r' c'"
  shows "(v + r * 80 + c) mod 16384 = (v + r' * 80 + c') mod 16384 \<longleftrightarrow> r = r' \<and> c = c'"
proof
  let ?k = "r * 80 + c" and ?k' = "r' * 80 + c'"
  have k: "?k < 16384" "?k' < 16384" using assms by (auto simp: on_screen_def)
  assume "(v + r * 80 + c) mod 16384 = (v + r' * 80 + c') mod 16384"
  then have "(v + ?k) mod 16384 = (v + ?k') mod 16384" by (simp add: add.assoc)
  then obtain q q' where "v + ?k + 16384 * q = v + ?k' + 16384 * q'" unfolding nat_mod_eq_iff by blast
  then have "?k + 16384 * q = ?k' + 16384 * q'" by simp
  then have "(?k + 16384 * q) mod 16384 = (?k' + 16384 * q') mod 16384" by (rule arg_cong)
  then have eq: "?k = ?k'" using k by simp
  have "c = ?k mod 80" "c' = ?k' mod 80" "r = ?k div 80" "r' = ?k' div 80"
    using assms by (auto simp: on_screen_def)
  then show "r = r' \<and> c = c'" using eq by metis
qed simp

lemma get_buffer_index_eq:
  "terminal_get_buffer_index r c s = (terminal_view_start s + r * 80 + c) mod 16384"
  by (simp add: terminal_get_buffer_index_def terminal_wrap_index_def VGA_TEXT_MEMORY_CELLS_def
      VGA_TEXT_MEMORY_BYTES_def VGA_WIDTH_def)

definition vga_step :: "'a vga_scheme \<Rightarrow> 'a vga_scheme \<Rightarrow> tscreen \<Rightarrow> bool" where
  "vga_step s s' t \<longleftrightarrow> vga_ok s' \<and> vga_frame s s' \<and> screen s' = t"

lemma vga_frame_refl [simp]: "vga_frame s s"
  by (simp add: vga_frame_def)

lemma vga_frame_trans: "vga_frame a b \<Longrightarrow> vga_frame b c \<Longrightarrow> vga_frame a c"
  by (simp add: vga_frame_def)

lemma vga_step_trans: "vga_step a b t \<Longrightarrow> vga_step b c u \<Longrightarrow> vga_step a c u"
  by (auto simp: vga_step_def intro: vga_frame_trans)

lemma screen_bounds: "vga_ok s \<Longrightarrow> ts_row (screen s) < 25 \<and> ts_column (screen s) < 80"
  by (simp add: vga_ok_def screen_def)

lemma store_step:
  assumes "vga_ok s" "on_screen r c" "v = vga_entry ch (terminal_color s)"
  shows "vga_step s (terminal_store (terminal_get_buffer_index r c s) v s) (ts_put r c ch (screen s))"
  unfolding vga_step_def
proof (intro conjI)
  show "screen (terminal_store (terminal_get_buffer_index r c s) v s) = ts_put r c ch (screen s)"
    using assms view_cells_distinct [of _ _ r c "terminal_view_start s"]
    by (auto simp: screen_def ts_put_def terminal_store_def get_buffer_index_eq fun_eq_iff)
qed (use assms in \<open>auto simp: vga_ok_def vga_frame_def terminal_store_def get_buffer_index_eq\<close>)

lemma store_fields [simp]:
  "terminal_row (terminal_store i v s) = terminal_row s"
  "terminal_column (terminal_store i v s) = terminal_column s"
  "terminal_view_start (terminal_store i v s) = terminal_view_start s"
  "terminal_color (terminal_store i v s) = terminal_color s"
  by (simp_all add: terminal_store_def)

text \<open>Clearing a row cell by cell.\<close>

definition ts_blanked :: "nat \<Rightarrow> nat \<Rightarrow> tscreen \<Rightarrow> tscreen" where
  "ts_blanked r n t =
     t\<lparr>ts_cell := (ts_cell t)(r := (\<lambda>c. if c < n then vga_entry CHR '' '' (ts_color t) else ts_cell t r c))\<rparr>"

lemma ts_blanked_color [simp]: "ts_color (ts_blanked r n t) = ts_color t"
  by (simp add: ts_blanked_def)

lemma ts_blanked_0: "ts_blanked r 0 t = t"
  by (simp add: ts_blanked_def)

lemma ts_blanked_Suc: "ts_put r n CHR '' '' (ts_blanked r n t) = ts_blanked r (Suc n) t"
  by (auto simp: ts_blanked_def ts_put_def fun_eq_iff less_Suc_eq)

lemma ts_color_screen [simp]: "ts_color (screen s) = terminal_color s"
  by (simp add: screen_def)

lemma clear_cells:
  assumes "vga_ok s" "r < 25" "n \<le> 80"
  shows "vga_step s
    (fold (\<lambda>x s. terminal_store (terminal_get_buffer_index r x s) (vga_entry CHR '' '' (terminal_color s)) s) [0..<n] s)
    (ts_blanked r n (screen s))"
  using assms(3)
proof (induction n)
  case 0
  then show ?case using assms(1) by (simp add: vga_step_def ts_blanked_0)
next
  case (Suc n)
  let ?f = "\<lambda>x s. terminal_store (terminal_get_buffer_index r x s) (vga_entry CHR '' '' (terminal_color s)) s"
  let ?s = "fold ?f [0..<n] s"
  have IH: "vga_step s ?s (ts_blanked r n (screen s))"
    by (rule Suc.IH) (use Suc.prems in simp)
  then have ok: "vga_ok ?s" and scr: "screen ?s = ts_blanked r n (screen s)"
    by (simp_all add: vga_step_def)
  have on: "on_screen r n" using assms(2) Suc.prems by (simp add: on_screen_def)
  show ?case
    using vga_step_trans [OF IH store_step [OF ok on refl, of "CHR '' ''"]]
    unfolding scr ts_blanked_Suc by simp
qed

lemma ts_cell_off_screen: "\<not> on_screen r c \<Longrightarrow> ts_cell (screen s) r c = 0"
  by (simp add: screen_def)

lemma blanked_row: "r < 25 \<Longrightarrow> ts_blanked r 80 (screen s) =
    (screen s)\<lparr>ts_cell := (ts_cell (screen s))(r := ts_blank_row (screen s))\<rparr>"
  by (auto simp: ts_blanked_def ts_blank_row_def fun_eq_iff ts_cell_off_screen on_screen_def)

lemma clear_row_step:
  assumes "vga_ok s" "r < 25"
  shows "vga_step s (terminal_clear_row r s) (ts_blanked r 80 (screen s))"
  using clear_cells [OF assms, of 80] by (simp add: terminal_clear_row_def VGA_WIDTH_def)

text \<open>Moving the viewport.\<close>

lemma crtc_bytes:
  assumes "v < 16384"
  shows "256 * unat (ucast (drop_bit 8 (of_nat v :: u16) AND 0xFF) :: u8) + unat (ucast ((of_nat v :: u16) AND 0xFF) :: u8) = v"
proof -
  have ff: "w AND 0xFF = take_bit 8 w" for w :: u16
    by (simp add: take_bit_eq_mask mask_eq_exp_minus_1)
  have v: "unat (of_nat v :: u16) = v" using assms by (simp add: unat_of_nat)
  have c: "unat (ucast (take_bit 8 w) :: u8) = unat w mod 256" for w :: u16
    by (simp add: unsigned_ucast_eq unsigned_take_bit_eq) (simp add: take_bit_eq_mod)
  have "unat (drop_bit 8 (of_nat v :: u16)) = v div 256" using v by (simp add: unat_drop_bit_div)
  then show ?thesis unfolding ff c using v assms by simp
qed

definition scrolled :: "nat \<Rightarrow> 'a vga_scheme \<Rightarrow> 'a vga_scheme" where
  "scrolled v s = terminal_set_hardware_view_start v (s\<lparr>terminal_view_start := v\<rparr>)"

lemma set_view_start:
  assumes "v < 16384" "terminal_row s < 25" "terminal_column s < 80"
  shows "vga_ok (scrolled v s)" and "vga_frame s (scrolled v s)"
    and "screen (scrolled v s) = screen (s\<lparr>terminal_view_start := v\<rparr>)"
proof -
  let ?a = "ucast (drop_bit 8 (of_nat v :: u16) AND 0xFF) :: u8"
  let ?b = "ucast ((of_nat v :: u16) AND 0xFF) :: u8"
  have log: "io_log (scrolled v s) =
      Out 0x3D5 ?b # Out 0x3D4 0x0D # Out 0x3D5 ?a # Out 0x3D4 0x0C # io_log s"
    by (simp add: scrolled_def terminal_set_hardware_view_start_def Let_def VGA_CRTC_INDEX_PORT_def
        VGA_CRTC_DATA_PORT_def VGA_CRTC_START_ADDRESS_HIGH_def VGA_CRTC_START_ADDRESS_LOW_def)
  have "crtc_start (io_log (scrolled v s)) = 256 * unat ?a + unat ?b"
    unfolding log crtc_start_def by (simp add: case_prod_beta Let_def)
  then have "crtc_start (io_log (scrolled v s)) = v" using crtc_bytes [OF assms(1)] by simp
  then show "vga_ok (scrolled v s)" using assms
    by (simp add: vga_ok_def) (simp add: scrolled_def terminal_set_hardware_view_start_def Let_def outb_def)
  show "vga_frame s (scrolled v s)"
    unfolding vga_frame_def log
    by (auto simp: scrolled_def terminal_set_hardware_view_start_def Let_def outb_def)
  show "screen (scrolled v s) = screen (s\<lparr>terminal_view_start := v\<rparr>)"
    by (simp add: screen_def scrolled_def terminal_set_hardware_view_start_def Let_def outb_def cong: if_cong)
qed

lemma scroll_step:
  assumes "vga_ok s" "terminal_row s = 24"
  shows "vga_step s (terminal_scroll_up s)
    ((screen s)\<lparr>ts_cell := (\<lambda>r. if r = 24 then ts_blank_row (screen s) else ts_cell (screen s) (r + 1))\<rparr>)"
proof -
  let ?v = "(terminal_view_start s + 80) mod 16384"
  let ?s = "scrolled ?v s"
  have eq: "terminal_scroll_up s = terminal_clear_row 24 ?s"
    by (simp add: terminal_scroll_up_def scrolled_def terminal_wrap_index_def VGA_TEXT_MEMORY_CELLS_def
        VGA_TEXT_MEMORY_BYTES_def VGA_WIDTH_def VGA_HEIGHT_def Let_def)
  have b: "?v < 16384" "terminal_row s < 25" "terminal_column s < 80" using assms by (simp_all add: vga_ok_def)
  note v = set_view_start [OF b]
  have step: "vga_step s ?s (screen ?s)" using v by (simp add: vga_step_def)
  have shift: "(?v + r * 80 + c) mod 16384 = (terminal_view_start s + (r + 1) * 80 + c) mod 16384" for r c
    using mod_add_left_eq [of "terminal_view_start s + 80" 16384 "r * 80 + c"] by (simp add: algebra_simps)
  have "(screen ?s)\<lparr>ts_cell := (ts_cell (screen ?s))(24 := ts_blank_row (screen ?s))\<rparr> =
      (screen s)\<lparr>ts_cell := (\<lambda>r. if r = 24 then ts_blank_row (screen s) else ts_cell (screen s) (r + 1))\<rparr>"
    unfolding v(3) using shift
    by (auto simp: screen_def fun_eq_iff on_screen_def ts_blank_row_def algebra_simps)
  then show ?thesis
    using vga_step_trans [OF step clear_row_step [OF v(1), of 24]] blanked_row [of 24 ?s] eq by simp
qed

lemma screen_cursor [simp]:
  "screen (s\<lparr>terminal_row := r\<rparr>) = (screen s)\<lparr>ts_row := r\<rparr>"
  "screen (s\<lparr>terminal_column := c\<rparr>) = (screen s)\<lparr>ts_column := c\<rparr>"
  "ts_row (screen s) = terminal_row s"
  "ts_column (screen s) = terminal_column s"
  by (simp_all add: screen_def cong: if_cong)

lemma ts_blank_row_cursor [simp]:
  "ts_blank_row (t\<lparr>ts_row := r\<rparr>) = ts_blank_row t"
  "ts_blank_row (t\<lparr>ts_column := c\<rparr>) = ts_blank_row t"
  by (simp_all add: ts_blank_row_def cong: if_cong)

lemma ts_newline_column [simp]: "ts_newline (t\<lparr>ts_column := c\<rparr>) = ts_newline t"
  by (simp add: ts_newline_def cong: if_cong)

lemma cursor_step:
  assumes "vga_ok s" "r < 25" "c < 80"
  shows "vga_step s (s\<lparr>terminal_row := r, terminal_column := c\<rparr>) ((screen s)\<lparr>ts_row := r, ts_column := c\<rparr>)"
  using assms by (simp add: vga_step_def vga_ok_def vga_frame_def)

lemma column_step:
  assumes "vga_ok s" "c < 80"
  shows "vga_step s (s\<lparr>terminal_column := c\<rparr>) ((screen s)\<lparr>ts_column := c\<rparr>)"
  using assms by (simp add: vga_step_def vga_ok_def vga_frame_def)

lemma newline_step:
  assumes ok: "vga_ok (s\<lparr>terminal_column := 0\<rparr>)"
  shows "vga_step (s\<lparr>terminal_column := 0\<rparr>) (terminal_newline s) (ts_newline (screen s))"
proof (cases "terminal_row s = 24")
  case True
  let ?s = "s\<lparr>terminal_column := 0\<rparr>"
  note scroll = scroll_step [OF ok, simplified, OF True]
  let ?u = "terminal_scroll_up ?s"
  have u: "vga_ok ?u" "terminal_column ?u = 0"
    using scroll unfolding vga_step_def by (auto dest!: arg_cong [where f = ts_column])
  have eq: "terminal_newline s = ?u\<lparr>terminal_row := 24, terminal_column := 0\<rparr>"
    using True u(2) by (simp add: terminal_newline_def VGA_HEIGHT_def Let_def)
  have row: "ts_row (screen ?u) = 24"
    using scroll True unfolding vga_step_def by (auto dest!: arg_cong [where f = ts_row])
  have "ts_newline (screen s) = (screen ?u)\<lparr>ts_row := 24, ts_column := 0\<rparr>"
    using scroll True unfolding vga_step_def
    by (intro tscreen.equality) (auto simp: ts_newline_def cong: if_cong)
  then show ?thesis
    using vga_step_trans [OF scroll cursor_step [OF u(1), of 24 0]] eq by simp
next
  case False
  then have "terminal_row s < 24" using ok by (simp add: vga_ok_def)
  moreover have "terminal_newline s = s\<lparr>terminal_row := terminal_row s + 1, terminal_column := 0\<rparr>"
    using calculation by (simp add: terminal_newline_def VGA_HEIGHT_def Let_def)
  ultimately show ?thesis using False cursor_step [OF ok, of "terminal_row s + 1" 0]
    by (simp add: ts_newline_def)
qed

lemma vga_ok_column: "vga_ok s \<Longrightarrow> vga_ok (s\<lparr>terminal_column := 0\<rparr>)"
  by (simp add: vga_ok_def)

lemma vga_frame_column: "vga_frame (s\<lparr>terminal_column := c\<rparr>) t = vga_frame s t"
  by (simp add: vga_frame_def)

lemma vga_step_column: "vga_step (s\<lparr>terminal_column := c\<rparr>) t u = vga_step s t u"
  by (simp add: vga_step_def vga_frame_column)

lemma newline_ok_step: "vga_ok s \<Longrightarrow> vga_step s (terminal_newline s) (ts_newline (screen s))"
  using newline_step [OF vga_ok_column] by (simp add: vga_step_column)

lemma glyph_step:
  assumes ok: "vga_ok s"
  shows "vga_step s (terminal_put_glyph ch s) (ts_glyph ch (screen s))"
proof -
  let ?r = "terminal_row s" and ?c = "terminal_column s"
  let ?s = "terminal_store (terminal_get_buffer_index ?r ?c s) (vga_entry ch (terminal_color s)) s"
  have on: "on_screen ?r ?c" using ok by (simp add: vga_ok_def on_screen_def)
  note put = store_step [OF ok on refl, of ch]
  then have ok1: "vga_ok ?s" and scr: "screen ?s = ts_put ?r ?c ch (screen s)"
    by (simp_all add: vga_step_def)
  show ?thesis
  proof (cases "?c = 79")
    case True
    have "terminal_put_glyph ch s = terminal_newline (?s\<lparr>terminal_column := 80\<rparr>)"
      using True by (simp add: terminal_put_glyph_def VGA_WIDTH_def Let_def)
    moreover have "vga_step ?s (terminal_newline (?s\<lparr>terminal_column := 80\<rparr>)) (ts_newline (screen ?s))"
      using newline_step [of "?s\<lparr>terminal_column := 80\<rparr>"] vga_ok_column [OF ok1]
      by (simp add: vga_step_column)
    ultimately show ?thesis
      using vga_step_trans [OF put] True scr by (simp add: ts_glyph_def Let_def)
  next
    case False
    then have "?c < 79" using ok by (simp add: vga_ok_def)
    then show ?thesis
      using vga_step_trans [OF put column_step [OF ok1, of "Suc ?c"]] scr
      by (simp add: terminal_put_glyph_def ts_glyph_def VGA_WIDTH_def Let_def)
  qed
qed

lemma iterate_step:
  assumes "\<And>s. vga_ok s \<Longrightarrow> vga_step s (f s) (g (screen s))" "vga_ok s"
  shows "vga_step s ((f ^^ n) s) ((g ^^ n) (screen s))"
proof (induction n)
  case 0
  then show ?case using assms(2) by (simp add: vga_step_def)
next
  case (Suc n)
  then have "vga_ok ((f ^^ n) s)" "screen ((f ^^ n) s) = (g ^^ n) (screen s)" by (simp_all add: vga_step_def)
  with vga_step_trans [OF Suc assms(1)] show ?case by simp
qed

lemma tab_step:
  "vga_ok s \<Longrightarrow> vga_step s (terminal_tab s) ((ts_glyph CHR '' '' ^^ (4 - ts_column (screen s) mod 4)) (screen s))"
  using iterate_step [OF glyph_step] by (simp add: terminal_tab_def TAB_WIDTH_def)

lemma backspace_step:
  assumes ok: "vga_ok s"
  shows "vga_step s (terminal_backspace s) (ts_backspace (screen s))"
proof (cases "terminal_column s = 0 \<and> terminal_row s = 0")
  case True
  then show ?thesis using ok by (simp add: terminal_backspace_def ts_backspace_def vga_step_def)
next
  case False
  let ?s = "if terminal_column s > 0 then s\<lparr>terminal_column := terminal_column s - 1\<rparr>
            else s\<lparr>terminal_row := terminal_row s - 1, terminal_column := 79\<rparr>"
  let ?t = "if terminal_column s > 0 then (screen s)\<lparr>ts_column := terminal_column s - 1\<rparr>
            else (screen s)\<lparr>ts_row := terminal_row s - 1, ts_column := 79\<rparr>"
  have b: "terminal_row s < 25" "terminal_column s < 80" using ok by (simp_all add: vga_ok_def)
  have step: "vga_step s ?s ?t"
    using column_step [OF ok, of "terminal_column s - 1"] cursor_step [OF ok, of "terminal_row s - 1" 79] b
    by simp
  then have ok1: "vga_ok ?s" and scr: "screen ?s = ?t" by (simp_all only: vga_step_def)
  have on: "on_screen (terminal_row ?s) (terminal_column ?s)"
    using ok1 by (simp only: vga_ok_def on_screen_def)
  note put = vga_step_trans [OF step store_step [OF ok1 on refl, of "CHR '' ''"]]
  have "terminal_backspace s = terminal_store (terminal_get_buffer_index (terminal_row ?s) (terminal_column ?s) ?s)
      (vga_entry CHR '' '' (terminal_color ?s)) ?s"
    using False by (auto simp: terminal_backspace_def VGA_WIDTH_def Let_def)
  moreover have "ts_backspace (screen s) = ts_put (terminal_row ?s) (terminal_column ?s) CHR '' '' (screen ?s)"
    unfolding scr using False by (auto simp: ts_backspace_def)
  ultimately show ?thesis using put by (simp only:)
qed

lemma clear_rows_step:
  assumes "vga_ok s" "n \<le> 25"
  shows "vga_step s (fold terminal_clear_row [0..<n] s)
    ((screen s)\<lparr>ts_cell := (\<lambda>r. if r < n then ts_blank_row (screen s) else ts_cell (screen s) r)\<rparr>)"
  using assms(2)
proof (induction n)
  case 0
  then show ?case using assms(1) by (simp add: vga_step_def)
next
  case (Suc n)
  let ?s = "fold terminal_clear_row [0..<n] s"
  have IH: "vga_step s ?s ((screen s)\<lparr>ts_cell := (\<lambda>r. if r < n then ts_blank_row (screen s) else ts_cell (screen s) r)\<rparr>)"
    by (rule Suc.IH) (use Suc.prems in simp)
  then have ok: "vga_ok ?s" and scr: "screen ?s = (screen s)\<lparr>ts_cell := (\<lambda>r. if r < n then ts_blank_row (screen s) else ts_cell (screen s) r)\<rparr>"
    by (simp_all add: vga_step_def)
  have n: "n < 25" using Suc.prems by simp
  have "ts_blanked n 80 (screen ?s) =
      (screen s)\<lparr>ts_cell := (\<lambda>r. if r < Suc n then ts_blank_row (screen s) else ts_cell (screen s) r)\<rparr>"
    unfolding blanked_row [OF n] unfolding scr
    by (auto simp: fun_eq_iff less_Suc_eq ts_blank_row_def)
  then show ?case using vga_step_trans [OF IH clear_row_step [OF ok n]] by simp
qed

lemma clear_step:
  assumes "terminal_row s < 25" "terminal_column s < 80"
  shows "vga_step s (terminal_clear s) (ts_clear (screen s))"
proof -
  have z: "(0 :: nat) < 16384" by simp
  note v = set_view_start [OF z assms]
  let ?s = "scrolled 0 s"
  have step: "vga_step s ?s (screen ?s)" using v by (simp add: vga_step_def)
  note rows = vga_step_trans [OF step clear_rows_step [OF v(1) order_refl]]
  let ?u = "fold terminal_clear_row [0..<25] ?s"
  have u: "vga_ok ?u" using rows by (simp add: vga_step_def)
  have eq: "terminal_clear s = ?u\<lparr>terminal_row := 0, terminal_column := 0\<rparr>"
    by (simp add: terminal_clear_def scrolled_def VGA_HEIGHT_def Let_def)
  have "(screen ?u)\<lparr>ts_row := 0, ts_column := 0\<rparr> = ts_clear (screen s)"
    using rows v(3) by (auto simp: vga_step_def ts_clear_def ts_blank_row_def fun_eq_iff screen_def on_screen_def)
  then show ?thesis
    using vga_step_trans [OF rows cursor_step [OF u, of 0 0]] eq by simp
qed

lemma putchar_step:
  assumes "vga_ok s"
  shows "vga_step s (terminal_putchar c s) (ts_putchar c (screen s))"
proof -
  have b: "terminal_row s < 25" "terminal_column s < 80" using assms by (simp_all add: vga_ok_def)
  have cr: "vga_step s (terminal_carriage_return s) ((screen s)\<lparr>ts_column := 0\<rparr>)"
    using column_step [OF assms, of 0] by (simp add: terminal_carriage_return_def)
  show ?thesis
    unfolding terminal_putchar_def ts_putchar_def terminal_form_feed_def
    using newline_ok_step [OF assms] cr tab_step [OF assms] backspace_step [OF assms]
      clear_step [OF b] glyph_step [OF assms] by simp
qed

lemma initialize_step:
  "vga_ok (terminal_initialize s) \<and> vga_frame s (terminal_initialize s) \<and>
   screen (terminal_initialize s) = ts_clear \<lparr>ts_cell = \<lambda>_ _. 0, ts_row = 0, ts_column = 0, ts_color = 7\<rparr>"
proof -
  let ?s = "s\<lparr>terminal_row := 0, terminal_column := 0, terminal_view_start := 0,
       terminal_color := vga_entry_color VGA_COLOR_LIGHT_GREY VGA_COLOR_BLACK\<rparr>"
  have c: "vga_entry_color VGA_COLOR_LIGHT_GREY VGA_COLOR_BLACK = 7" by (simp add: vga_entry_color_def)
  have "vga_step ?s (terminal_clear ?s) (ts_clear (screen ?s))" by (rule clear_step) simp_all
  moreover have "vga_frame s t \<longleftrightarrow> vga_frame ?s t" for t by (simp add: vga_frame_def)
  moreover have "ts_clear (screen ?s) = ts_clear \<lparr>ts_cell = \<lambda>_ _. 0, ts_row = 0, ts_column = 0, ts_color = 7\<rparr>"
    unfolding c by (simp add: ts_clear_def screen_def ts_blank_row_def cong: if_cong)
  ultimately show ?thesis by (simp add: vga_step_def terminal_initialize_def)
qed

section \<open>The terminal as a text sink\<close>

lemma write_eq_fold: "n \<le> length data \<Longrightarrow> terminal_write data n s = fold terminal_putchar (take n data) s"
proof (induction n)
  case 0
  then show ?case by (simp add: terminal_write_def)
next
  case (Suc n)
  then have "terminal_write data n s = fold terminal_putchar (take n data) s" "n < length data" by simp_all
  then show ?case by (simp add: terminal_write_def take_Suc_conv_app_nth)
qed

lemma writestring_eq_fold: "terminal_writestring t s = fold terminal_putchar (c_text t) s"
  using write_eq_fold [OF c_strlen_le] by (simp add: terminal_writestring_def terminal_strlen_def take_c_strlen)

interpretation terminal: char_device vga_ok screen ts_putchar vga_frame terminal_putchar
proof
  fix a b c :: "'a vga_scheme" show "vga_frame a b \<Longrightarrow> vga_frame b c \<Longrightarrow> vga_frame a c" by (rule vga_frame_trans)
qed (use putchar_step in \<open>auto simp: vga_step_def\<close>)

interpretation terminal: text_sink vga_ok screen ts_putchar vga_frame terminal_putchar terminal_writestring
  by unfold_locales (use terminal.put_all in \<open>simp_all add: writestring_eq_fold\<close>)

section \<open>Properties\<close>

definition blank_vga :: vga where
  "blank_vga = \<lparr>io_device = (\<lambda>_ _. 0), io_log = [], reg_if = False, cpu_halted = False, reg_cr0 = 0,
     reg_cr3 = 0, reg_gdtr = (0, 0), reg_idtr = (0, 0), terminal_row = 24, terminal_column = 79,
     terminal_view_start = 0, terminal_color = 7, terminal_buffer = (\<lambda>_. 0)\<rparr>"

lemma blank_vga_ok: "vga_ok blank_vga"
  by (simp add: vga_ok_def blank_vga_def crtc_start_def)

text \<open>C19. The terminal, which scrolls by moving a window over circular text memory, implements a plain
  25 by 80 screen: every character - printing, newline with scrolling, carriage return, tab,
  backspace across line starts, form feed - changes what is visible exactly as the screen
  specification says.  The cursor stays on the screen, the CRT controller always displays from
  the driver's window, no memory outside the text cells and no other device is touched.\<close>

theorem terminal_implements_screen:
  assumes "vga_ok s"
  shows "screen (terminal_putchar c s) = ts_putchar c (screen s) \<and> vga_ok (terminal_putchar c s) \<and>
     vga_frame s (terminal_putchar c s)"
  using putchar_step [OF assms, of c] by (simp add: vga_step_def)

lemma terminal_implements_screen_witness:
  "ts_row (screen (terminal_putchar CHR 0x0A blank_vga)) = 24 \<and>
   ts_column (screen (terminal_putchar CHR 0x0A blank_vga)) = 0"
  using terminal_implements_screen [OF blank_vga_ok, of "CHR 0x0A"]
  by (simp add: ts_putchar_def ts_newline_def screen_def) (simp add: blank_vga_def)

text \<open>Initialization brings the terminal into its invariant from any state at all: the visible
  screen is blank in light grey on black with the cursor at the top left, and nothing but the
  terminal and its controller is touched.\<close>

theorem terminal_initialize_blank:
  "vga_ok (terminal_initialize s) \<and> vga_frame s (terminal_initialize s) \<and>
   ts_row (screen (terminal_initialize s)) = 0 \<and> ts_column (screen (terminal_initialize s)) = 0 \<and>
   (if on_screen r c then ts_cell (screen (terminal_initialize s)) r c = 0x0720
    else ts_cell (screen (terminal_initialize s)) r c = 0)"
  using initialize_step [of s]
  by (auto simp: ts_clear_def ts_blank_row_def on_screen_def vga_entry_def)

end
