(* ===== verification/Serial.thy ===== *)
theory Serial
  imports Vga
begin

text \<open>
  \<^verbatim>\<open>src/drivers/serial.c\<close>: polled output to COM1, and \<^verbatim>\<open>src/kernel/console.c\<close>, whose one
  variable lies between the terminal and the serial port in the machine's record.  The UART
  behind the ports is the parameter \<open>io_device\<close>: the theorems first assume nothing of it, then
  (\<open>uart_ready\<close>) that it always reports an empty transmitter.
\<close>

section \<open>State\<close>

record console = vga +
  console_initialized :: bool

record serial = console +
  serial_initialized :: bool

definition SERIAL_PORT_COM1 :: u16 where "SERIAL_PORT_COM1 = 0x3F8"

definition SERIAL_TRANSMIT_TIMEOUT :: u32 where "SERIAL_TRANSMIT_TIMEOUT = 100000"

section \<open>The console\<close>

definition console_initialize :: "'a console_scheme \<Rightarrow> 'a console_scheme" where
  "console_initialize s = (terminal_initialize s)\<lparr>console_initialized := True\<rparr>"

definition console_is_initialized :: "'a console_scheme \<Rightarrow> bool" where
  "console_is_initialized s = console_initialized s"

definition console_putchar :: "char \<Rightarrow> 'a console_scheme \<Rightarrow> 'a console_scheme" where
  "console_putchar character s =
     (if \<not> console_initialized s then s else terminal_putchar character s)"

text \<open>A string argument is \<open>None\<close> for the NULL pointer.\<close>

definition console_writestring :: "cstring option \<Rightarrow> 'a console_scheme \<Rightarrow> 'a console_scheme" where
  "console_writestring text s =
     (if \<not> console_initialized s then s
      else case text of None \<Rightarrow> s | Some t \<Rightarrow> terminal_writestring t s)"

definition console_clear :: "'a console_scheme \<Rightarrow> 'a console_scheme" where
  "console_clear s = (if \<not> console_initialized s then s else terminal_clear s)"

section \<open>The serial port\<close>

definition serial_strlen :: "cstring \<Rightarrow> nat" where
  "serial_strlen str = c_strlen str"

definition serial_can_transmit :: "'a serial_scheme \<Rightarrow> bool \<times> 'a serial_scheme" where
  "serial_can_transmit s =
     (let (v, s1) = inb (SERIAL_PORT_COM1 + 5) s in (v AND 0x20 \<noteq> 0, s1))"

function serial_wait_loop :: "u32 \<Rightarrow> 'a serial_scheme \<Rightarrow> bool \<times> 'a serial_scheme" where
  "serial_wait_loop timeout s =
     (let (ready, s1) = serial_can_transmit s in
      if ready then (True, s1)
      else if timeout = 0 then (False, s1)
      else serial_wait_loop (timeout - 1) s1)"
  by pat_completeness auto
termination
  by (relation "measure (\<lambda>(timeout, s). unat timeout)") (auto simp: unat_pred_word unat_gt_0)

declare serial_wait_loop.simps [simp del]

definition serial_wait_can_transmit :: "'a serial_scheme \<Rightarrow> bool \<times> 'a serial_scheme" where
  "serial_wait_can_transmit s = serial_wait_loop SERIAL_TRANSMIT_TIMEOUT s"

definition serial_initialize :: "'a serial_scheme \<Rightarrow> bool \<times> 'a serial_scheme" where
  "serial_initialize s =
     (let s0 = s\<lparr>serial_initialized := False\<rparr>;
          s1 = outb (SERIAL_PORT_COM1 + 1) 0x00 s0;
          s2 = outb (SERIAL_PORT_COM1 + 3) 0x80 s1;
          s3 = outb (SERIAL_PORT_COM1 + 0) 0x03 s2;
          s4 = outb (SERIAL_PORT_COM1 + 1) 0x00 s3;
          s5 = outb (SERIAL_PORT_COM1 + 3) 0x03 s4;
          s6 = outb (SERIAL_PORT_COM1 + 2) 0xC7 s5;
          s7 = outb (SERIAL_PORT_COM1 + 4) 0x0B s6;
          (ready, s8) = serial_wait_can_transmit s7
      in if \<not> ready then (False, s8) else (True, s8\<lparr>serial_initialized := True\<rparr>))"

definition serial_is_initialized :: "'a serial_scheme \<Rightarrow> bool" where
  "serial_is_initialized s = serial_initialized s"

text \<open>A newline first sends a carriage return by a recursive call.\<close>

function serial_putchar :: "char \<Rightarrow> 'a serial_scheme \<Rightarrow> 'a serial_scheme" where
  "serial_putchar c s =
     (if \<not> serial_initialized s then s
      else
        let s1 = (if c = CHR 0x0A then serial_putchar CHR 0x0D s else s) in
        if c = CHR 0x0A \<and> \<not> serial_initialized s1 then s1
        else
          let (ready, s2) = serial_wait_can_transmit s1 in
          if \<not> ready then s2\<lparr>serial_initialized := False\<rparr>
          else outb SERIAL_PORT_COM1 (of_char c) s2)"
  by pat_completeness auto
termination
  by (relation "measure (\<lambda>(c, s). if c = CHR 0x0A then 1 else 0)") auto

declare serial_putchar.simps [simp del]

definition serial_write :: "cstring \<Rightarrow> nat \<Rightarrow> 'a serial_scheme \<Rightarrow> 'a serial_scheme" where
  "serial_write data n s = fold (\<lambda>i. serial_putchar (data ! i)) [0..<n] s"

definition serial_writestring :: "cstring \<Rightarrow> 'a serial_scheme \<Rightarrow> 'a serial_scheme" where
  "serial_writestring data s = serial_write data (serial_strlen data) s"

section \<open>Polling, for any device\<close>

text \<open>The state after \<open>k\<close> reads of the line status register.\<close>

definition polled :: "nat \<Rightarrow> 'a serial_scheme \<Rightarrow> 'a serial_scheme" where
  "polled k s = ((\<lambda>s. snd (serial_can_transmit s)) ^^ k) s"

definition ready_at :: "nat \<Rightarrow> 'a serial_scheme \<Rightarrow> bool" where
  "ready_at k s = fst (serial_can_transmit (polled k s))"

lemma polled_0 [simp]: "polled 0 s = s"
  by (simp add: polled_def)

lemma polled_Suc: "polled (Suc k) s = polled k (snd (serial_can_transmit s))"
  by (simp add: polled_def funpow_Suc_right del: funpow.simps)

lemma ready_at_Suc: "ready_at (Suc k) s = ready_at k (snd (serial_can_transmit s))"
  by (simp add: ready_at_def polled_Suc)

lemma wait_loop_ready:
  "k \<le> unat t \<Longrightarrow> \<forall>j < k. \<not> ready_at j s \<Longrightarrow> ready_at k s \<Longrightarrow> serial_wait_loop t s = (True, polled (Suc k) s)"
proof (induction k arbitrary: t s)
  case 0
  then show ?case
    by (subst serial_wait_loop.simps) (simp add: ready_at_def polled_Suc case_prod_beta Let_def)
next
  case (Suc k)
  let ?s = "snd (serial_can_transmit s)"
  from Suc.prems(2) have "\<not> ready_at 0 s" by blast
  then have busy: "\<not> fst (serial_can_transmit s)" by (simp add: ready_at_def)
  have t: "0 < unat t" using Suc.prems(1) by simp
  then have tnz: "t \<noteq> 0" by auto
  have "k \<le> unat (t - 1)" using Suc.prems(1) unat_pred_pos [OF t] by simp
  moreover have "\<forall>j < k. \<not> ready_at j ?s" using Suc.prems(2) by (auto simp flip: ready_at_Suc)
  moreover have "ready_at k ?s" using Suc.prems(3) by (simp add: ready_at_Suc)
  ultimately have "serial_wait_loop (t - 1) ?s = (True, polled (Suc k) ?s)" by (rule Suc.IH)
  then show ?case using busy tnz
    by (subst serial_wait_loop.simps) (simp add: case_prod_beta Let_def polled_Suc)
qed

lemma wait_loop_timeout:
  "unat t = n \<Longrightarrow> \<forall>j \<le> n. \<not> ready_at j s \<Longrightarrow> serial_wait_loop t s = (False, polled (Suc n) s)"
proof (induction n arbitrary: t s)
  case 0
  then have "t = 0" by (simp add: unat_eq_zero)
  then show ?case using 0
    by (subst serial_wait_loop.simps) (simp add: ready_at_def polled_Suc case_prod_beta Let_def)
next
  case (Suc n)
  let ?s = "snd (serial_can_transmit s)"
  from Suc.prems(2) have "\<not> ready_at 0 s" by blast
  then have busy: "\<not> fst (serial_can_transmit s)" by (simp add: ready_at_def)
  have t: "0 < unat t" using Suc.prems(1) by simp
  then have tnz: "t \<noteq> 0" by auto
  have "unat (t - 1) = n" using Suc.prems(1) unat_pred_pos [OF t] by simp
  moreover have "\<forall>j \<le> n. \<not> ready_at j ?s" using Suc.prems(2) by (auto simp flip: ready_at_Suc)
  ultimately have "serial_wait_loop (t - 1) ?s = (False, polled (Suc n) ?s)" by (rule Suc.IH)
  then show ?case using busy tnz
    by (subst serial_wait_loop.simps) (simp add: case_prod_beta Let_def polled_Suc)
qed

section \<open>What the port operations do to the machine\<close>

text \<open>
  The accesses of a character transfer, newest first: reads of the line status register and
  bytes to the data register, each directly after a read that found the transmitter empty.
\<close>

fun uart_log :: "io_event list \<Rightarrow> bool" where
  "uart_log [] \<longleftrightarrow> True"
| "uart_log (In p v # l) \<longleftrightarrow> p = 0x3FD \<and> uart_log l"
| "uart_log (Out p v # l) \<longleftrightarrow> p = 0x3F8 \<and> uart_log l \<and>
     (case l of In q w # _ \<Rightarrow> w AND 0x20 \<noteq> 0 | _ \<Rightarrow> False)"

definition serial_effect :: "io_event list \<Rightarrow> bool \<Rightarrow> 'a serial_scheme \<Rightarrow> 'a serial_scheme" where
  "serial_effect l b s = s\<lparr>io_log := l @ io_log s, serial_initialized := b\<rparr>"

lemma uart_log_append: "uart_log a \<Longrightarrow> uart_log b \<Longrightarrow> uart_log (a @ b)"
  by (induction a rule: uart_log.induct) (auto split: list.splits io_event.splits)

lemma serial_effect_id: "serial_effect [] (serial_initialized s) s = s"
  by (simp add: serial_effect_def)

lemma serial_effect_effect: "serial_effect l b (serial_effect l' b' s) = serial_effect (l @ l') b s"
  by (simp add: serial_effect_def)

lemma serial_initialized_effect [simp]: "serial_initialized (serial_effect l b s) = b"
  by (simp add: serial_effect_def)

lemma can_transmit_eq:
  "serial_can_transmit s =
     (let v = io_device s (io_log s) 0x3FD in
      (v AND 0x20 \<noteq> 0, serial_effect [In 0x3FD v] (serial_initialized s) s))"
  by (simp add: serial_can_transmit_def inb_def serial_effect_def SERIAL_PORT_COM1_def Let_def)

lemma polled_effect:
  "\<exists>l. polled k s = serial_effect l (serial_initialized s) s \<and> uart_log l \<and> length l = k \<and>
     sent_to 0x3F8 l = []"
proof (induction k arbitrary: s)
  case 0
  then show ?case using serial_effect_id [of s] by auto
next
  case (Suc k)
  let ?v = "io_device s (io_log s) 0x3FD"
  let ?s = "serial_effect [In 0x3FD ?v] (serial_initialized s) s"
  from Suc [of ?s] obtain l where
    "polled k ?s = serial_effect l (serial_initialized s) ?s" "uart_log l" "length l = k" "sent_to 0x3F8 l = []"
    by auto
  then show ?case
    by (intro exI [of _ "l @ [In 0x3FD ?v]"])
       (simp add: polled_Suc can_transmit_eq Let_def serial_effect_effect uart_log_append sent_to_def)
qed

lemma polled_Suc_end: "polled (Suc k) s = snd (serial_can_transmit (polled k s))"
  by (simp add: polled_def)

text \<open>The wait either finds the transmitter empty or gives up after 100001 reads.\<close>

lemma wait_effect:
  "\<exists>l. snd (serial_wait_can_transmit s) = serial_effect l (serial_initialized s) s \<and> uart_log l \<and>
     sent_to 0x3F8 l = [] \<and> length l \<le> 100001 \<and>
     (fst (serial_wait_can_transmit s) \<longrightarrow>
        (\<exists>v l'. l = In 0x3FD v # l' \<and> v AND 0x20 \<noteq> 0)) \<and>
     (\<not> fst (serial_wait_can_transmit s) \<longrightarrow> length l = 100001)"
proof (cases "\<exists>k \<le> 100000. ready_at k s")
  case True
  define k where "k = (LEAST k. ready_at k s)"
  obtain k0 where k0: "k0 \<le> 100000" "ready_at k0 s" using True by blast
  have k: "ready_at k s" "k \<le> 100000" "\<forall>j < k. \<not> ready_at j s"
  proof -
    show "ready_at k s" unfolding k_def by (rule LeastI, rule k0(2))
    show "k \<le> 100000" unfolding k_def by (rule order_trans, rule Least_le, rule k0(2), rule k0(1))
    show "\<forall>j < k. \<not> ready_at j s" unfolding k_def using not_less_Least by blast
  qed
  have u: "k \<le> unat SERIAL_TRANSMIT_TIMEOUT" using k(2) by (simp add: SERIAL_TRANSMIT_TIMEOUT_def)
  have w: "serial_wait_can_transmit s = (True, polled (Suc k) s)"
    unfolding serial_wait_can_transmit_def by (rule wait_loop_ready [OF u k(3,1)])
  from polled_effect [of k s] obtain l where
    l: "polled k s = serial_effect l (serial_initialized s) s" "uart_log l" "length l = k" "sent_to 0x3F8 l = []"
    by blast
  let ?v = "io_device s (l @ io_log s) 0x3FD"
  have s1: "polled (Suc k) s = serial_effect (In 0x3FD ?v # l) (serial_initialized s) s"
    unfolding polled_Suc_end l(1) can_transmit_eq Let_def by (simp add: serial_effect_def)
  have "?v AND 0x20 \<noteq> 0"
    using k(1) unfolding ready_at_def l(1) can_transmit_eq Let_def by (simp add: serial_effect_def)
  then show ?thesis using w s1 l k(2) by (intro exI [of _ "In 0x3FD ?v # l"]) simp
next
  case False
  then have "serial_wait_can_transmit s = (False, polled (Suc 100000) s)"
    unfolding serial_wait_can_transmit_def
    by (intro wait_loop_timeout) (simp_all add: SERIAL_TRANSMIT_TIMEOUT_def)
  moreover from polled_effect [of "Suc 100000" s] obtain l where
    "polled (Suc 100000) s = serial_effect l (serial_initialized s) s" "uart_log l"
    "length l = Suc 100000" "sent_to 0x3F8 l = []" by blast
  ultimately show ?thesis by (intro exI [of _ l]) (simp only: fst_conv snd_conv, simp)
qed

definition crlf :: "char \<Rightarrow> u8 list" where
  "crlf c = (if c = CHR 0x0A then [0x0D, 0x0A] else [of_char c])"

text \<open>A device whose transmitter is always empty when it is asked.\<close>

definition uart_ready :: "(io_event list \<Rightarrow> u16 \<Rightarrow> u8) \<Rightarrow> bool" where
  "uart_ready dev \<longleftrightarrow> (\<forall>l. dev l 0x3FD AND 0x20 \<noteq> 0)"

lemma wait_ready: "uart_ready (io_device s) \<Longrightarrow> fst (serial_wait_can_transmit s)"
proof -
  assume "uart_ready (io_device s)"
  then have "ready_at 0 s" by (simp add: ready_at_def can_transmit_eq uart_ready_def Let_def)
  then have "serial_wait_can_transmit s = (True, polled (Suc 0) s)"
    unfolding serial_wait_can_transmit_def by (intro wait_loop_ready) simp_all
  then show ?thesis by simp
qed

lemma io_device_effect [simp]: "io_device (serial_effect l b s) = io_device s"
  by (simp add: serial_effect_def)

text \<open>One byte on an initialized port.\<close>

lemma sent_to_append: "sent_to p (a @ b) = sent_to p b @ sent_to p a"
  by (simp add: sent_to_def)

lemma emit_effect:
  assumes "serial_initialized s"
    and out: "s' = (let (ready, s2) = serial_wait_can_transmit s in
       if \<not> ready then s2\<lparr>serial_initialized := False\<rparr> else outb SERIAL_PORT_COM1 v s2)"
  shows "\<exists>l b. s' = serial_effect l b s \<and> uart_log l \<and> length l \<le> 100002 \<and>
     sent_to 0x3F8 l = (if b then [v] else []) \<and> (uart_ready (io_device s) \<longrightarrow> b)"
proof -
  from wait_effect [of s] assms(1) obtain l where
    l: "snd (serial_wait_can_transmit s) = serial_effect l True s" "uart_log l"
       "sent_to 0x3F8 l = []" "length l \<le> 100001"
       "fst (serial_wait_can_transmit s) \<longrightarrow> (\<exists>v l'. l = In 0x3FD v # l' \<and> v AND 0x20 \<noteq> 0)"
    by auto
  show ?thesis
  proof (cases "fst (serial_wait_can_transmit s)")
    case True
    then have "s' = serial_effect (Out 0x3F8 v # l) True s"
      using l(1) by (simp add: out case_prod_beta Let_def outb_def serial_effect_def SERIAL_PORT_COM1_def)
    moreover have "uart_log (Out 0x3F8 v # l)" using True l(2,5) by auto
    ultimately show ?thesis using l(3,4) by (intro exI [of _ "Out 0x3F8 v # l"] exI [of _ True]) simp
  next
    case False
    then have "s' = serial_effect l False s"
      using l(1) by (simp add: out case_prod_beta Let_def serial_effect_def)
    moreover have "\<not> uart_ready (io_device s)" using wait_ready [of s] False by blast
    ultimately show ?thesis using l(2-4) by (intro exI [of _ l] exI [of _ False]) simp
  qed
qed

lemma serial_putchar_effect:
  "\<exists>l b n. serial_putchar c s = serial_effect l b s \<and> uart_log l \<and> length l \<le> 200004 \<and>
     sent_to 0x3F8 l = take n (crlf c) \<and>
     (if serial_initialized s then b = (length (crlf c) \<le> n) else \<not> b \<and> l = []) \<and>
     (serial_initialized s \<and> uart_ready (io_device s) \<longrightarrow> b)"
proof -
  let ?emit = "\<lambda>v s. let (ready, s2) = serial_wait_can_transmit s in
       if \<not> ready then s2\<lparr>serial_initialized := False\<rparr> else outb SERIAL_PORT_COM1 v s2"
  consider "\<not> serial_initialized s" | "serial_initialized s" "c \<noteq> CHR 0x0A"
    | "serial_initialized s" "c = CHR 0x0A" by blast
  then show ?thesis
  proof cases
    case 1
    then have "serial_putchar c s = serial_effect [] False s"
      using serial_effect_id [of s] by (simp add: serial_putchar.simps)
    then show ?thesis using 1 by (intro exI [of _ "[]"] exI [of _ False] exI [of _ 0]) simp
  next
    case 2
    then have "serial_putchar c s = ?emit (of_char c) s"
      by (subst serial_putchar.simps) (simp add: Let_def)
    from emit_effect [OF 2(1) this] obtain l b where
      "serial_putchar c s = serial_effect l b s" "uart_log l" "length l \<le> 100002"
      "sent_to 0x3F8 l = (if b then [of_char c] else [])" "uart_ready (io_device s) \<longrightarrow> b" by blast
    then show ?thesis using 2
      by (intro exI [of _ l] exI [of _ b] exI [of _ "if b then 1 else 0"]) (simp add: crlf_def)
  next
    case 3
    have "serial_putchar CHR 0x0D s = ?emit (of_char CHR 0x0D) s"
      using 3(1) by (subst serial_putchar.simps) (simp add: Let_def)
    from emit_effect [OF 3(1) this] obtain l b where
      1: "serial_putchar CHR 0x0D s = serial_effect l b s" "uart_log l" "length l \<le> 100002"
         "sent_to 0x3F8 l = (if b then [0x0D] else [])" "uart_ready (io_device s) \<longrightarrow> b" by auto
    show ?thesis
    proof (cases b)
      case True
      have "serial_putchar c s = ?emit (of_char c) (serial_effect l True s)"
        using 3 1(1) True by (subst serial_putchar.simps) (simp add: Let_def)
      from emit_effect [OF _ this] obtain l' b' where
        2: "serial_putchar c s = serial_effect l' b' (serial_effect l True s)" "uart_log l'"
           "length l' \<le> 100002" "sent_to 0x3F8 l' = (if b' then [of_char c] else [])"
           "uart_ready (io_device s) \<longrightarrow> b'" by auto
      show ?thesis using 1 2 3 True
        by (intro exI [of _ "l' @ l"] exI [of _ b'] exI [of _ "if b' then 2 else 1"])
           (simp add: serial_effect_effect uart_log_append sent_to_append crlf_def)
    next
      case False
      then have "serial_putchar c s = serial_effect l False s"
        using 3 1(1) by (subst serial_putchar.simps) (simp add: Let_def)
      then show ?thesis using 1 3 False
        by (intro exI [of _ l] exI [of _ False] exI [of _ 0]) (simp add: crlf_def)
    qed
  qed
qed

section \<open>The console and the serial port as text sinks\<close>

definition console_ok :: "'a console_scheme \<Rightarrow> bool" where
  "console_ok s \<longleftrightarrow> vga_ok s \<and> console_initialized s"

lemma vga_frame_more:
  fixes s s' :: "'a console_scheme"
  assumes "vga_frame s s'"
  shows "console_initialized s' = console_initialized s" and "console.more s' = console.more s"
  using assms by (cases s; cases s'; simp add: vga_frame_def)+

interpretation console: text_sink console_ok screen ts_putchar vga_frame console_putchar
  "\<lambda>t. console_writestring (Some t)"
proof
  fix s :: "'a console_scheme" and c
  assume s: "console_ok s"
  then have v: "vga_ok s" by (simp add: console_ok_def)
  show "console_ok (console_putchar c s) \<and> screen (console_putchar c s) = ts_putchar c (screen s) \<and>
      vga_frame s (console_putchar c s)"
    using s terminal.putc [OF v, of c] vga_frame_more(1) [of s "terminal_putchar c s"]
    by (simp add: console_putchar_def console_ok_def)
next
  fix s :: "'a console_scheme" and t
  assume s: "console_ok s"
  then have v: "vga_ok s" by (simp add: console_ok_def)
  show "console_ok (console_writestring (Some t) s) \<and>
      screen (console_writestring (Some t) s) = fold ts_putchar (c_text t) (screen s) \<and>
      vga_frame s (console_writestring (Some t) s)"
    using s terminal.puts [OF v, of t] vga_frame_more(1) [of s "terminal_writestring t s"]
    by (simp add: console_writestring_def console_ok_def)
qed (auto intro: vga_frame_trans)

lemma serial_write_eq_fold: "n \<le> length data \<Longrightarrow> serial_write data n s = fold serial_putchar (take n data) s"
proof (induction n)
  case 0
  then show ?case by (simp add: serial_write_def)
next
  case (Suc n)
  then have "serial_write data n s = fold serial_putchar (take n data) s" "n < length data" by simp_all
  then show ?case by (simp add: serial_write_def take_Suc_conv_app_nth)
qed

lemma serial_writestring_eq_fold: "serial_writestring t s = fold serial_putchar (c_text t) s"
  using serial_write_eq_fold [OF c_strlen_le] by (simp add: serial_writestring_def serial_strlen_def take_c_strlen)

text \<open>A port operation, for any device: only the log of accesses and the driver's flag change.\<close>

definition serial_frame :: "'a serial_scheme \<Rightarrow> 'a serial_scheme \<Rightarrow> bool" where
  "serial_frame s s' \<longleftrightarrow> (\<exists>l b. s' = serial_effect l b s \<and> uart_log l)"

lemma serial_frameI: "s' = serial_effect l b s \<Longrightarrow> uart_log l \<Longrightarrow> serial_frame s s'"
  unfolding serial_frame_def by blast

lemma serial_frame_refl: "serial_frame s s"
  by (rule serial_frameI [of s "[]" "serial_initialized s" s]) (simp_all add: serial_effect_id)

lemma serial_frame_trans: "serial_frame a b \<Longrightarrow> serial_frame b c \<Longrightarrow> serial_frame a c"
proof -
  assume "serial_frame a b" "serial_frame b c"
  then obtain l x l' y where "b = serial_effect l x a" "uart_log l" "c = serial_effect l' y b" "uart_log l'"
    unfolding serial_frame_def by blast
  then have "c = serial_effect (l' @ l) y a" "uart_log (l' @ l)"
    by (simp_all only: serial_effect_effect uart_log_append)
  then show ?thesis by (rule serial_frameI)
qed

lemma serial_putchar_frame: "serial_frame s (serial_putchar c s)"
  using serial_putchar_effect [of c s] unfolding serial_frame_def by blast

interpretation uart: char_device "\<lambda>s. True" "\<lambda>s. ()" "\<lambda>c u. u" serial_frame serial_putchar
  by unfold_locales (auto intro: serial_frame_refl serial_frame_trans serial_putchar_frame)

interpretation uart: text_sink "\<lambda>s. True" "\<lambda>s. ()" "\<lambda>c u. u" serial_frame serial_putchar serial_writestring
  by unfold_locales (use uart.put_all in \<open>simp add: serial_writestring_eq_fold\<close>)

text \<open>With a device that is always ready, every character arrives, a newline as two bytes.\<close>

definition serial_ok :: "'a serial_scheme \<Rightarrow> bool" where
  "serial_ok s \<longleftrightarrow> serial_initialized s \<and> uart_ready (io_device s)"

definition serial_sent :: "'a serial_scheme \<Rightarrow> u8 list" where
  "serial_sent s = sent_to 0x3F8 (io_log s)"

interpretation serial_line: char_device serial_ok serial_sent "\<lambda>c sent. sent @ crlf c" serial_frame serial_putchar
proof
  fix s :: "'a serial_scheme" and c
  assume s: "serial_ok s"
  from serial_putchar_effect [of c s] obtain l b n where
    e: "serial_putchar c s = serial_effect l b s" "uart_log l" "sent_to 0x3F8 l = take n (crlf c)"
       "if serial_initialized s then b = (length (crlf c) \<le> n) else \<not> b \<and> l = []"
       "serial_initialized s \<and> uart_ready (io_device s) \<longrightarrow> b" by blast
  then have b: "b" "length (crlf c) \<le> n" using s by (simp_all add: serial_ok_def)
  then have "serial_sent (serial_putchar c s) = serial_sent s @ crlf c"
    using e(3) unfolding e(1) by (simp add: serial_sent_def serial_effect_def sent_to_append)
  moreover have "serial_ok (serial_putchar c s)" using s b(1) unfolding e(1) by (simp add: serial_ok_def)
  ultimately show "serial_ok (serial_putchar c s) \<and> serial_sent (serial_putchar c s) = serial_sent s @ crlf c \<and>
      serial_frame s (serial_putchar c s)"
    using e(1,2) by (auto simp: serial_frame_def)
qed (auto intro: serial_frame_refl serial_frame_trans)

interpretation serial_line: text_sink serial_ok serial_sent "\<lambda>c sent. sent @ crlf c" serial_frame serial_putchar
  serial_writestring
  by unfold_locales (use serial_line.put_all in \<open>simp add: serial_writestring_eq_fold\<close>)

end
