(* ===== verification/Log.thy ===== *)
theory Log
  imports Format Serial
begin

text \<open>
  \<^verbatim>\<open>src/kernel/log.c\<close>: diagnostic output to the console and, once it works, to the serial port.
  The number writers fill a local buffer and print it; the buffer's bytes before the formatter
  writes them are never read, and are NUL in the model.
\<close>

record klog = serial +
  klog_serial_available :: bool

section \<open>Operations\<close>

definition klog_initialize :: "'a klog_scheme \<Rightarrow> kernel_status \<times> 'a klog_scheme" where
  "klog_initialize s =
     (let (available, s1) = serial_initialize s;
          s2 = s1\<lparr>klog_serial_available := available\<rparr>
      in if \<not> klog_serial_available s2 then (KERNEL_STATUS_UNAVAILABLE, s2)
         else (KERNEL_STATUS_OK, s2))"

definition klog_has_serial_output :: "'a klog_scheme \<Rightarrow> bool" where
  "klog_has_serial_output s = klog_serial_available s"

definition klog_putchar :: "char \<Rightarrow> 'a klog_scheme \<Rightarrow> 'a klog_scheme" where
  "klog_putchar character s =
     (let s1 = console_putchar character s in
      if klog_serial_available s1 then serial_putchar character s1 else s1)"

definition klog_writestring :: "cstring option \<Rightarrow> 'a klog_scheme \<Rightarrow> 'a klog_scheme" where
  "klog_writestring text s =
     (case text of
        None \<Rightarrow> s
      | Some t \<Rightarrow>
          let s1 = console_writestring text s in
          if klog_serial_available s1 then serial_writestring t s1 else s1)"

text \<open>A formatter's verdict: its buffer is printed when it succeeded.\<close>

definition klog_write_formatted ::
  "(bool \<times> char carray option) option \<Rightarrow> 'a klog_scheme \<Rightarrow> 'a klog_scheme option" where
  "klog_write_formatted r s = do {
     (ok, buffer) \<leftarrow> r;
     Some (if ok then klog_writestring (map_option acells buffer) s else s)
   }"

definition klog_write_uint32 :: "u32 \<Rightarrow> 'a klog_scheme \<Rightarrow> 'a klog_scheme option" where
  "klog_write_uint32 value =
     klog_write_formatted (kformat_uint32_decimal value (Some (afill 11 NUL)) 11)"

definition klog_write_uint64 :: "u64 \<Rightarrow> 'a klog_scheme \<Rightarrow> 'a klog_scheme option" where
  "klog_write_uint64 value =
     klog_write_formatted (kformat_uint64_decimal value (Some (afill 21 NUL)) 21)"

definition klog_write_hex32 :: "u32 \<Rightarrow> 'a klog_scheme \<Rightarrow> 'a klog_scheme option" where
  "klog_write_hex32 value =
     klog_write_formatted (kformat_uint32_hex value (Some (afill 11 NUL)) 11)"

text \<open>Statements of functions that print.\<close>

abbreviation log_puts :: "cstring \<Rightarrow> 'a klog_scheme \<Rightarrow> 'a klog_scheme option" where
  "log_puts t \<equiv> (\<lambda>s. Some (klog_writestring (Some t) s))"

abbreviation log_putc :: "char \<Rightarrow> 'a klog_scheme \<Rightarrow> 'a klog_scheme option" where
  "log_putc c \<equiv> (\<lambda>s. Some (klog_putchar c s))"

section \<open>What a log operation leaves alone\<close>

definition log_ports :: "u16 set" where
  "log_ports = {0x3D4, 0x3D5, 0x3F8, 0x3F9, 0x3FA, 0x3FB, 0x3FC, 0x3FD}"

definition klog_frame :: "'a klog_scheme \<Rightarrow> 'a klog_scheme \<Rightarrow> bool" where
  "klog_frame s s' \<longleftrightarrow>
     io_device s' = io_device s \<and> reg_if s' = reg_if s \<and> cpu_halted s' = cpu_halted s \<and>
     reg_cr0 s' = reg_cr0 s \<and> reg_cr3 s' = reg_cr3 s \<and> reg_gdtr s' = reg_gdtr s \<and>
     reg_idtr s' = reg_idtr s \<and> console_initialized s' = console_initialized s \<and>
     klog_serial_available s' = klog_serial_available s \<and> klog.more s' = klog.more s \<and>
     (\<forall>i. 16384 \<le> i \<longrightarrow> terminal_buffer s' i = terminal_buffer s i) \<and>
     other_events log_ports (io_log s') = other_events log_ports (io_log s)"

lemma klog_frame_refl: "klog_frame s s"
  by (simp add: klog_frame_def)

lemma klog_frame_trans: "klog_frame a b \<Longrightarrow> klog_frame b c \<Longrightarrow> klog_frame a c"
  by (simp add: klog_frame_def)

lemma vga_frame_klog:
  fixes s s' :: "'a klog_scheme"
  assumes "vga_frame s s'"
  shows "klog_frame s s'" and "serial_initialized s' = serial_initialized s"
proof -
  have "other_events log_ports (io_log s') = other_events log_ports (io_log s)"
    by (rule other_events_mono [of "{0x3D4, 0x3D5}"]) (use assms in \<open>simp_all add: vga_frame_def log_ports_def\<close>)
  then show "klog_frame s s'" and "serial_initialized s' = serial_initialized s"
    using assms by (cases s; cases s'; simp add: vga_frame_def klog_frame_def)+
qed

lemma uart_log_other: "uart_log l \<Longrightarrow> other_events log_ports l = []"
  by (induction l rule: uart_log.induct) (auto simp: log_ports_def)

lemma uart_log_crtc: "uart_log l \<Longrightarrow> crtc_registers (l @ l') = crtc_registers l'"
  by (induction l rule: uart_log.induct) (auto simp: Let_def case_prod_beta)

lemma serial_frame_klog:
  fixes s s' :: "'a klog_scheme"
  assumes "serial_frame s s'"
  shows "klog_frame s s'" and "screen s' = screen s" and "console_ok s' = console_ok s"
proof -
  from assms obtain l b where s': "s' = serial_effect l b s" "uart_log l"
    unfolding serial_frame_def by blast
  show "klog_frame s s'" using s' uart_log_other
    by (auto simp: klog_frame_def serial_effect_def)
  show "screen s' = screen s" unfolding s'(1) by (simp add: screen_def serial_effect_def cong: if_cong)
  show "console_ok s' = console_ok s" using uart_log_crtc [OF s'(2), of "io_log s"] unfolding s'(1)
    by (simp add: console_ok_def vga_ok_def crtc_start_def serial_effect_def)
qed

section \<open>The log as a text sink\<close>

text \<open>Whatever the serial device does, the console shows every character.\<close>

interpretation klog: text_sink console_ok screen ts_putchar klog_frame klog_putchar
  "\<lambda>t. klog_writestring (Some t)"
proof
  fix s :: "'a klog_scheme" and c
  assume s: "console_ok s"
  note con = console.putc [OF s, of c]
  note ser = serial_frame_klog [OF uart.putc [OF TrueI, THEN conjunct2, THEN conjunct2, of "console_putchar c s" c]]
  show "console_ok (klog_putchar c s) \<and> screen (klog_putchar c s) = ts_putchar c (screen s) \<and>
      klog_frame s (klog_putchar c s)"
    using con ser vga_frame_klog(1) [of s "console_putchar c s"]
    by (auto simp: klog_putchar_def Let_def intro: klog_frame_trans)
next
  fix s :: "'a klog_scheme" and t
  assume s: "console_ok s"
  note con = console.puts [OF s, of t]
  note ser = serial_frame_klog [OF uart.puts [OF TrueI, THEN conjunct2, THEN conjunct2,
      of "console_writestring (Some t) s" t]]
  show "console_ok (klog_writestring (Some t) s) \<and>
      screen (klog_writestring (Some t) s) = fold ts_putchar (c_text t) (screen s) \<and>
      klog_frame s (klog_writestring (Some t) s)"
    using con ser vga_frame_klog(1) [of s "console_writestring (Some t) s"]
    by (auto simp: klog_writestring_def Let_def intro: klog_frame_trans)
qed (auto intro: klog_frame_refl klog_frame_trans)

text \<open>With a working serial device, both sinks get every character.\<close>

definition klog_ok :: "'a klog_scheme \<Rightarrow> bool" where
  "klog_ok s \<longleftrightarrow> console_ok s \<and> klog_serial_available s \<and> serial_ok s"

definition both_sinks :: "'a klog_scheme \<Rightarrow> tscreen \<times> u8 list" where
  "both_sinks s = (screen s, serial_sent s)"

definition both_step :: "char \<Rightarrow> tscreen \<times> u8 list \<Rightarrow> tscreen \<times> u8 list" where
  "both_step c = map_prod (ts_putchar c) (\<lambda>sent. sent @ crlf c)"

lemma fold_both_step:
  "fold both_step t (x, y) = (fold ts_putchar t x, fold (\<lambda>c sent. sent @ crlf c) t y)"
  by (induction t arbitrary: x y) (simp_all add: both_step_def)

lemma vga_frame_serial:
  fixes s s' :: "'a klog_scheme"
  assumes "vga_frame s s'" "serial_ok s"
  shows "serial_ok s'" "serial_sent s' = serial_sent s"
proof -
  have "sent_to 0x3F8 (io_log s') = sent_to 0x3F8 (other_events {0x3D4, 0x3D5} (io_log s'))"
    by (simp add: sent_to_other)
  also have "\<dots> = sent_to 0x3F8 (io_log s)" using assms(1) by (simp add: vga_frame_def sent_to_other)
  finally show "serial_sent s' = serial_sent s" by (simp add: serial_sent_def)
  show "serial_ok s'" using assms vga_frame_klog(2) [OF assms(1)] by (simp add: serial_ok_def vga_frame_def)
qed

interpretation klog_mirrored: text_sink klog_ok both_sinks both_step klog_frame klog_putchar
  "\<lambda>t. klog_writestring (Some t)"
proof
  fix s :: "'a klog_scheme" and c
  assume s: "klog_ok s"
  then have ok: "console_ok s" and ser: "serial_ok s" and av: "klog_serial_available s"
    by (simp_all add: klog_ok_def)
  let ?s = "console_putchar c s"
  have f: "vga_frame s ?s" using console.putc [OF ok] by simp
  have av': "klog_serial_available ?s" using vga_frame_klog(1) [OF f] av by (simp add: klog_frame_def)
  note line = serial_line.putc [OF vga_frame_serial(1) [OF f ser], of c]
  note sf = serial_frame_klog [OF conjunct2 [OF conjunct2 [OF line]]]
  show "klog_ok (klog_putchar c s) \<and> both_sinks (klog_putchar c s) = both_step c (both_sinks s) \<and>
      klog_frame s (klog_putchar c s)"
    using av av' line sf console.putc [OF ok, of c] klog.putc [OF ok, of c] vga_frame_serial(2) [OF f ser]
    by (simp add: klog_putchar_def Let_def klog_ok_def both_sinks_def both_step_def klog_frame_def)
next
  fix s :: "'a klog_scheme" and t
  assume s: "klog_ok s"
  then have ok: "console_ok s" and ser: "serial_ok s" and av: "klog_serial_available s"
    by (simp_all add: klog_ok_def)
  let ?s = "console_writestring (Some t) s"
  have f: "vga_frame s ?s" using console.puts [OF ok] by simp
  have av': "klog_serial_available ?s" using vga_frame_klog(1) [OF f] av by (simp add: klog_frame_def)
  note line = serial_line.puts [OF vga_frame_serial(1) [OF f ser], of t]
  show "klog_ok (klog_writestring (Some t) s) \<and>
      both_sinks (klog_writestring (Some t) s) = fold both_step (c_text t) (both_sinks s) \<and>
      klog_frame s (klog_writestring (Some t) s)"
    using av av' line console.puts [OF ok, of t] klog.puts [OF ok, of t] vga_frame_serial(2) [OF f ser]
    by (simp add: klog_writestring_def Let_def klog_ok_def both_sinks_def fold_both_step klog_frame_def)
qed (auto intro: klog_frame_refl klog_frame_trans)

section \<open>Numbers\<close>

abbreviation log_prints :: "('a klog_scheme \<Rightarrow> 'a klog_scheme option) \<Rightarrow> string \<Rightarrow> bool" where
  "log_prints \<equiv> prints_on console_ok screen ts_putchar klog_frame"

abbreviation log_mirrors :: "('a klog_scheme \<Rightarrow> 'a klog_scheme option) \<Rightarrow> string \<Rightarrow> bool" where
  "log_mirrors \<equiv> prints_on klog_ok both_sinks both_step klog_frame"

lemma write_formatted_eq:
  assumes "NUL \<notin> set t" "length t < n"
    and "r = Some (True, Some (ablit (afill n NUL) 0 (t @ [NUL])))"
  shows "\<exists>buf. klog_write_formatted r = log_puts buf \<and> c_text buf = t"
  using assms
  by (intro exI [of _ "acells (ablit (afill n NUL) 0 (t @ [NUL]))"])
     (simp add: klog_write_formatted_def fun_eq_iff c_text_ablit)

lemma write_uint32_eq: "\<exists>buf. klog_write_uint32 v = log_puts buf \<and> c_text buf = decimal_text (unat v)"
proof -
  have len: "length (decimal_text (unat v)) \<le> 10" by (rule decimal_text_u32)
  show ?thesis unfolding klog_write_uint32_def
    by (rule write_formatted_eq [where n = 11])
       (use len kformat_decimal_eq [of v 10 11 "afill 11 NUL"] in
         \<open>simp_all add: decimal_text_no_NUL kformat_uint32_decimal_def\<close>)
qed

lemma write_uint64_eq: "\<exists>buf. klog_write_uint64 v = log_puts buf \<and> c_text buf = decimal_text (unat v)"
proof -
  have len: "length (decimal_text (unat v)) \<le> 20" by (rule decimal_text_u64)
  show ?thesis unfolding klog_write_uint64_def
    by (rule write_formatted_eq [where n = 21])
       (use len kformat_decimal_eq [of v 20 21 "afill 21 NUL"] in
         \<open>simp_all add: decimal_text_no_NUL kformat_uint64_decimal_def\<close>)
qed

lemma write_hex32_eq: "\<exists>buf. klog_write_hex32 v = log_puts buf \<and> c_text buf = hex_text v"
  unfolding klog_write_hex32_def
  by (rule write_formatted_eq [where n = 11])
     (use kformat_uint32_hex_eq [of 11 "afill 11 NUL" v] in
       \<open>simp_all add: hex_text_no_NUL length_hex_text\<close>)

lemma log_prints_puts: "c_text s = t \<Longrightarrow> log_prints (log_puts s) t"
  using klog.prints_puts [of s] by simp

lemma log_prints_form: "\<exists>buf. f = log_puts buf \<and> c_text buf = t \<Longrightarrow> log_prints f t"
  using log_prints_puts by blast

lemma log_prints_number:
  "log_prints (klog_write_uint32 v) (decimal_text (unat v))"
  "log_prints (klog_write_uint64 w) (decimal_text (unat w))"
  "log_prints (klog_write_hex32 v) (hex_text v)"
  by (rule log_prints_form, rule write_uint32_eq write_uint64_eq write_hex32_eq)+

lemma log_mirrors_puts: "c_text s = t \<Longrightarrow> log_mirrors (log_puts s) t"
  using klog_mirrored.prints_puts [of s] by simp

lemma log_mirrors_form: "\<exists>buf. f = log_puts buf \<and> c_text buf = t \<Longrightarrow> log_mirrors f t"
  using log_mirrors_puts by blast

lemma log_mirrors_number:
  "log_mirrors (klog_write_uint32 v) (decimal_text (unat v))"
  "log_mirrors (klog_write_uint64 w) (decimal_text (unat w))"
  "log_mirrors (klog_write_hex32 v) (hex_text v)"
  by (rule log_mirrors_form, rule write_uint32_eq write_uint64_eq write_hex32_eq)+

lemmas log_prints_intros =
  log_prints_puts log_prints_number klog.prints_putc klog.prints_nothing klog.prints_bind klog.prints_steps

section \<open>Initialization\<close>

lemma serial_initialize_eq:
  "\<exists>l s1. l = map (\<lambda>(p, v). Out p v)
       [(0x3FC, 0x0B), (0x3FA, 0xC7), (0x3FB, 0x03), (0x3F9, 0x00), (0x3F8, 0x03), (0x3FB, 0x80), (0x3F9, 0x00)] \<and>
     s1 = serial_effect l False s \<and>
     serial_initialize s = (fst (serial_wait_can_transmit s1),
       (snd (serial_wait_can_transmit s1))\<lparr>serial_initialized := fst (serial_wait_can_transmit s1)\<rparr>)"
proof -
  let ?l = "map (\<lambda>(p, v). Out p v)
       [(0x3FC, 0x0B), (0x3FA, 0xC7), (0x3FB, 0x03), (0x3F9, 0x00), (0x3F8, 0x03), (0x3FB, 0x80), (0x3F9, 0x00)]"
  from wait_effect [of "serial_effect ?l False s"] obtain l where
    l: "snd (serial_wait_can_transmit (serial_effect ?l False s)) = serial_effect l False (serial_effect ?l False s)"
    by auto
  have cfg: "outb (SERIAL_PORT_COM1 + 4) 0x0B (outb (SERIAL_PORT_COM1 + 2) 0xC7
      (outb (SERIAL_PORT_COM1 + 3) 0x03 (outb (SERIAL_PORT_COM1 + 1) 0x00
      (outb (SERIAL_PORT_COM1 + 0) 0x03 (outb (SERIAL_PORT_COM1 + 3) 0x80
      (outb (SERIAL_PORT_COM1 + 1) 0x00 (s\<lparr>serial_initialized := False\<rparr>))))))) = serial_effect ?l False s"
    by (cases s) (simp add: outb_def serial_effect_def SERIAL_PORT_COM1_def)
  have "serial_initialize s = (fst (serial_wait_can_transmit (serial_effect ?l False s)),
       (snd (serial_wait_can_transmit (serial_effect ?l False s)))
         \<lparr>serial_initialized := fst (serial_wait_can_transmit (serial_effect ?l False s))\<rparr>)"
    unfolding serial_initialize_def Let_def cfg using l
    by (simp add: case_prod_beta serial_effect_def)
  then show ?thesis by blast
qed

lemma klog_initialize_spec:
  assumes "console_ok s"
  shows "console_ok (snd (klog_initialize s)) \<and> screen (snd (klog_initialize s)) = screen s \<and>
     (fst (klog_initialize s) = KERNEL_STATUS_OK \<longleftrightarrow> klog_serial_available (snd (klog_initialize s))) \<and>
     fst (klog_initialize s) \<in> {KERNEL_STATUS_OK, KERNEL_STATUS_UNAVAILABLE} \<and>
     serial_initialized (snd (klog_initialize s)) = klog_serial_available (snd (klog_initialize s)) \<and>
     klog_frame (s\<lparr>klog_serial_available := klog_serial_available (snd (klog_initialize s))\<rparr>) (snd (klog_initialize s)) \<and>
     (uart_ready (io_device s) \<longrightarrow> fst (klog_initialize s) = KERNEL_STATUS_OK)"
proof -
  obtain l0 s1 where i: "l0 = map (\<lambda>(p, v). Out p v)
       [(0x3FC, 0x0B), (0x3FA, 0xC7), (0x3FB, 0x03), (0x3F9, 0x00), (0x3F8, 0x03), (0x3FB, 0x80), (0x3F9, 0x00)]"
    "s1 = serial_effect l0 False s"
    "serial_initialize s = (fst (serial_wait_can_transmit s1),
       (snd (serial_wait_can_transmit s1))\<lparr>serial_initialized := fst (serial_wait_can_transmit s1)\<rparr>)"
    using serial_initialize_eq [of s] by blast
  from wait_effect [of s1] obtain l where
    l: "snd (serial_wait_can_transmit s1) = serial_effect l (serial_initialized s1) s1" "uart_log l" by blast
  let ?r = "fst (serial_wait_can_transmit s1)"
  have k: "klog_initialize s = (if ?r then KERNEL_STATUS_OK else KERNEL_STATUS_UNAVAILABLE,
      (serial_effect (l @ l0) ?r s)\<lparr>klog_serial_available := ?r\<rparr>)"
    using i(3) l(1) unfolding i(2)
    by (simp add: klog_initialize_def serial_effect_effect Let_def) (simp add: serial_effect_def)
  have "crtc_registers (l0 @ io_log s) = crtc_registers (io_log s)"
    unfolding i(1) by (simp add: case_prod_beta Let_def)
  then have crtc: "crtc_start (l @ l0 @ io_log s) = crtc_start (io_log s)"
    by (simp add: crtc_start_def uart_log_crtc [OF l(2)])
  have "uart_ready (io_device s) \<longrightarrow> ?r" using wait_ready [of s1] unfolding i(2) by simp
  moreover have "other_events log_ports l0 = []" unfolding i(1) by (simp add: log_ports_def)
  moreover note uart_log_other [OF l(2)]
  ultimately show ?thesis
    unfolding k using assms crtc
    by (auto simp: console_ok_def vga_ok_def serial_effect_def screen_def klog_frame_def cong: if_cong)
qed

section \<open>Properties\<close>

text \<open>A machine with a console and a serial device that always answers "transmitter empty".\<close>

definition sample_klog :: klog where
  "sample_klog = \<lparr>io_device = (\<lambda>_ _. 0x20), io_log = [], reg_if = False, cpu_halted = False, reg_cr0 = 0,
     reg_cr3 = 0, reg_gdtr = (0, 0), reg_idtr = (0, 0), terminal_row = 0, terminal_column = 0,
     terminal_view_start = 0, terminal_color = 7, terminal_buffer = (\<lambda>_. 0),
     console_initialized = True, serial_initialized = True, klog_serial_available = True\<rparr>"

lemma sample_console_ok: "console_ok sample_klog"
  by (simp add: console_ok_def vga_ok_def crtc_start_def sample_klog_def)

lemma sample_klog_ok: "klog_ok sample_klog"
  using sample_console_ok
  by (simp add: klog_ok_def serial_ok_def) (simp add: sample_klog_def uart_ready_def)

text \<open>C30. Whatever the UART answers, sending a character ends within 200004 port accesses and keeps the
  transfer protocol: every byte goes out directly after a status read that found the transmitter
  empty, the bytes are a prefix of the character's line coding (a newline is CR LF), and the port
  stays enabled exactly when all of them went out.  A disabled port is not touched.\<close>

theorem serial_transfer_protocol:
  "\<exists>l b n. serial_putchar c s = s\<lparr>io_log := l @ io_log s, serial_initialized := b\<rparr> \<and>
     uart_log l \<and> length l \<le> 200004 \<and> sent_to 0x3F8 l = take n (crlf c) \<and>
     (if serial_initialized s then b = (length (crlf c) \<le> n) else \<not> b \<and> l = [])"
  using serial_putchar_effect [of c s] unfolding serial_effect_def by blast


text \<open>C29. Once the log is up and the serial device answers, every string and every number appears on
  both sinks: the screen shows its characters and the serial line carries them after what it
  carried before, newlines as CR LF; a number is printed as its decimal numeral.\<close>

theorem log_reaches_both_sinks:
  assumes "klog_ok s"
  shows "screen (klog_writestring (Some t) s) = fold ts_putchar (c_text t) (screen s) \<and>
     serial_sent (klog_writestring (Some t) s) = serial_sent s @ concat (map crlf (c_text t)) \<and>
     (\<exists>s'. klog_write_uint32 v s = Some s' \<and> klog_ok s' \<and>
        screen s' = fold ts_putchar (decimal_text (unat v)) (screen s) \<and>
        serial_sent s' = serial_sent s @ concat (map crlf (decimal_text (unat v))))"
proof -
  have cat: "fold (\<lambda>c sent. sent @ crlf c) t y = y @ concat (map crlf t)" for t y
    by (induction t arbitrary: y) simp_all
  show ?thesis
    using klog_mirrored.puts [OF assms, of t] prints_onD [OF log_mirrors_number(1) assms, of v]
    by (auto simp: both_sinks_def fold_both_step cat)
qed

lemma log_reaches_both_sinks_witness:
  "serial_sent (klog_writestring (Some ''ok'') sample_klog) = [0x6F, 0x6B]"
  using log_reaches_both_sinks [OF sample_klog_ok, of "''ok''" 0]
  by (simp add: c_text_def crlf_def) (simp add: serial_sent_def sample_klog_def)

text \<open>C28. The console never depends on the serial line: with a device that never answers, stops
  answering or was never there, every character, string and number still appears on the screen,
  the terminal's invariant is kept, and the rest of the machine is untouched.\<close>

theorem log_survives_serial_failure:
  assumes "console_ok s"
  shows "console_ok (klog_writestring (Some t) s) \<and> klog_frame s (klog_writestring (Some t) s) \<and>
     screen (klog_writestring (Some t) s) = fold ts_putchar (c_text t) (screen s) \<and>
     screen (klog_putchar c s) = ts_putchar c (screen s) \<and>
     (\<exists>s'. klog_write_hex32 v s = Some s' \<and> console_ok s' \<and> klog_frame s s' \<and>
        screen s' = fold ts_putchar (hex_text v) (screen s))"
  using klog.puts [OF assms, of t] klog.putc [OF assms, of c] prints_onD [OF log_prints_number(3) assms, of v]
  by blast

lemma log_survives_serial_failure_witness:
  "ts_column (screen (klog_putchar CHR ''a'' (sample_klog\<lparr>io_device := (\<lambda>_ _. 0)\<rparr>))) = 1"
proof -
  have "console_ok (sample_klog\<lparr>io_device := (\<lambda>_ _. 0)\<rparr>)"
    using sample_console_ok by (simp add: console_ok_def vga_ok_def)
  from log_survives_serial_failure [OF this, of "[]" "CHR ''a''" 0]
  have "screen (klog_putchar CHR ''a'' (sample_klog\<lparr>io_device := (\<lambda>_ _. 0)\<rparr>)) =
      ts_putchar CHR ''a'' (screen (sample_klog\<lparr>io_device := (\<lambda>_ _. 0)\<rparr>))" by blast
  then show ?thesis
    by (simp add: ts_putchar_def ts_glyph_def ts_put_def Let_def) (simp add: sample_klog_def)
qed

end
