(* ===== verification/Report.thy ===== *)
theory Report
  imports Memory Pmm Log
begin

text \<open>
  The diagnostic summaries of \<^verbatim>\<open>src/kernel/memory.c\<close> and \<^verbatim>\<open>mm/pmm.c\<close>, and the strings of
  \<^verbatim>\<open>include/kernel/core/version.h\<close>.  Each summary is a sequence of log calls; the theorems give the
  text that appears.
\<close>

section \<open>version.h\<close>

definition WIGOSX_VERSION_STRING :: cstring where "WIGOSX_VERSION_STRING = ''0.016.1''"
definition WIGOSX_STAGE_NUMBER_STRING :: cstring where "WIGOSX_STAGE_NUMBER_STRING = ''16.1''"
definition WIGOSX_STAGE_NAME :: cstring where "WIGOSX_STAGE_NAME = ''Initial kernel heap backing region''"
definition WIGOSX_STAGE_LABEL :: cstring where
  "WIGOSX_STAGE_LABEL = ''Stage '' @ WIGOSX_STAGE_NUMBER_STRING @ '': '' @ WIGOSX_STAGE_NAME"

lemma stage_label_no_NUL: "NUL \<notin> set WIGOSX_STAGE_LABEL" "NUL \<notin> set WIGOSX_VERSION_STRING"
  by (simp_all add: WIGOSX_STAGE_LABEL_def WIGOSX_STAGE_NUMBER_STRING_def WIGOSX_STAGE_NAME_def
      WIGOSX_VERSION_STRING_def)

section \<open>The summaries\<close>

definition memory_print_kib :: "u64 \<Rightarrow> 'a klog_scheme \<Rightarrow> 'a klog_scheme option" where
  "memory_print_kib bytes = run_steps [klog_write_uint64 (bytes div 1024), log_puts '' KB'']"

text \<open>The body of the loop over the stored regions.\<close>

definition memory_print_region :: "memory \<Rightarrow> nat \<Rightarrow> 'a klog_scheme \<Rightarrow> 'a klog_scheme option" where
  "memory_print_region st i s = do {
     r \<leftarrow> aread (memory_regions st) i;
     run_steps [
       log_puts ''Region '', klog_write_uint64 (of_nat i), log_puts '': '',
       log_puts (memory_region_type_name (region_type r)),
       log_puts '', base='', memory_print_kib (base_address r),
       log_puts '', length='', memory_print_kib (region_length r),
       log_putc (CHR 0x0A)] s
   }"

definition memory_print_summary :: "memory \<Rightarrow> 'a klog_scheme \<Rightarrow> 'a klog_scheme option" where
  "memory_print_summary st = run_steps ([
     log_puts WIGOSX_STAGE_LABEL,
     log_puts (''.'' @ [CHR 0x0A])] @
     (if memory_basic_available st then [
        log_puts ''Lower memory: '', klog_write_uint64 (ucast (memory_lower_kb st)), log_puts ('' KB'' @ [CHR 0x0A]),
        log_puts ''Upper memory: '', klog_write_uint64 (ucast (memory_upper_kb st)), log_puts ('' KB'' @ [CHR 0x0A])]
      else [log_puts (''Basic memory information: unavailable'' @ [CHR 0x0A])]) @
     (if \<not> memory_map_available st then [log_puts (''Memory map: unavailable'' @ [CHR 0x0A])]
      else [
        log_puts (''Memory map: available and normalized'' @ [CHR 0x0A]),
        log_puts ''Stored memory regions: '', klog_write_uint64 (ucast (memory_region_count st)), log_putc (CHR 0x0A),
        log_puts ''Usable memory regions: '', klog_write_uint64 (ucast (memory_usable_region_count st)), log_putc (CHR 0x0A),
        log_puts ''Reserved memory regions: '', klog_write_uint64 (ucast (memory_reserved_region_count st)), log_putc (CHR 0x0A),
        log_puts ''Total usable memory: '', memory_print_kib (memory_total_usable_bytes st), log_putc (CHR 0x0A),
        log_puts ''Total reserved memory: '', memory_print_kib (memory_total_reserved_bytes st), log_putc (CHR 0x0A)] @
        (if memory_map_truncated st
         then [log_puts (''WARNING: memory map truncated; increase MEMORY_MAX_REGIONS.'' @ [CHR 0x0A])] else []) @
        [for_range 0 (unat (memory_region_count st)) (memory_print_region st)]))"

definition pmm_print_summary :: "pmm \<Rightarrow> 'a klog_scheme \<Rightarrow> 'a klog_scheme option" where
  "pmm_print_summary st = run_steps [
     log_puts WIGOSX_STAGE_LABEL,
     log_puts (''.'' @ [CHR 0x0A]),
     log_puts ''PMM frame size: '', klog_write_uint32 PMM_FRAME_SIZE, log_puts ('' bytes'' @ [CHR 0x0A]),
     log_puts ''Tracked frames: '', klog_write_uint32 (pmm_total_frames st), log_putc (CHR 0x0A),
     log_puts ''Free frames: '', klog_write_uint32 (pmm_free_frames st), log_putc (CHR 0x0A),
     log_puts ''Used/reserved frames: '', klog_write_uint32 (pmm_used_frames st), log_putc (CHR 0x0A)]"

section \<open>What they show\<close>

definition kib_text :: "nat \<Rightarrow> string" where
  "kib_text bytes = decimal_text (bytes div 1024) @ '' KB''"

definition region_text :: "nat \<Rightarrow> memory_region \<Rightarrow> string" where
  "region_text i r = ''Region '' @ decimal_text i @ '': '' @ (if usable r then ''usable'' else ''reserved'') @
     '', base='' @ kib_text (unat (base_address r)) @
     '', length='' @ kib_text (unat (region_length r)) @ [CHR 0x0A]"

definition memory_summary_text :: "memory \<Rightarrow> string" where
  "memory_summary_text st = WIGOSX_STAGE_LABEL @ ''.'' @ [CHR 0x0A] @
     (if memory_basic_available st
      then ''Lower memory: '' @ decimal_text (unat (memory_lower_kb st)) @ '' KB'' @ [CHR 0x0A] @
           ''Upper memory: '' @ decimal_text (unat (memory_upper_kb st)) @ '' KB'' @ [CHR 0x0A]
      else ''Basic memory information: unavailable'' @ [CHR 0x0A]) @
     (if \<not> memory_map_available st then ''Memory map: unavailable'' @ [CHR 0x0A]
      else ''Memory map: available and normalized'' @ [CHR 0x0A] @
        ''Stored memory regions: '' @ decimal_text (unat (memory_region_count st)) @ [CHR 0x0A] @
        ''Usable memory regions: '' @ decimal_text (unat (memory_usable_region_count st)) @ [CHR 0x0A] @
        ''Reserved memory regions: '' @ decimal_text (unat (memory_reserved_region_count st)) @ [CHR 0x0A] @
        ''Total usable memory: '' @ kib_text (unat (memory_total_usable_bytes st)) @ [CHR 0x0A] @
        ''Total reserved memory: '' @ kib_text (unat (memory_total_reserved_bytes st)) @ [CHR 0x0A] @
        (if memory_map_truncated st
         then ''WARNING: memory map truncated; increase MEMORY_MAX_REGIONS.'' @ [CHR 0x0A] else []) @
        concat (map (\<lambda>i. region_text i (acell (memory_regions st) i)) [0..<unat (memory_region_count st)]))"

definition pmm_summary_text :: "pmm \<Rightarrow> string" where
  "pmm_summary_text st = WIGOSX_STAGE_LABEL @ ''.'' @ [CHR 0x0A] @
     ''PMM frame size: 4096 bytes'' @ [CHR 0x0A] @
     ''Tracked frames: '' @ decimal_text (unat (pmm_total_frames st)) @ [CHR 0x0A] @
     ''Free frames: '' @ decimal_text (unat (pmm_free_frames st)) @ [CHR 0x0A] @
     ''Used/reserved frames: '' @ decimal_text (unat (pmm_used_frames st)) @ [CHR 0x0A]"

lemma log_prints_eq: "log_prints f t \<Longrightarrow> t = u \<Longrightarrow> log_prints f u"
  by simp

lemma log_prints_label: "log_prints (log_puts WIGOSX_STAGE_LABEL) WIGOSX_STAGE_LABEL"
  by (rule log_prints_puts) (simp add: c_text_no_NUL stage_label_no_NUL)

lemma log_prints_kib: "log_prints (memory_print_kib b) (kib_text (unat b))"
proof -
  have "log_prints (memory_print_kib b) (concat [decimal_text (unat (b div 1024)), '' KB''])"
    unfolding memory_print_kib_def
    by (intro klog.prints_steps list.rel_intros log_prints_number log_prints_puts) (simp_all add: c_text_no_NUL)
  then show ?thesis by (rule log_prints_eq) (simp add: kib_text_def unat_div)
qed

lemma log_prints_region:
  assumes "i < alen (memory_regions st)" "i < 18446744073709551616"
  shows "log_prints (memory_print_region st i) (region_text i (acell (memory_regions st) i))"
proof -
  let ?r = "acell (memory_regions st) i"
  let ?fs = "[log_puts ''Region '', klog_write_uint64 (of_nat i), log_puts '': '',
       log_puts (memory_region_type_name (region_type ?r)),
       log_puts '', base='', memory_print_kib (base_address ?r),
       log_puts '', length='', memory_print_kib (region_length ?r), log_putc (CHR 0x0A)]"
  have shown: "log_prints (run_steps ?fs) (concat [''Region '', decimal_text (unat (of_nat i :: u64)), '': '',
      if usable ?r then ''usable'' else ''reserved'', '', base='', kib_text (unat (base_address ?r)),
      '', length='', kib_text (unat (region_length ?r)), [CHR 0x0A]])"
    by (intro klog.prints_steps list.rel_intros log_prints_number log_prints_puts log_prints_kib klog.prints_putc)
       (simp_all add: c_text_no_NUL memory_region_type_name_def usable_def)
  have eq: "memory_print_region st i = run_steps ?fs"
    using assms(1) by (simp add: memory_print_region_def fun_eq_iff)
  show ?thesis unfolding eq
    by (rule log_prints_eq [OF shown]) (use assms(2) in \<open>simp add: region_text_def unat_of_nat\<close>)
qed

lemma log_prints_regions:
  assumes "unat (memory_region_count st) \<le> alen (memory_regions st)"
  shows "log_prints (for_range 0 (unat (memory_region_count st)) (memory_print_region st))
     (concat (map (\<lambda>i. region_text i (acell (memory_regions st) i)) [0..<unat (memory_region_count st)]))"
  using assms unat_lt_u32 [of "memory_region_count st"]
  by (intro klog.prints_for_range log_prints_region) simp_all

lemmas log_prints_all = klog.prints_steps list.rel_intros log_prints_number log_prints_label
  log_prints_puts log_prints_kib log_prints_regions klog.prints_putc

lemma pmm_print_summary_prints: "log_prints (pmm_print_summary st) (pmm_summary_text st)"
proof -
  have shown: "log_prints (pmm_print_summary st) (concat [WIGOSX_STAGE_LABEL, ''.'' @ [CHR 0x0A],
      ''PMM frame size: '', decimal_text (unat PMM_FRAME_SIZE), '' bytes'' @ [CHR 0x0A],
      ''Tracked frames: '', decimal_text (unat (pmm_total_frames st)), [CHR 0x0A],
      ''Free frames: '', decimal_text (unat (pmm_free_frames st)), [CHR 0x0A],
      ''Used/reserved frames: '', decimal_text (unat (pmm_used_frames st)), [CHR 0x0A]])"
    unfolding pmm_print_summary_def by (intro log_prints_all) (simp_all add: c_text_no_NUL)
  have "decimal_text (unat PMM_FRAME_SIZE) = ''4096''"
    by (simp add: PMM_FRAME_SIZE_def decimal_text_def rdigits_pos char_of_def bit_0)
  then show ?thesis by (intro log_prints_eq [OF shown]) (simp add: pmm_summary_text_def)
qed

lemma memory_print_summary_prints:
  assumes "unat (memory_region_count st) \<le> alen (memory_regions st)"
  shows "log_prints (memory_print_summary st) (memory_summary_text st)"
proof -
  let ?c = "\<lambda>v. decimal_text (unat (ucast v :: u64))"
  let ?regions = "concat (map (\<lambda>i. region_text i (acell (memory_regions st) i)) [0..<unat (memory_region_count st)])"
  have "log_prints (memory_print_summary st) (concat ([WIGOSX_STAGE_LABEL, ''.'' @ [CHR 0x0A]] @
     (if memory_basic_available st then [
        ''Lower memory: '', ?c (memory_lower_kb st), '' KB'' @ [CHR 0x0A],
        ''Upper memory: '', ?c (memory_upper_kb st), '' KB'' @ [CHR 0x0A]]
      else [''Basic memory information: unavailable'' @ [CHR 0x0A]]) @
     (if \<not> memory_map_available st then [''Memory map: unavailable'' @ [CHR 0x0A]]
      else [''Memory map: available and normalized'' @ [CHR 0x0A],
        ''Stored memory regions: '', ?c (memory_region_count st), [CHR 0x0A],
        ''Usable memory regions: '', ?c (memory_usable_region_count st), [CHR 0x0A],
        ''Reserved memory regions: '', ?c (memory_reserved_region_count st), [CHR 0x0A],
        ''Total usable memory: '', kib_text (unat (memory_total_usable_bytes st)), [CHR 0x0A],
        ''Total reserved memory: '', kib_text (unat (memory_total_reserved_bytes st)), [CHR 0x0A]] @
        (if memory_map_truncated st
         then [''WARNING: memory map truncated; increase MEMORY_MAX_REGIONS.'' @ [CHR 0x0A]] else []) @
        [?regions])))"
    unfolding memory_print_summary_def
    using assms
    by (intro klog.prints_steps list_all2_appendI;
        cases "memory_basic_available st"; cases "memory_map_available st"; cases "memory_map_truncated st";
        simp only: if_True if_False simp_thms append.simps; intro log_prints_all; simp add: c_text_no_NUL)
  then show ?thesis by (rule log_prints_eq) (simp add: memory_summary_text_def)
qed

section \<open>Properties\<close>

text \<open>
  The \<open>mem\<close> summary lists the whole stored map: after the header and the totals, one line for
  every stored region, in order, with its number, type, base and length in whole KiB.  It cannot
  fault for any map that satisfies the module's invariant, and changes nothing but the output.
\<close>

theorem memory_summary_lists_map:
  assumes "memory_inv st" "console_ok s"
  shows "\<exists>s' head. memory_print_summary st s = Some s' \<and> console_ok s' \<and> klog_frame s s' \<and>
     screen s' = fold ts_putchar (head @
       (if memory_map_available st
        then concat (map2 region_text [0..<unat (memory_get_region_count st)] (stored_regions st))
        else ''Memory map: unavailable'' @ [CHR 0x0A])) (screen s)"
proof -
  have n: "unat (memory_region_count st) \<le> alen (memory_regions st)"
    using assms(1) by (simp add: memory_inv_def)
  from prints_onD [OF memory_print_summary_prints [OF n] assms(2)] obtain s' where
    s': "memory_print_summary st s = Some s'" "console_ok s'" "klog_frame s s'"
      "screen s' = fold ts_putchar (memory_summary_text st) (screen s)" by blast
  have "map (\<lambda>i. region_text i (acell (memory_regions st) i)) [0..<unat (memory_region_count st)] =
      map2 region_text [0..<unat (memory_region_count st)] (stored_regions st)"
    using n by (intro nth_equalityI) (simp_all add: stored_regions_def)
  then have "\<exists>head. memory_summary_text st = head @
      (if memory_map_available st
       then concat (map2 region_text [0..<unat (memory_get_region_count st)] (stored_regions st))
       else ''Memory map: unavailable'' @ [CHR 0x0A])"
    unfolding memory_summary_text_def memory_get_region_count_def
    by (simp only: if_distrib [where f = Not] cong: if_cong)
       (cases "memory_map_available st"; simp only: if_True if_False simp_thms append_assoc [symmetric]; blast)
  then show ?thesis using s' by metis
qed

lemma memory_summary_lists_map_witness:
  "\<exists>s'. memory_print_summary memory_static sample_klog = Some s' \<and> console_ok s'"
proof -
  have "memory_inv memory_static" by (simp add: memory_inv_def memory_static_def stored_regions_def MEMORY_MAX_REGIONS_def)
  from memory_summary_lists_map [OF this sample_console_ok] show ?thesis by blast
qed

text \<open>
  The \<open>pmm\<close> summary of a well-formed allocator prints the number of tracked frames, the number
  of free frames and the number of the others, which are the sizes of those sets.
\<close>

theorem pmm_summary_counts_frames:
  assumes "pmm_wf st" "console_ok s"
  shows "\<exists>s'. pmm_print_summary st s = Some s' \<and> console_ok s' \<and> klog_frame s s' \<and>
     screen s' = fold ts_putchar (WIGOSX_STAGE_LABEL @ ''.'' @ [CHR 0x0A] @
       ''PMM frame size: 4096 bytes'' @ [CHR 0x0A] @
       ''Tracked frames: '' @ decimal_text (unat (pmm_total_frames st)) @ [CHR 0x0A] @
       ''Free frames: '' @ decimal_text (card (free_set st)) @ [CHR 0x0A] @
       ''Used/reserved frames: '' @ decimal_text (unat (pmm_total_frames st) - card (free_set st)) @ [CHR 0x0A])
       (screen s)"
proof -
  have c: "card (free_set st) = unat (pmm_free_frames st)"
    "unat (pmm_total_frames st) - unat (pmm_free_frames st) = unat (pmm_used_frames st)"
    using assms(1) by (auto simp: pmm_wf_def)
  show ?thesis using prints_onD [OF pmm_print_summary_prints assms(2), of st]
    unfolding pmm_summary_text_def c by blast
qed

lemma pmm_summary_counts_frames_witness:
  "\<exists>s'. pmm_print_summary sample_pmm sample_klog = Some s' \<and> console_ok s'"
proof -
  have "pmm_wf sample_pmm" using sample_running by (simp add: pmm_running_def pmm_inv_def)
  from pmm_summary_counts_frames [OF this sample_console_ok] show ?thesis by blast
qed

end
