(* ===== verification/Layout.thy ===== *)
theory Layout
  imports Prelude
begin

text \<open>
  The addresses the linker fixes (\<^verbatim>\<open>linker/kernel.ld\<close>): the symbols the C code takes the
  address of and the static objects whose addresses it hands to the CPU or reserves.  They
  are a parameter of the model.  \<open>layout_ok\<close> collects what the linker script and the
  alignment attributes promise about them.
\<close>

record layout =
  kernel_start_addr :: u32
  kernel_end_addr :: u32
  heap_start_addr :: u32
  heap_end_addr :: u32
  pmm_bitmap_addr :: u32
  pmm_allocated_bitmap_addr :: u32
  paging_directory_addr :: u32
  paging_tables_addr :: u32
  gdt_entries_addr :: u32
  idt_entries_addr :: u32
  isr_stub_addr :: "nat \<Rightarrow> u32"
  irq_stub_addr :: "nat \<Rightarrow> u32"

text \<open>An object of \<open>n\<close> bytes at \<open>a\<close> lies inside the kernel image.\<close>

definition in_image :: "layout \<Rightarrow> u32 \<Rightarrow> nat \<Rightarrow> bool" where
  "in_image L a n \<longleftrightarrow>
     unat (kernel_start_addr L) \<le> unat a \<and> unat a + n \<le> unat (kernel_end_addr L)"

text \<open>
  The image starts at 2 MiB; the heap region is 256 KiB, page aligned, and ends the image; the
  bitmaps (128 KiB each) and the page tables lie in the image, the latter page aligned and
  apart from each other.
\<close>

definition layout_ok :: "layout \<Rightarrow> bool" where
  "layout_ok L \<longleftrightarrow>
     kernel_start_addr L = 0x200000 \<and>
     unat (kernel_start_addr L) < unat (heap_start_addr L) \<and>
     unat (heap_start_addr L) + 0x40000 = unat (heap_end_addr L) \<and>
     heap_end_addr L = kernel_end_addr L \<and>
     unat (heap_start_addr L) mod 4096 = 0 \<and>
     in_image L (pmm_bitmap_addr L) 131072 \<and>
     in_image L (pmm_allocated_bitmap_addr L) 131072 \<and>
     in_image L (paging_directory_addr L) 4096 \<and> unat (paging_directory_addr L) mod 4096 = 0 \<and>
     in_image L (paging_tables_addr L) 16384 \<and> unat (paging_tables_addr L) mod 4096 = 0 \<and>
     (unat (paging_directory_addr L) + 4096 \<le> unat (paging_tables_addr L) \<or>
      unat (paging_tables_addr L) + 16384 \<le> unat (paging_directory_addr L))"

text \<open>One possible link: an image of 1 MiB.\<close>

definition sample_layout :: layout where
  "sample_layout = \<lparr>
     kernel_start_addr = 0x200000,
     kernel_end_addr = 0x300000,
     heap_start_addr = 0x2C0000,
     heap_end_addr = 0x300000,
     pmm_bitmap_addr = 0x220000,
     pmm_allocated_bitmap_addr = 0x240000,
     paging_directory_addr = 0x260000,
     paging_tables_addr = 0x261000,
     gdt_entries_addr = 0x270000,
     idt_entries_addr = 0x271000,
     isr_stub_addr = (\<lambda>i. 0x200100 + 16 * of_nat i),
     irq_stub_addr = (\<lambda>i. 0x200400 + 16 * of_nat i)\<rparr>"

lemma sample_layout_ok: "layout_ok sample_layout"
  by (simp add: layout_ok_def sample_layout_def in_image_def)

end
