(* ===== verification/Paging.thy ===== *)
theory Paging
  imports Layout Log
begin

text \<open>
  \<^verbatim>\<open>arch/i386/memory/paging.c\<close> and \<^verbatim>\<open>mm/vmm.c\<close>: the static identity page tables, CR3 and CR0.
  \<open>translate\<close> is the processor's two-level page walk over the physical words that hold those
  tables; the theorems say which addresses it maps, and where.
\<close>

section \<open>paging.c\<close>

definition I386_PAGING_PAGE_SIZE :: u32 where "I386_PAGING_PAGE_SIZE = 4096"
definition I386_PAGING_IDENTITY_MAPPED_BYTES :: u32 where
  "I386_PAGING_IDENTITY_MAPPED_BYTES = 16 * 1024 * 1024"
definition I386_PAGE_DIRECTORY_ENTRY_COUNT :: u32 where "I386_PAGE_DIRECTORY_ENTRY_COUNT = 1024"
definition I386_PAGE_TABLE_ENTRY_COUNT :: u32 where "I386_PAGE_TABLE_ENTRY_COUNT = 1024"
definition I386_PAGE_PRESENT :: u32 where "I386_PAGE_PRESENT = 0x001"
definition I386_PAGE_WRITABLE :: u32 where "I386_PAGE_WRITABLE = 0x002"
definition I386_PAGE_FLAGS :: u32 where "I386_PAGE_FLAGS = I386_PAGE_PRESENT OR I386_PAGE_WRITABLE"
definition I386_CR0_PAGING_ENABLE :: u32 where "I386_CR0_PAGING_ENABLE = 0x80000000"
definition I386_PAGE_TABLE_COUNT :: u32 where
  "I386_PAGE_TABLE_COUNT =
     I386_PAGING_IDENTITY_MAPPED_BYTES div (I386_PAGING_PAGE_SIZE * I386_PAGE_TABLE_ENTRY_COUNT)"

record paging =
  paging_directory :: "u32 carray"
  paging_tables :: "u32 carray carray"
  paging_initialized :: bool

definition paging_static :: paging where
  "paging_static = \<lparr>
     paging_directory = afill (unat I386_PAGE_DIRECTORY_ENTRY_COUNT) 0,
     paging_tables = afill (unat I386_PAGE_TABLE_COUNT) (afill (unat I386_PAGE_TABLE_ENTRY_COUNT) 0),
     paging_initialized = False\<rparr>"

definition i386_read_cr0 :: "'a machine_scheme \<Rightarrow> u32" where
  "i386_read_cr0 m = reg_cr0 m"

definition i386_write_cr0 :: "u32 \<Rightarrow> 'a machine_scheme \<Rightarrow> 'a machine_scheme" where
  "i386_write_cr0 value m = m\<lparr>reg_cr0 := value\<rparr>"

definition i386_write_cr3 :: "u32 \<Rightarrow> 'a machine_scheme \<Rightarrow> 'a machine_scheme" where
  "i386_write_cr3 value m = m\<lparr>reg_cr3 := value\<rparr>"

text \<open>The stores \<open>paging_directory[i] = v\<close> and \<open>paging_tables[table][page] = v\<close>.\<close>

definition set_directory :: "nat \<Rightarrow> u32 \<Rightarrow> paging \<Rightarrow> paging option" where
  "set_directory i v p = do {
     d \<leftarrow> awrite (paging_directory p) i v;
     Some (p\<lparr>paging_directory := d\<rparr>)
   }"

definition set_page :: "nat \<Rightarrow> nat \<Rightarrow> u32 \<Rightarrow> paging \<Rightarrow> paging option" where
  "set_page table page v p = do {
     row \<leftarrow> aread (paging_tables p) table;
     row' \<leftarrow> awrite row page v;
     rows \<leftarrow> awrite (paging_tables p) table row';
     Some (p\<lparr>paging_tables := rows\<rparr>)
   }"

definition i386_paging_clear_tables :: "paging \<Rightarrow> paging option" where
  "i386_paging_clear_tables p = do {
     p1 \<leftarrow> for_range 0 (unat I386_PAGE_DIRECTORY_ENTRY_COUNT) (\<lambda>i. set_directory i 0) p;
     for_range 0 (unat I386_PAGE_TABLE_COUNT) (\<lambda>table.
       for_range 0 (unat I386_PAGE_TABLE_ENTRY_COUNT) (\<lambda>page. set_page table page 0)) p1
   }"

text \<open>Row \<open>table\<close> of \<open>paging_tables\<close> starts 4096 bytes after the previous one.\<close>

definition paging_table_address :: "layout \<Rightarrow> nat \<Rightarrow> u32" where
  "paging_table_address L table = paging_tables_addr L + of_nat table * (4 * I386_PAGE_TABLE_ENTRY_COUNT)"

definition i386_paging_build_identity_map :: "layout \<Rightarrow> paging \<Rightarrow> paging option" where
  "i386_paging_build_identity_map L p =
     for_range 0 (unat I386_PAGE_TABLE_COUNT) (\<lambda>table p. do {
       p1 \<leftarrow> for_range 0 (unat I386_PAGE_TABLE_ENTRY_COUNT) (\<lambda>page.
         let page_index = of_nat table * I386_PAGE_TABLE_ENTRY_COUNT + of_nat page;
             physical_address = page_index * I386_PAGING_PAGE_SIZE
         in set_page table page (physical_address OR I386_PAGE_FLAGS)) p;
       set_directory table (paging_table_address L table OR I386_PAGE_FLAGS) p1
     }) p"

definition i386_paging_is_enabled :: "'a machine_scheme \<Rightarrow> bool" where
  "i386_paging_is_enabled m \<longleftrightarrow> i386_read_cr0 m AND I386_CR0_PAGING_ENABLE \<noteq> 0"

definition i386_paging_initialize_identity ::
  "layout \<Rightarrow> paging \<Rightarrow> 'a machine_scheme \<Rightarrow> (paging \<times> 'a machine_scheme) option" where
  "i386_paging_initialize_identity L p m = do {
     p1 \<leftarrow> i386_paging_clear_tables p;
     p2 \<leftarrow> i386_paging_build_identity_map L p1;
     let m1 = i386_write_cr3 (paging_directory_addr L) m;
     let m2 = i386_write_cr0 (i386_read_cr0 m1 OR I386_CR0_PAGING_ENABLE) m1;
     Some (p2\<lparr>paging_initialized := i386_paging_is_enabled m2\<rparr>, m2)
   }"

definition i386_paging_get_identity_mapped_bytes :: "paging \<Rightarrow> u32" where
  "i386_paging_get_identity_mapped_bytes p =
     (if \<not> paging_initialized p then 0 else I386_PAGING_IDENTITY_MAPPED_BYTES)"

section \<open>vmm.c\<close>

record vmm = vmm_initialized :: bool

definition vmm_static :: vmm where "vmm_static = \<lparr>vmm_initialized = False\<rparr>"

definition vmm_initialize ::
  "layout \<Rightarrow> paging \<Rightarrow> vmm \<Rightarrow> 'a machine_scheme \<Rightarrow> (kernel_status \<times> paging \<times> vmm \<times> 'a machine_scheme) option"
  where
  "vmm_initialize L p v m = do {
     (p1, m1) \<leftarrow> i386_paging_initialize_identity L p m;
     let v1 = v\<lparr>vmm_initialized := i386_paging_is_enabled m1\<rparr>;
     if \<not> vmm_initialized v1 then Some (KERNEL_STATUS_HARDWARE_FAILURE, p1, v1, m1)
     else Some (KERNEL_STATUS_OK, p1, v1, m1)
   }"

definition vmm_is_enabled :: "vmm \<Rightarrow> 'a machine_scheme \<Rightarrow> bool" where
  "vmm_is_enabled v m \<longleftrightarrow> vmm_initialized v \<and> i386_paging_is_enabled m"

definition vmm_get_identity_mapped_bytes :: "paging \<Rightarrow> u32" where
  "vmm_get_identity_mapped_bytes p = i386_paging_get_identity_mapped_bytes p"

definition vmm_print_summary :: "paging \<Rightarrow> vmm \<Rightarrow> 'a klog_scheme \<Rightarrow> 'a klog_scheme option" where
  "vmm_print_summary p v = run_steps [
     log_puts ''Virtual memory manager: '',
     (\<lambda>s. if vmm_is_enabled v s then log_puts (''enabled'' @ [CHR 0x0A]) s
          else log_puts (''disabled'' @ [CHR 0x0A]) s),
     log_puts ''Identity-mapped bytes: '',
     klog_write_uint32 (vmm_get_identity_mapped_bytes p),
     log_putc (CHR 0x0A)]"

section \<open>The tables\<close>

definition paging_wf :: "paging \<Rightarrow> bool" where
  "paging_wf p \<longleftrightarrow> alen (paging_directory p) = 1024 \<and> alen (paging_tables p) = 4 \<and>
     (\<forall>t < 4. alen (acell (paging_tables p) t) = 1024)"

definition directory_entry :: "paging \<Rightarrow> nat \<Rightarrow> u32" where
  "directory_entry p i = acell (paging_directory p) i"

definition table_entry :: "paging \<Rightarrow> nat \<Rightarrow> nat \<Rightarrow> u32" where
  "table_entry p t i = acell (acell (paging_tables p) t) i"

lemma counts:
  "unat I386_PAGE_DIRECTORY_ENTRY_COUNT = 1024" "unat I386_PAGE_TABLE_ENTRY_COUNT = 1024"
  "unat I386_PAGE_TABLE_COUNT = 4"
  by (simp_all add: I386_PAGE_DIRECTORY_ENTRY_COUNT_def I386_PAGE_TABLE_ENTRY_COUNT_def
      I386_PAGE_TABLE_COUNT_def I386_PAGING_IDENTITY_MAPPED_BYTES_def I386_PAGING_PAGE_SIZE_def)

lemma set_directory_spec:
  assumes "paging_wf p" "i < 1024"
  shows "\<exists>p'. set_directory i v p = Some p' \<and> paging_wf p' \<and>
     directory_entry p' = (directory_entry p)(i := v) \<and> table_entry p' = table_entry p"
  using assms by (simp add: set_directory_def paging_wf_def directory_entry_def table_entry_def fun_eq_iff)

lemma set_page_spec:
  assumes "paging_wf p" "t < 4" "i < 1024"
  shows "\<exists>p'. set_page t i v p = Some p' \<and> paging_wf p' \<and> directory_entry p' = directory_entry p \<and>
     table_entry p' = (table_entry p)(t := (table_entry p t)(i := v))"
  using assms by (simp add: set_page_def paging_wf_def directory_entry_def table_entry_def fun_eq_iff)

text \<open>Filling one page table.\<close>

lemma fill_table:
  assumes "paging_wf p" "t < 4"
  shows "\<exists>p'. for_range 0 1024 (\<lambda>page. set_page t page (f page)) p = Some p' \<and> paging_wf p' \<and>
     directory_entry p' = directory_entry p \<and> (\<forall>i < 1024. table_entry p' t i = f i) \<and>
     (\<forall>u. u \<noteq> t \<longrightarrow> table_entry p' u = table_entry p u)"
proof -
  let ?P = "\<lambda>n q. paging_wf q \<and> directory_entry q = directory_entry p \<and>
     (\<forall>i < n. table_entry q t i = f i) \<and> (\<forall>u. u \<noteq> t \<longrightarrow> table_entry q u = table_entry p u)"
  show ?thesis
  proof (rule for_range_inv [where P = ?P])
    fix n q assume n: "n < 1024" and q: "?P n q"
    from set_page_spec [OF conjunct1 [OF q] assms(2) n, of "f n"] obtain q' where
      q': "set_page t n (f n) q = Some q'" "paging_wf q'" "directory_entry q' = directory_entry q"
        "table_entry q' = (table_entry q)(t := (table_entry q t)(n := f n))" by blast
    have "?P (Suc n) q'" using q q'(2-4) by (simp add: less_Suc_eq)
    with q'(1) show "\<exists>q'. set_page t n (f n) q = Some q' \<and> ?P (Suc n) q'" by blast
  qed (use assms in simp_all)
qed

lemma clear_tables_spec:
  assumes "paging_wf p"
  shows "\<exists>p'. i386_paging_clear_tables p = Some p' \<and> paging_wf p' \<and>
     (\<forall>i < 1024. directory_entry p' i = 0) \<and> (\<forall>t < 4. \<forall>i < 1024. table_entry p' t i = 0)"
proof -
  let ?D = "\<lambda>n q. paging_wf q \<and> (\<forall>i < n. directory_entry q i = 0)"
  have "\<exists>q. for_range 0 1024 (\<lambda>i. set_directory i 0) p = Some q \<and> ?D 1024 q"
  proof (rule for_range_inv [where P = ?D])
    fix n q assume n: "n < 1024" and q: "?D n q"
    from set_directory_spec [OF conjunct1 [OF q] n, of 0] obtain q' where
      q': "set_directory n 0 q = Some q'" "paging_wf q'" "directory_entry q' = (directory_entry q)(n := 0)"
      by blast
    have "?D (Suc n) q'" using q q'(2-3) by (simp add: less_Suc_eq)
    with q'(1) show "\<exists>q'. set_directory n 0 q = Some q' \<and> ?D (Suc n) q'" by blast
  qed (use assms in simp_all)
  then obtain p1 where p1: "for_range 0 1024 (\<lambda>i. set_directory i 0) p = Some p1" "?D 1024 p1" by blast
  let ?T = "\<lambda>n q. ?D 1024 q \<and> (\<forall>t < n. \<forall>i < 1024. table_entry q t i = 0)"
  have "\<exists>q. for_range 0 4 (\<lambda>table. for_range 0 1024 (\<lambda>page. set_page table page 0)) p1 = Some q \<and> ?T 4 q"
  proof (rule for_range_inv [where P = ?T])
    fix n q assume n: "n < 4" and q: "?T n q"
    from fill_table [OF _ n, of q "\<lambda>_. 0"] q obtain q' where
      q': "for_range 0 1024 (\<lambda>page. set_page n page 0) q = Some q'" "paging_wf q'"
        "directory_entry q' = directory_entry q" "\<forall>i < 1024. table_entry q' n i = 0"
        "\<forall>u. u \<noteq> n \<longrightarrow> table_entry q' u = table_entry q u" by blast
    have "?T (Suc n) q'" using q q'(2-5) by (auto simp: less_Suc_eq)
    with q'(1) show "\<exists>q'. for_range 0 1024 (\<lambda>page. set_page n page 0) q = Some q' \<and> ?T (Suc n) q'" by blast
  qed (use p1 in simp_all)
  then show ?thesis using p1 by (auto simp: i386_paging_clear_tables_def counts)
qed

text \<open>The entry of page \<open>k\<close> of the identity map.\<close>

definition identity_entry :: "nat \<Rightarrow> u32" where
  "identity_entry k = of_nat k * I386_PAGING_PAGE_SIZE OR I386_PAGE_FLAGS"

lemma build_identity_map_spec:
  assumes "paging_wf p"
  shows "\<exists>p'. i386_paging_build_identity_map L p = Some p' \<and> paging_wf p' \<and>
     (\<forall>t < 4. directory_entry p' t = paging_table_address L t OR I386_PAGE_FLAGS) \<and>
     (\<forall>i. 4 \<le> i \<longrightarrow> directory_entry p' i = directory_entry p i) \<and>
     (\<forall>t < 4. \<forall>i < 1024. table_entry p' t i = identity_entry (1024 * t + i))"
proof -
  let ?P = "\<lambda>n q. paging_wf q \<and> (\<forall>i. 4 \<le> i \<longrightarrow> directory_entry q i = directory_entry p i) \<and>
     (\<forall>t < n. directory_entry q t = paging_table_address L t OR I386_PAGE_FLAGS) \<and>
     (\<forall>t < n. \<forall>i < 1024. table_entry q t i = identity_entry (1024 * t + i))"
  let ?body = "\<lambda>t q. for_range 0 1024 (\<lambda>i. set_page t i (identity_entry (1024 * t + i))) q \<bind>
     set_directory t (paging_table_address L t OR I386_PAGE_FLAGS)"
  have entry: "(of_nat t * I386_PAGE_TABLE_ENTRY_COUNT + of_nat i) * I386_PAGING_PAGE_SIZE OR I386_PAGE_FLAGS =
      identity_entry (1024 * t + i)" for t i
    by (simp add: identity_entry_def I386_PAGE_TABLE_ENTRY_COUNT_def algebra_simps)
  have body: "i386_paging_build_identity_map L p = for_range 0 4 ?body p"
    unfolding i386_paging_build_identity_map_def counts Let_def entry ..
  have "\<exists>q. for_range 0 4 ?body p = Some q \<and> ?P 4 q"
  proof (rule for_range_inv [where P = ?P])
    fix n q assume n: "n < 4" and q: "?P n q"
    from fill_table [OF conjunct1 [OF q] n, of "\<lambda>i. identity_entry (1024 * n + i)"] obtain q1 where
      q1: "for_range 0 1024 (\<lambda>i. set_page n i (identity_entry (1024 * n + i))) q = Some q1" "paging_wf q1"
        "directory_entry q1 = directory_entry q" "\<forall>i < 1024. table_entry q1 n i = identity_entry (1024 * n + i)"
        "\<forall>u. u \<noteq> n \<longrightarrow> table_entry q1 u = table_entry q u" by blast
    have "n < 1024" using n by simp
    from set_directory_spec [OF q1(2) this, of "paging_table_address L n OR I386_PAGE_FLAGS"] obtain q2 where
      q2: "set_directory n (paging_table_address L n OR I386_PAGE_FLAGS) q1 = Some q2" "paging_wf q2"
        "directory_entry q2 = (directory_entry q1)(n := paging_table_address L n OR I386_PAGE_FLAGS)"
        "table_entry q2 = table_entry q1" by blast
    have "?P (Suc n) q2" using n q q1(3-5) q2(2-4) by (auto simp: less_Suc_eq)
    then show "\<exists>s'. ?body n q = Some s' \<and> ?P (Suc n) s'" using q1(1) q2(1) by simp
  qed (use assms in simp_all)
  then show ?thesis unfolding body by blast
qed

section \<open>The page walk\<close>

text \<open>
  The physical words the processor reads: those of the two static objects hold their cells, and
  \<open>rest\<close> is the memory around them.
\<close>

definition phys_word :: "layout \<Rightarrow> paging \<Rightarrow> (u32 \<Rightarrow> u32) \<Rightarrow> u32 \<Rightarrow> u32" where
  "phys_word L p rest a =
     (let d = unat (a - paging_directory_addr L); t = unat (a - paging_tables_addr L) in
      if d < 4096 then directory_entry p (d div 4)
      else if t < 16384 then table_entry p (t div 4096) (t mod 4096 div 4)
      else rest a)"

text \<open>The address a linear address stands for, and whether it may be written; \<open>None\<close> is a page fault.\<close>

definition i386_translate :: "(u32 \<Rightarrow> u32) \<Rightarrow> u32 \<Rightarrow> u32 \<Rightarrow> (u32 \<times> bool) option" where
  "i386_translate word_at cr3 va =
     (let pde = word_at ((cr3 AND 0xFFFFF000) + 4 * drop_bit 22 va) in
      if \<not> bit pde 0 then None
      else
        let pte = word_at ((pde AND 0xFFFFF000) + 4 * (drop_bit 12 va AND 0x3FF)) in
        if \<not> bit pte 0 then None
        else Some ((pte AND 0xFFFFF000) OR (va AND 0xFFF), bit pde 1 \<and> bit pte 1))"

lemma page_mask: "x AND 0xFFFFF000 = push_bit 12 (drop_bit 12 x)" for x :: u32
proof -
  have "(0xFFFFF000 :: u32) = NOT (mask 12)" by (simp add: mask_eq_exp_minus_1)
  then have "x AND 0xFFFFF000 = x AND NOT (mask 12)" by simp
  also have "\<dots> = push_bit 12 (drop_bit 12 x)" by (auto simp: bit_eq_iff bit_simps not_le)
  finally show ?thesis .
qed

lemma low_bits: "x AND 0xFFF = take_bit 12 x" "x AND 0x3FF = take_bit 10 x" for x :: u32
  by (simp_all add: take_bit_eq_mask mask_eq_exp_minus_1)

lemma page_aligned: "unat x mod 4096 = 0 \<Longrightarrow> push_bit 12 (drop_bit 12 x) = x" for x :: u32
proof -
  assume "unat x mod 4096 = 0"
  then have "unat (take_bit 12 x) = 0" by (simp add: unat_take_bit_mod)
  then have "take_bit 12 x = 0" by (simp add: unat_eq_zero)
  then show ?thesis using bits_ident [of 12 x] by simp
qed

lemma flags_bits: "bit (x OR I386_PAGE_FLAGS) 0" "bit (x OR I386_PAGE_FLAGS) 1"
  "drop_bit 12 (x OR I386_PAGE_FLAGS) = drop_bit 12 x" for x :: u32
  by (simp_all add: I386_PAGE_FLAGS_def I386_PAGE_PRESENT_def I386_PAGE_WRITABLE_def bit_or_iff)

lemma walk_indices:
  fixes va :: u32
  defines "t \<equiv> unat va div 4194304" and "i \<equiv> unat va div 4096 mod 1024"
  shows "4 * drop_bit 22 va = of_nat (4 * t)" "4 * (drop_bit 12 va AND 0x3FF) = of_nat (4 * i)"
    "t < 1024" "i < 1024" "1024 * t + i = unat va div 4096"
proof -
  have "unat (drop_bit 22 va) = t" by (simp add: unat_drop_bit_div t_def)
  then have "drop_bit 22 va = of_nat t" by (rule of_nat_unat_eq [symmetric])
  then show "4 * drop_bit 22 va = of_nat (4 * t)" by simp
  have "unat (drop_bit 12 va AND 0x3FF) = i"
    unfolding low_bits by (simp add: unat_take_bit_mod unat_drop_bit_div i_def)
  then have "drop_bit 12 va AND 0x3FF = of_nat i" by (rule of_nat_unat_eq [symmetric])
  then show "4 * (drop_bit 12 va AND 0x3FF) = of_nat (4 * i)" by simp
  show "t < 1024" using unat_lt_u32 [of va] by (simp add: t_def div_less_iff_less_mult)
  show "i < 1024" by (simp add: i_def)
  have "t = unat va div 4096 div 1024" by (simp add: t_def div_mult2_eq [symmetric])
  then show "1024 * t + i = unat va div 4096" by (simp add: i_def)
qed

lemma identity_frame: "push_bit 12 (drop_bit 12 (identity_entry (unat va div 4096))) OR (va AND 0xFFF) = va"
proof -
  have "unat (drop_bit 12 va) = unat va div 4096" by (simp add: unat_drop_bit_div)
  then have k: "of_nat (unat va div 4096) = drop_bit 12 va" by (rule of_nat_unat_eq)
  have shift: "drop_bit 12 va * 4096 = push_bit 12 (drop_bit 12 va)" by (simp add: push_bit_eq_mult)
  show ?thesis
    unfolding identity_entry_def flags_bits k I386_PAGING_PAGE_SIZE_def shift low_bits
    by (rule bit_word_eqI) (auto simp: bit_simps)
qed

text \<open>Reading the two objects.\<close>

lemma word_in_directory: "n < 1024 \<Longrightarrow>
    phys_word L p rest (paging_directory_addr L + of_nat (4 * n)) = directory_entry p n"
proof -
  assume n: "n < 1024"
  have "unat (of_nat (4 * n) :: u32) = 4 * n" using n by (intro unat_of_nat_u32) simp
  then show ?thesis using n by (simp add: phys_word_def Let_def del: of_nat_mult)
qed

lemma word_in_table:
  assumes L: "layout_ok L" and t: "t < 4" and i: "i < 1024"
  shows "phys_word L p rest (paging_table_address L t + of_nat (4 * i)) = table_entry p t i"
proof -
  let ?D = "unat (paging_directory_addr L)" and ?T = "unat (paging_tables_addr L)"
  let ?o = "4096 * t + 4 * i"
  have o: "?o < 16384" using t i by simp
  have a: "paging_table_address L t + of_nat (4 * i) = paging_tables_addr L + of_nat ?o"
    by (simp add: paging_table_address_def I386_PAGE_TABLE_ENTRY_COUNT_def algebra_simps)
  have uo: "unat (of_nat ?o :: u32) = ?o" using o by (intro unat_of_nat_u32) simp
  have bounds: "?D + 4096 \<le> 4294967296" "?T + 16384 \<le> 4294967296"
    using L unat_lt_u32 [of "kernel_end_addr L"] by (auto simp: layout_ok_def in_image_def)
  have sum: "unat (paging_tables_addr L + of_nat ?o) = ?T + ?o"
    using uo bounds o by (subst unat_add_u32) simp_all
  have "\<not> unat (paging_tables_addr L + of_nat ?o - paging_directory_addr L) < 4096"
  proof (cases "?D + 4096 \<le> ?T")
    case True
    then have "paging_directory_addr L \<le> paging_tables_addr L + of_nat ?o"
      unfolding word_le_nat_alt sum by simp
    from unat_sub_word [OF this] show ?thesis unfolding sum using True by simp
  next
    case False
    then have ge: "?T + 16384 \<le> ?D" using L by (auto simp: layout_ok_def)
    show ?thesis unfolding unat_sub_if' sum using ge o bounds by simp
  qed
  then show ?thesis unfolding a phys_word_def Let_def using uo o i t
    by (simp del: of_nat_add of_nat_mult)
qed

section \<open>Initialization\<close>

lemma paging_enabled_after: "i386_paging_is_enabled (m\<lparr>reg_cr0 := x OR 0x80000000\<rparr>)"
proof -
  have "bit ((x OR 0x80000000) AND (0x80000000 :: u32)) 31"
    by (simp add: bit_and_iff bit_or_iff)
  then have "(x OR 0x80000000) AND (0x80000000 :: u32) \<noteq> 0" by (metis bit_0_eq bot_apply bot_bool_def)
  then show ?thesis
    by (simp add: i386_paging_is_enabled_def i386_read_cr0_def I386_CR0_PAGING_ENABLE_def)
qed

lemma initialize_identity_spec:
  assumes "paging_wf p"
  shows "\<exists>p'. (\<forall>m :: 'a machine_scheme. i386_paging_initialize_identity L p m =
       Some (p', m\<lparr>reg_cr3 := paging_directory_addr L, reg_cr0 := reg_cr0 m OR 0x80000000\<rparr>)) \<and>
     paging_wf p' \<and> paging_initialized p' \<and>
     (\<forall>t < 4. directory_entry p' t = paging_table_address L t OR I386_PAGE_FLAGS) \<and>
     (\<forall>t. 4 \<le> t \<longrightarrow> t < 1024 \<longrightarrow> directory_entry p' t = 0) \<and>
     (\<forall>t < 4. \<forall>i < 1024. table_entry p' t i = identity_entry (1024 * t + i))"
proof -
  from clear_tables_spec [OF assms] obtain p1 where
    p1: "i386_paging_clear_tables p = Some p1" "paging_wf p1" "\<forall>i < 1024. directory_entry p1 i = 0" by blast
  from build_identity_map_spec [OF p1(2), of L] obtain p2 where
    p2: "i386_paging_build_identity_map L p1 = Some p2" "paging_wf p2"
      "\<forall>t < 4. directory_entry p2 t = paging_table_address L t OR I386_PAGE_FLAGS"
      "\<forall>i. 4 \<le> i \<longrightarrow> directory_entry p2 i = directory_entry p1 i"
      "\<forall>t < 4. \<forall>i < 1024. table_entry p2 t i = identity_entry (1024 * t + i)" by blast
  let ?p = "p2\<lparr>paging_initialized := True\<rparr>"
  have "i386_paging_initialize_identity L p m =
      Some (?p, m\<lparr>reg_cr3 := paging_directory_addr L, reg_cr0 := reg_cr0 m OR 0x80000000\<rparr>)" for m :: "'a machine_scheme"
    using p1(1) p2(1) paging_enabled_after [of "reg_cr0 m" "m\<lparr>reg_cr3 := paging_directory_addr L\<rparr>"]
    by (simp add: i386_paging_initialize_identity_def i386_write_cr3_def i386_write_cr0_def i386_read_cr0_def
        I386_CR0_PAGING_ENABLE_def Let_def)
  moreover have "paging_wf ?p" using p2(2) by (simp add: paging_wf_def)
  moreover have "directory_entry ?p = directory_entry p2" "table_entry ?p = table_entry p2"
    by (simp_all add: directory_entry_def table_entry_def fun_eq_iff)
  ultimately show ?thesis using p1(3) p2(3-5) by (intro exI [of _ ?p]) simp
qed

lemma translate_identity:
  assumes L: "layout_ok L"
    and dir: "\<forall>t < 4. directory_entry p t = paging_table_address L t OR I386_PAGE_FLAGS"
    and none: "\<forall>t. 4 \<le> t \<longrightarrow> t < 1024 \<longrightarrow> directory_entry p t = 0"
    and tab: "\<forall>t < 4. \<forall>i < 1024. table_entry p t i = identity_entry (1024 * t + i)"
  shows "i386_translate (phys_word L p rest) (paging_directory_addr L) va =
     (if unat va < 16777216 then Some (va, True) else None)"
proof -
  let ?t = "unat va div 4194304" and ?i = "unat va div 4096 mod 1024"
  note idx = walk_indices [of va]
  have D: "push_bit 12 (drop_bit 12 (paging_directory_addr L)) = paging_directory_addr L"
    by (rule page_aligned) (use L in \<open>simp add: layout_ok_def\<close>)
  have pde: "phys_word L p rest (paging_directory_addr L + of_nat (4 * ?t)) = directory_entry p ?t"
    by (rule word_in_directory) (rule idx(3))
  show ?thesis
  proof (cases "unat va < 16777216")
    case True
    then have t: "?t < 4" by (simp add: div_less_iff_less_mult)
    have T: "push_bit 12 (drop_bit 12 (paging_table_address L ?t)) = paging_table_address L ?t"
    proof (rule page_aligned)
      have "unat (paging_tables_addr L) + 16384 \<le> 4294967296"
        using L unat_lt_u32 [of "kernel_end_addr L"] by (auto simp: layout_ok_def in_image_def)
      then have "unat (paging_tables_addr L + of_nat (?t * 4096)) = unat (paging_tables_addr L) + ?t * 4096"
        using t by (intro unat_add_of_nat_u32) linarith
      then show "unat (paging_table_address L ?t) mod 4096 = 0"
        using L by (simp add: paging_table_address_def I386_PAGE_TABLE_ENTRY_COUNT_def layout_ok_def)
    qed
    have pte: "phys_word L p rest (paging_table_address L ?t + of_nat (4 * ?i)) =
        identity_entry (unat va div 4096)"
      using word_in_table [OF L t idx(4), of p rest] tab t idx(4,5) by simp
    have pfl: "bit (identity_entry k) 0" "bit (identity_entry k) 1" for k
      unfolding identity_entry_def by (rule flags_bits)+
    show ?thesis
      unfolding i386_translate_def page_mask D idx(1,2) pde Let_def
      using True t by (simp only: dir flags_bits T pte pfl identity_frame if_True if_False simp_thms)
  next
    case False
    then have "4 \<le> ?t" by (simp add: le_div_geq less_eq_div_iff_mult_less_eq)
    then have "directory_entry p ?t = 0" using none idx(3) by blast
    then show ?thesis
      unfolding i386_translate_def page_mask D idx(1) pde Let_def using False by simp
  qed
qed

section \<open>The printed summary\<close>

definition vmm_summary_text :: "bool \<Rightarrow> u32 \<Rightarrow> string" where
  "vmm_summary_text enabled mapped =
     ''Virtual memory manager: '' @ (if enabled then ''enabled'' else ''disabled'') @ [CHR 0x0A] @
     ''Identity-mapped bytes: '' @ decimal_text (unat mapped) @ [CHR 0x0A]"

lemma vmm_print_summary_spec:
  assumes "console_ok s"
  shows "\<exists>s'. vmm_print_summary p v s = Some s' \<and> console_ok s' \<and>
     screen s' = fold ts_putchar (vmm_summary_text (vmm_is_enabled v s) (vmm_get_identity_mapped_bytes p)) (screen s) \<and>
     klog_frame s s'"
proof -
  let ?e = "vmm_is_enabled v s"
  have frame: "klog_frame s (klog_writestring (Some ''Virtual memory manager: '') s)"
    using klog.puts [OF assms] by blast
  then have e: "vmm_is_enabled v (klog_writestring (Some ''Virtual memory manager: '') s) = ?e"
    by (simp add: vmm_is_enabled_def i386_paging_is_enabled_def i386_read_cr0_def klog_frame_def)
  let ?fs = "[log_puts ''Virtual memory manager: '',
     log_puts ((if ?e then ''enabled'' else ''disabled'') @ [CHR 0x0A]),
     log_puts ''Identity-mapped bytes: '',
     klog_write_uint32 (vmm_get_identity_mapped_bytes p),
     log_putc (CHR 0x0A)]"
  have eq: "vmm_print_summary p v s = run_steps ?fs s"
    by (simp add: vmm_print_summary_def e)
  have shown: "vmm_summary_text ?e (vmm_get_identity_mapped_bytes p) = concat [''Virtual memory manager: '',
     (if ?e then ''enabled'' else ''disabled'') @ [CHR 0x0A], ''Identity-mapped bytes: '',
     decimal_text (unat (vmm_get_identity_mapped_bytes p)), [CHR 0x0A]]"
    by (simp add: vmm_summary_text_def)
  have "log_prints (run_steps ?fs) (vmm_summary_text ?e (vmm_get_identity_mapped_bytes p))"
    unfolding shown
    by (intro klog.prints_steps list.rel_intros log_prints_number klog.prints_putc log_prints_puts)
       (simp_all add: c_text_no_NUL)
  from prints_onD [OF this assms] show ?thesis unfolding eq .
qed

section \<open>Properties\<close>

lemma vmm_initialize_spec:
  assumes "layout_ok L" "paging_wf p"
  shows "\<exists>p'. (\<forall>m :: 'a machine_scheme. vmm_initialize L p v m = Some (KERNEL_STATUS_OK, p', v\<lparr>vmm_initialized := True\<rparr>,
        m\<lparr>reg_cr3 := paging_directory_addr L, reg_cr0 := reg_cr0 m OR I386_CR0_PAGING_ENABLE\<rparr>)) \<and>
     paging_wf p' \<and> unat (vmm_get_identity_mapped_bytes p') = 16 * 1024 * 1024 \<and>
     (\<forall>rest va. i386_translate (phys_word L p' rest) (paging_directory_addr L) va =
        (if unat va < 16 * 1024 * 1024 then Some (va, True) else None))"
proof -
  from initialize_identity_spec [OF assms(2), of L] obtain p' where
    run: "i386_paging_initialize_identity L p m =
      Some (p', m\<lparr>reg_cr3 := paging_directory_addr L, reg_cr0 := reg_cr0 m OR 0x80000000\<rparr>)"
    and wf: "paging_wf p'" and on: "paging_initialized p'"
    and dir: "\<forall>t < 4. directory_entry p' t = paging_table_address L t OR I386_PAGE_FLAGS"
    and none: "\<forall>t. 4 \<le> t \<longrightarrow> t < 1024 \<longrightarrow> directory_entry p' t = 0"
    and tab: "\<forall>t < 4. \<forall>i < 1024. table_entry p' t i = identity_entry (1024 * t + i)"
  for m :: "'a machine_scheme" by blast
  have bytes: "unat (vmm_get_identity_mapped_bytes p') = 16777216"
    using on by (simp add: vmm_get_identity_mapped_bytes_def i386_paging_get_identity_mapped_bytes_def
        I386_PAGING_IDENTITY_MAPPED_BYTES_def)
  have en: "i386_paging_is_enabled (m\<lparr>reg_cr3 := paging_directory_addr L, reg_cr0 := reg_cr0 m OR 0x80000000\<rparr>)"
    for m :: "'a machine_scheme"
    using paging_enabled_after [of "reg_cr0 m" "m\<lparr>reg_cr3 := paging_directory_addr L\<rparr>"] by simp
  have walk: "i386_translate (phys_word L p' rest) (paging_directory_addr L) va =
      (if unat va < 16777216 then Some (va, True) else None)" for rest va
    using translate_identity [OF assms(1) dir none tab, of rest va] by simp
  show ?thesis
    by (rule exI [of _ p'], unfold bytes walk)
       (use run wf en in \<open>simp add: vmm_initialize_def Let_def I386_CR0_PAGING_ENABLE_def\<close>)
qed

lemma vmm_enabled_after:
  fixes m :: "'a machine_scheme"
  shows "vmm_is_enabled (v\<lparr>vmm_initialized := True\<rparr>) (m\<lparr>reg_cr0 := x OR I386_CR0_PAGING_ENABLE\<rparr>)"
  using paging_enabled_after [of x m] by (simp add: vmm_is_enabled_def I386_CR0_PAGING_ENABLE_def)

text \<open>
  The instruction after the one that sets the paging bit is fetched through the new tables.  An image
  that ends within the mapped 16 MiB stays where it is; a larger one would fault at the fetch of an
  instruction beyond them, which \<open>vmm_initialize\<close> does not show.
\<close>

lemma image_stays_mapped:
  fixes m m' :: "'a machine_scheme"
  assumes L: "layout_ok L" and p: "paging_wf p" and small: "unat (kernel_end_addr L) \<le> 16 * 1024 * 1024"
    and run: "vmm_initialize L p v m = Some (status, p', v', m')"
    and a: "kernel_start_addr L \<le> a" "a < kernel_end_addr L"
  shows "i386_translate (phys_word L p' rest) (reg_cr3 m') a = Some (a, True)"
proof -
  from vmm_initialize_spec [where 'a = 'a, OF L p, of v] obtain q where
    q: "vmm_initialize L p v m = Some (KERNEL_STATUS_OK, q, v\<lparr>vmm_initialized := True\<rparr>,
        m\<lparr>reg_cr3 := paging_directory_addr L, reg_cr0 := reg_cr0 m OR I386_CR0_PAGING_ENABLE\<rparr>)"
      "\<And>rest va. i386_translate (phys_word L q rest) (paging_directory_addr L) va =
        (if unat va < 16 * 1024 * 1024 then Some (va, True) else None)" by blast
  have "unat a < 16 * 1024 * 1024" using small a(2) by (simp add: word_less_nat_alt)
  moreover have "p' = q" "reg_cr3 m' = paging_directory_addr L" using run unfolding q(1) by auto
  ultimately show ?thesis by (simp add: q(2))
qed

text \<open>
  C20.  \<open>vmm_initialize\<close> cannot fail and turns paging on: it loads CR3 with the page directory and
  sets the paging bit of CR0, nothing else, and the tables it leaves make the processor's page
  walk the identity, writable, on the first 16 MiB and a page fault everywhere above, whatever
  the tables and the rest of memory held before.
\<close>

theorem vmm_identity_maps_low_memory:
  fixes m :: "'a machine_scheme"
  assumes "layout_ok L" "paging_wf p"
  shows "\<exists>p' m'. vmm_initialize L p v m = Some (KERNEL_STATUS_OK, p', v\<lparr>vmm_initialized := True\<rparr>, m') \<and>
     m' = m\<lparr>reg_cr3 := paging_directory_addr L, reg_cr0 := reg_cr0 m OR I386_CR0_PAGING_ENABLE\<rparr> \<and>
     paging_wf p' \<and> vmm_is_enabled (v\<lparr>vmm_initialized := True\<rparr>) m' \<and>
     unat (vmm_get_identity_mapped_bytes p') = 16 * 1024 * 1024 \<and>
     (\<forall>rest va. i386_translate (phys_word L p' rest) (reg_cr3 m') va =
        (if unat va < unat (vmm_get_identity_mapped_bytes p') then Some (va, True) else None))"
proof -
  let ?m = "m\<lparr>reg_cr3 := paging_directory_addr L, reg_cr0 := reg_cr0 m OR I386_CR0_PAGING_ENABLE\<rparr>"
  from vmm_initialize_spec [where 'a = 'a, OF assms, of v] obtain p' where
    p': "\<And>m :: 'a machine_scheme. vmm_initialize L p v m = Some (KERNEL_STATUS_OK, p', v\<lparr>vmm_initialized := True\<rparr>,
        m\<lparr>reg_cr3 := paging_directory_addr L, reg_cr0 := reg_cr0 m OR I386_CR0_PAGING_ENABLE\<rparr>)"
      "paging_wf p'" "unat (vmm_get_identity_mapped_bytes p') = 16 * 1024 * 1024"
      "\<And>rest va. i386_translate (phys_word L p' rest) (paging_directory_addr L) va =
        (if unat va < 16 * 1024 * 1024 then Some (va, True) else None)" by blast
  have "vmm_is_enabled (v\<lparr>vmm_initialized := True\<rparr>) ?m" by (rule vmm_enabled_after)
  then show ?thesis using p' by (intro exI [of _ p'] exI [of _ ?m]) simp
qed

lemma paging_static_wf: "paging_wf paging_static"
  by (simp add: paging_wf_def paging_static_def counts)

lemma vmm_identity_maps_low_memory_witness:
  "\<exists>p' m'. vmm_initialize sample_layout paging_static vmm_static sample_klog =
       Some (KERNEL_STATUS_OK, p', \<lparr>vmm_initialized = True\<rparr>, m') \<and>
     i386_translate (phys_word sample_layout p' (\<lambda>_. 0)) (reg_cr3 m') 0xB8000 = Some (0xB8000, True) \<and>
     i386_translate (phys_word sample_layout p' (\<lambda>_. 0)) (reg_cr3 m') 0x1000000 = None"
proof -
  from vmm_identity_maps_low_memory [OF sample_layout_ok paging_static_wf,
      where v = vmm_static and m = sample_klog]
  obtain p' m' where
    1: "vmm_initialize sample_layout paging_static vmm_static sample_klog =
          Some (KERNEL_STATUS_OK, p', vmm_static\<lparr>vmm_initialized := True\<rparr>, m')"
       "unat (vmm_get_identity_mapped_bytes p') = 16 * 1024 * 1024"
       "\<forall>rest va. i386_translate (phys_word sample_layout p' rest) (reg_cr3 m') va =
          (if unat va < unat (vmm_get_identity_mapped_bytes p') then Some (va, True) else None)"
    by blast
  have walk: "\<forall>va. i386_translate (phys_word sample_layout p' (\<lambda>_. 0)) (reg_cr3 m') va =
      (if unat va < 16777216 then Some (va, True) else None)" using 1(2,3) by simp
  show ?thesis using 1(1) spec [OF walk, of "0xB8000"] spec [OF walk, of "0x1000000"] by (simp add: vmm_static_def)
qed

text \<open>
  The \<open>paging\<close> summary tells the truth: it says \<open>enabled\<close> exactly when the manager was
  initialized and CR0 has paging on at that moment, and reports the number of identity-mapped
  bytes, which is 0 before initialization; it changes nothing but the output.
\<close>

theorem vmm_summary_truthful:
  assumes "console_ok s"
  shows "\<exists>s'. vmm_print_summary p v s = Some s' \<and> console_ok s' \<and>
     screen s' = fold ts_putchar
       (''Virtual memory manager: '' @
        (if vmm_initialized v \<and> bit (reg_cr0 s) 31 then ''enabled'' else ''disabled'') @ [CHR 0x0A] @
        ''Identity-mapped bytes: '' @
        decimal_text (if paging_initialized p then 16777216 else 0) @ [CHR 0x0A]) (screen s) \<and>
     klog_frame s s'"
proof -
  have "reg_cr0 s AND I386_CR0_PAGING_ENABLE \<noteq> 0 \<longleftrightarrow> bit (reg_cr0 s) 31"
  proof -
    have top: "31 \<le> n \<longleftrightarrow> n = 31" if "n < 32" for n :: nat using that by arith
    have pg: "I386_CR0_PAGING_ENABLE = push_bit 31 1" by (simp add: I386_CR0_PAGING_ENABLE_def)
    have "reg_cr0 s AND push_bit 31 1 = (if bit (reg_cr0 s) 31 then push_bit 31 1 else 0)"
      by (rule bit_word_eqI) (use top in \<open>auto simp: bit_simps simp del: push_bit_of_1\<close>)
    then show ?thesis unfolding pg by simp
  qed
  then have e: "vmm_is_enabled v s = (vmm_initialized v \<and> bit (reg_cr0 s) 31)"
    by (simp add: vmm_is_enabled_def i386_paging_is_enabled_def i386_read_cr0_def)
  have b: "unat (vmm_get_identity_mapped_bytes p) = (if paging_initialized p then 16777216 else 0)"
    by (simp add: vmm_get_identity_mapped_bytes_def i386_paging_get_identity_mapped_bytes_def
        I386_PAGING_IDENTITY_MAPPED_BYTES_def)
  show ?thesis using vmm_print_summary_spec [OF assms, of p v] unfolding vmm_summary_text_def e b .
qed

lemma vmm_summary_truthful_witness:
  "\<exists>s'. vmm_print_summary paging_static vmm_static sample_klog = Some s' \<and> console_ok s'"
  using vmm_summary_truthful [OF sample_console_ok, where p = paging_static and v = vmm_static] by blast

end
