(* ===== verification/Heap.thy ===== *)
theory Heap
  imports Layout
begin

text \<open>
  \<^verbatim>\<open>src/mm/heap.c\<close>: ownership of the heap region the linker reserves.  Allocation is not
  implemented at this stage: \<open>kmalloc\<close> returns NULL and \<open>kfree\<close> does nothing.
\<close>

record heap =
  heap_initialized :: bool
  heap_start_address :: u32
  heap_end_address :: u32
  heap_capacity :: u32

definition heap_static :: heap where
  "heap_static = \<lparr>heap_initialized = False, heap_start_address = 0, heap_end_address = 0, heap_capacity = 0\<rparr>"

definition heap_initialize :: "layout \<Rightarrow> heap \<Rightarrow> kernel_status \<times> heap" where
  "heap_initialize L h =
     (let start = heap_start_addr L; stop = heap_end_addr L in
      if heap_initialized h then (KERNEL_STATUS_ALREADY_INITIALIZED, h)
      else if start = 0 \<or> stop = 0 \<or> stop \<le> start then (KERNEL_STATUS_INVALID_ARGUMENT, h)
      else if start mod 4096 \<noteq> 0 \<or> stop mod 4096 \<noteq> 0 then (KERNEL_STATUS_INVALID_ARGUMENT, h)
      else (KERNEL_STATUS_OK,
            h\<lparr>heap_start_address := start, heap_end_address := stop, heap_capacity := stop - start,
              heap_initialized := True\<rparr>))"

definition heap_is_initialized :: "heap \<Rightarrow> bool" where
  "heap_is_initialized h = heap_initialized h"

definition heap_get_start_address :: "heap \<Rightarrow> u32" where
  "heap_get_start_address h = (if \<not> heap_initialized h then 0 else heap_start_address h)"

definition heap_get_end_address :: "heap \<Rightarrow> u32" where
  "heap_get_end_address h = (if \<not> heap_initialized h then 0 else heap_end_address h)"

definition heap_get_capacity :: "heap \<Rightarrow> u32" where
  "heap_get_capacity h = (if \<not> heap_initialized h then 0 else heap_capacity h)"

text \<open>A pointer is its address; NULL is 0.\<close>

definition kmalloc :: "u32 \<Rightarrow> heap \<Rightarrow> u32 \<times> heap" where
  "kmalloc requested h = (0, h)"

definition kfree :: "u32 \<Rightarrow> heap \<Rightarrow> heap" where
  "kfree pointer h = h"

section \<open>Facts\<close>

text \<open>A region the linker may reserve: nonempty and page aligned on both ends.\<close>

definition heap_region_ok :: "layout \<Rightarrow> bool" where
  "heap_region_ok L \<longleftrightarrow> 0 < unat (heap_start_addr L) \<and> unat (heap_start_addr L) < unat (heap_end_addr L) \<and>
     unat (heap_start_addr L) mod 4096 = 0 \<and> unat (heap_end_addr L) mod 4096 = 0"

lemma mod_4096: "w mod 4096 = 0 \<longleftrightarrow> unat w mod 4096 = 0" for w :: u32
  by (simp add: word_unat_eq_iff unat_mod)

lemma heap_initialize_eq:
  "heap_initialize L h =
     (if heap_initialized h then (KERNEL_STATUS_ALREADY_INITIALIZED, h)
      else if heap_region_ok L
      then (KERNEL_STATUS_OK, \<lparr>heap_initialized = True, heap_start_address = heap_start_addr L,
              heap_end_address = heap_end_addr L, heap_capacity = heap_end_addr L - heap_start_addr L\<rparr>)
      else (KERNEL_STATUS_INVALID_ARGUMENT, h))"
  by (cases h)
     (auto simp: heap_initialize_def heap_region_ok_def Let_def mod_4096 word_le_nat_alt unat_eq_zero unat_gt_0)

lemma layout_heap_ok: "layout_ok L \<Longrightarrow> heap_region_ok L"
proof -
  assume L: "layout_ok L"
  then have r: "unat (heap_start_addr L) + 64 * 4096 = unat (heap_end_addr L)"
    "2097152 < unat (heap_start_addr L)" "unat (heap_start_addr L) mod 4096 = 0"
    by (auto simp: layout_ok_def)
  have "unat (heap_end_addr L) mod 4096 = 0" unfolding r(1) [symmetric] mod_mult_self1 by (rule r(3))
  with r show ?thesis unfolding heap_region_ok_def by linarith
qed

section \<open>Properties\<close>

text \<open>
  The first initialization accepts exactly a nonempty, page-aligned region that does not
  start at address 0 and then reports its bounds and its exact size; a refused region changes
  nothing and the getters keep returning 0; once initialized, another call reports so and changes
  nothing.  With the region the linker script reserves it succeeds with 256 KiB.
\<close>

theorem heap_initialize_exact:
  assumes "\<not> heap_is_initialized h"
  shows "(if heap_region_ok L then
       \<exists>h'. heap_initialize L h = (KERNEL_STATUS_OK, h') \<and> heap_is_initialized h' \<and>
         heap_get_start_address h' = heap_start_addr L \<and> heap_get_end_address h' = heap_end_addr L \<and>
         unat (heap_get_start_address h') + unat (heap_get_capacity h') = unat (heap_get_end_address h') \<and>
         heap_initialize L' h' = (KERNEL_STATUS_ALREADY_INITIALIZED, h')
     else heap_initialize L h = (KERNEL_STATUS_INVALID_ARGUMENT, h) \<and> heap_get_capacity h = 0 \<and>
       heap_get_start_address h = 0 \<and> heap_get_end_address h = 0) \<and>
     (layout_ok L \<longrightarrow> fst (heap_initialize L h) = KERNEL_STATUS_OK \<and>
        unat (heap_get_capacity (snd (heap_initialize L h))) = 256 * 1024)"
proof -
  have h: "\<not> heap_initialized h" using assms by (simp add: heap_is_initialized_def)
  have size: "unat (heap_end_addr L - heap_start_addr L) = unat (heap_end_addr L) - unat (heap_start_addr L)"
    if "unat (heap_start_addr L) < unat (heap_end_addr L)"
    using that by (intro unat_sub_word) (simp add: word_le_nat_alt)
  have cap: "unat (heap_end_addr L) - unat (heap_start_addr L) = 262144" if "layout_ok L"
    using that by (auto simp: layout_ok_def)
  show ?thesis
    using h layout_heap_ok [of L] size cap
    by (auto simp: heap_initialize_eq heap_is_initialized_def heap_get_capacity_def heap_get_start_address_def
        heap_get_end_address_def heap_region_ok_def)
qed

lemma heap_initialize_exact_witness:
  "fst (heap_initialize sample_layout heap_static) = KERNEL_STATUS_OK \<and>
   unat (heap_get_capacity (snd (heap_initialize sample_layout heap_static))) = 256 * 1024"
  using heap_initialize_exact [of heap_static sample_layout] sample_layout_ok
  by (simp add: heap_is_initialized_def heap_static_def)

end
