(* ===== verification/Input.thy ===== *)
theory Input
  imports Prelude
begin

text \<open>
  \<^verbatim>\<open>src/kernel/input.c\<close>: the ring buffer between the keyboard interrupt, which appends, and the
  foreground loop, which removes.  Both positions count up and wrap at \<open>2 ^ 32\<close>; their low six
  bits index the 64 cells.
\<close>

section \<open>State and operations\<close>

definition INPUT_QUEUE_CAPACITY :: u32 where "INPUT_QUEUE_CAPACITY = 64"

definition INPUT_QUEUE_INDEX_MASK :: u32 where "INPUT_QUEUE_INDEX_MASK = INPUT_QUEUE_CAPACITY - 1"

record input =
  input_queue :: "char carray"
  input_queue_head :: u32
  input_queue_tail :: u32
  input_dropped_character_count :: u32

definition input_static :: input where
  "input_static = \<lparr>
     input_queue = afill (unat INPUT_QUEUE_CAPACITY) NUL,
     input_queue_head = 0,
     input_queue_tail = 0,
     input_dropped_character_count = 0\<rparr>"

definition input_initialize :: "input \<Rightarrow> input" where
  "input_initialize q =
     q\<lparr>input_queue_head := 0, input_queue_tail := 0, input_dropped_character_count := 0\<rparr>"

definition input_enqueue_character :: "char \<Rightarrow> input \<Rightarrow> (bool \<times> input) option" where
  "input_enqueue_character ascii q =
     (let head = input_queue_head q; tail = input_queue_tail q in
      if head - tail \<ge> INPUT_QUEUE_CAPACITY then
        let dropped = input_dropped_character_count q in
        Some (False, if dropped \<noteq> UINT32_MAX
                     then q\<lparr>input_dropped_character_count := dropped + 1\<rparr> else q)
      else do {
        cells \<leftarrow> awrite (input_queue q) (unat (head AND INPUT_QUEUE_INDEX_MASK)) ascii;
        Some (True, q\<lparr>input_queue := cells, input_queue_head := head + 1\<rparr>)
      })"

text \<open>The out parameter is \<open>None\<close> for a NULL pointer.\<close>

definition input_try_read_character :: "char option \<Rightarrow> input \<Rightarrow> (bool \<times> char option \<times> input) option" where
  "input_try_read_character out_ascii q =
     (if out_ascii = None then Some (False, None, q)
      else
        let tail = input_queue_tail q; head = input_queue_head q in
        if tail = head then Some (False, out_ascii, q)
        else do {
          ascii \<leftarrow> aread (input_queue q) (unat (tail AND INPUT_QUEUE_INDEX_MASK));
          Some (True, Some ascii, q\<lparr>input_queue_tail := tail + 1\<rparr>)
        })"

definition input_get_pending_character_count :: "input \<Rightarrow> u32" where
  "input_get_pending_character_count q = input_queue_head q - input_queue_tail q"

definition input_get_dropped_character_count :: "input \<Rightarrow> u32" where
  "input_get_dropped_character_count q = input_dropped_character_count q"

section \<open>The interface: a bounded first-in first-out queue\<close>

datatype 'a queue_call = Produce 'a | Consume

text \<open>
  A schedule of producer and consumer calls, with what was accepted, what was refused and what
  was delivered.
\<close>

record 'a queue_history =
  accepted :: "'a list"
  refused :: "'a list"
  delivered :: "'a list"

fun run_queue ::
  "('a \<Rightarrow> 'q \<Rightarrow> (bool \<times> 'q) option) \<Rightarrow> ('q \<Rightarrow> ('a option \<times> 'q) option) \<Rightarrow>
   'a queue_call list \<Rightarrow> 'q \<Rightarrow> 'a queue_history \<Rightarrow> ('a queue_history \<times> 'q) option" where
  "run_queue enq deq [] q h = Some (h, q)"
| "run_queue enq deq (Produce x # cs) q h = do {
     (ok, q') \<leftarrow> enq x q;
     run_queue enq deq cs q'
       (if ok then h\<lparr>accepted := accepted h @ [x]\<rparr> else h\<lparr>refused := refused h @ [x]\<rparr>)
   }"
| "run_queue enq deq (Consume # cs) q h = do {
     (r, q') \<leftarrow> deq q;
     run_queue enq deq cs q' (case r of Some x \<Rightarrow> h\<lparr>delivered := delivered h @ [x]\<rparr> | None \<Rightarrow> h)
   }"

locale bounded_queue =
  fixes ok :: "'q \<Rightarrow> bool"
    and contents :: "'q \<Rightarrow> 'a list"
    and capacity :: nat
    and dropped :: "'q \<Rightarrow> nat"
    and enq :: "'a \<Rightarrow> 'q \<Rightarrow> (bool \<times> 'q) option"
    and deq :: "'q \<Rightarrow> ('a option \<times> 'q) option"
  assumes bound: "ok q \<Longrightarrow> length (contents q) \<le> capacity"
    and enq_room: "ok q \<Longrightarrow> length (contents q) < capacity \<Longrightarrow>
      \<exists>q'. enq x q = Some (True, q') \<and> ok q' \<and> contents q' = contents q @ [x] \<and> dropped q' = dropped q"
    and enq_full: "ok q \<Longrightarrow> length (contents q) = capacity \<Longrightarrow>
      \<exists>q'. enq x q = Some (False, q') \<and> ok q' \<and> contents q' = contents q \<and>
        dropped q' = min 4294967295 (Suc (dropped q))"
    and deq_empty: "ok q \<Longrightarrow> contents q = [] \<Longrightarrow> deq q = Some (None, q)"
    and deq_first: "ok q \<Longrightarrow> contents q = x # xs \<Longrightarrow>
      \<exists>q'. deq q = Some (Some x, q') \<and> ok q' \<and> contents q' = xs \<and> dropped q' = dropped q"
begin

text \<open>What \<open>h\<close> recorded agrees with the queue, which started empty.\<close>

definition consistent :: "'a queue_history \<Rightarrow> 'q \<Rightarrow> bool" where
  "consistent h q \<longleftrightarrow> ok q \<and> accepted h = delivered h @ contents q \<and>
     dropped q = min 4294967295 (length (refused h))"

lemma run_consistent:
  "consistent h q \<Longrightarrow> \<exists>h' q'. run_queue enq deq cs q h = Some (h', q') \<and> consistent h' q'"
proof (induction cs arbitrary: q h)
  case Nil
  then show ?case by simp
next
  case (Cons c cs)
  note ok = Cons.prems [unfolded consistent_def]
  show ?case
  proof (cases c)
    case (Produce x)
    show ?thesis
    proof (cases "length (contents q) < capacity")
      case True
      with enq_room [of q x] ok obtain q' where
        "enq x q = Some (True, q')" "ok q'" "contents q' = contents q @ [x]" "dropped q' = dropped q" by blast
      then show ?thesis using Cons.IH [of "h\<lparr>accepted := accepted h @ [x]\<rparr>" q'] ok
        by (simp add: Produce consistent_def)
    next
      case False
      then have "length (contents q) = capacity" using bound [of q] ok by simp
      with enq_full [of q x] ok obtain q' where
        "enq x q = Some (False, q')" "ok q'" "contents q' = contents q"
        "dropped q' = min 4294967295 (Suc (dropped q))" by blast
      then show ?thesis using Cons.IH [of "h\<lparr>refused := refused h @ [x]\<rparr>" q'] ok
        by (simp add: Produce consistent_def)
    qed
  next
    case Consume
    show ?thesis
    proof (cases "contents q")
      case Nil
      with deq_empty [of q] ok show ?thesis using Cons.IH [OF Cons.prems] by (simp add: Consume)
    next
      case (Cons x xs)
      with deq_first [of q x xs] ok obtain q' where
        "deq q = Some (Some x, q')" "ok q'" "contents q' = xs" "dropped q' = dropped q" by blast
      then show ?thesis using Cons.IH [of "h\<lparr>delivered := delivered h @ [x]\<rparr>" q'] ok Cons
        by (simp add: Consume consistent_def)
    qed
  qed
qed

end

section \<open>The ring buffer is such a queue\<close>

definition queue_length :: "input \<Rightarrow> nat" where
  "queue_length q = unat (input_queue_head q - input_queue_tail q)"

definition queue_cell :: "input \<Rightarrow> nat \<Rightarrow> nat" where
  "queue_cell q i = (unat (input_queue_tail q) + i) mod 64"

definition queue_contents :: "input \<Rightarrow> char list" where
  "queue_contents q = map (\<lambda>i. acell (input_queue q) (queue_cell q i)) [0..<queue_length q]"

definition input_ok :: "input \<Rightarrow> bool" where
  "input_ok q \<longleftrightarrow> alen (input_queue q) = 64 \<and> queue_length q \<le> 64"

lemma length_queue_contents [simp]: "length (queue_contents q) = queue_length q"
  by (simp add: queue_contents_def)

lemma mask_index: "unat (w AND INPUT_QUEUE_INDEX_MASK) = unat w mod 64"
proof -
  have "INPUT_QUEUE_INDEX_MASK = mask 6"
    by (simp add: INPUT_QUEUE_INDEX_MASK_def INPUT_QUEUE_CAPACITY_def mask_eq_exp_minus_1)
  then have "w AND INPUT_QUEUE_INDEX_MASK = take_bit 6 w" by (simp add: take_bit_eq_mask)
  then show ?thesis using unat_take_bit_mod [of 6 w] by simp
qed

lemma unat_add_mod_64: "unat (a + b :: u32) mod 64 = (unat a + unat b) mod 64"
proof -
  have "(64 :: nat) dvd 4294967296" by simp
  then have "(unat a + unat b) mod 4294967296 mod 64 = (unat a + unat b) mod 64" by (rule mod_mod_cancel)
  then show ?thesis by (simp add: unat_word_ariths)
qed

lemma head_cell: "unat (input_queue_head q AND INPUT_QUEUE_INDEX_MASK) = queue_cell q (queue_length q)"
  using unat_add_mod_64 [of "input_queue_tail q" "input_queue_head q - input_queue_tail q"]
  by (simp add: mask_index queue_cell_def queue_length_def)

lemma tail_cell: "unat (input_queue_tail q AND INPUT_QUEUE_INDEX_MASK) = queue_cell q 0"
  by (simp add: mask_index queue_cell_def)

lemma queue_cell_bound [simp]: "queue_cell q i < 64"
  by (simp add: queue_cell_def)

lemma queue_cell_distinct:
  assumes "i < n" "n < 64"
  shows "queue_cell q i \<noteq> queue_cell q n"
proof
  assume "queue_cell q i = queue_cell q n"
  then obtain a b where "unat (input_queue_tail q) + i + 64 * a = unat (input_queue_tail q) + n + 64 * b"
    unfolding queue_cell_def nat_mod_eq_iff by blast
  then have "i + 64 * a = n + 64 * b" by simp
  then have "(i + 64 * a) mod 64 = (n + 64 * b) mod 64" by (rule arg_cong)
  then show False using assms by simp
qed

lemma full_iff: "INPUT_QUEUE_CAPACITY \<le> input_queue_head q - input_queue_tail q \<longleftrightarrow> 64 \<le> queue_length q"
  by (simp add: INPUT_QUEUE_CAPACITY_def queue_length_def word_le_nat_alt)

lemma length_after_enqueue:
  assumes "queue_length q < 64"
  shows "unat (input_queue_head q + 1 - input_queue_tail q) = Suc (queue_length q)"
proof -
  have "unat (input_queue_head q - input_queue_tail q + 1) = Suc (queue_length q)"
    using assms by (simp add: queue_length_def unat_add_u32)
  then show ?thesis by (simp add: algebra_simps)
qed

lemma enqueue_room:
  assumes "input_ok q" "queue_length q < 64"
  shows "\<exists>q'. input_enqueue_character c q = Some (True, q') \<and> input_ok q' \<and>
           queue_contents q' = queue_contents q @ [c] \<and>
           input_dropped_character_count q' = input_dropped_character_count q \<and>
           input_queue_tail q' = input_queue_tail q"
proof -
  let ?i = "queue_cell q (queue_length q)"
  let ?q = "q\<lparr>input_queue := CArray 64 ((acell (input_queue q))(?i := c)),
             input_queue_head := input_queue_head q + 1\<rparr>"
  have len: "alen (input_queue q) = 64" using assms(1) by (simp add: input_ok_def)
  have n: "queue_length ?q = Suc (queue_length q)"
    using length_after_enqueue [OF assms(2)] by (simp add: queue_length_def)
  have "input_enqueue_character c q = Some (True, ?q)"
    using assms(2) len by (simp add: input_enqueue_character_def full_iff head_cell Let_def)
  moreover have "queue_contents ?q = queue_contents q @ [c]"
  proof -
    have cell: "queue_cell ?q = queue_cell q" by (simp add: queue_cell_def fun_eq_iff)
    have "queue_contents ?q = map (\<lambda>i. acell (input_queue ?q) (queue_cell q i)) [0..<queue_length q] @ [c]"
      unfolding queue_contents_def n cell by simp
    moreover have "map (\<lambda>i. acell (input_queue ?q) (queue_cell q i)) [0..<queue_length q] = queue_contents q"
      using queue_cell_distinct [OF _ assms(2), of _ q] by (auto simp: queue_contents_def)
    ultimately show ?thesis by (simp only:)
  qed
  ultimately show ?thesis using n assms(2) by (simp add: input_ok_def)
qed

lemma enqueue_full:
  assumes "input_ok q" "queue_length q = 64"
  shows "\<exists>q'. input_enqueue_character c q = Some (False, q') \<and> input_ok q' \<and>
           queue_contents q' = queue_contents q \<and>
           unat (input_dropped_character_count q') = min 4294967295 (Suc (unat (input_dropped_character_count q))) \<and>
           input_queue_tail q' = input_queue_tail q"
proof -
  let ?d = "input_dropped_character_count q"
  let ?q = "if ?d \<noteq> UINT32_MAX then q\<lparr>input_dropped_character_count := ?d + 1\<rparr> else q"
  have "input_enqueue_character c q = Some (False, ?q)"
    using assms(2) by (simp add: input_enqueue_character_def full_iff Let_def)
  moreover have "queue_contents ?q = queue_contents q" "input_ok ?q" "input_queue_tail ?q = input_queue_tail q"
    using assms by (simp_all add: queue_contents_def input_ok_def queue_length_def queue_cell_def)
  moreover have "input_dropped_character_count ?q = (if ?d \<noteq> UINT32_MAX then ?d + 1 else ?d)" by simp
  ultimately show ?thesis using unat_saturating [of ?d] by (intro exI [of _ ?q]) simp
qed

lemma queue_empty_iff: "queue_contents q = [] \<longleftrightarrow> input_queue_tail q = input_queue_head q"
  by (auto simp: queue_contents_def queue_length_def unat_eq_zero)

lemma dequeue_first:
  assumes "input_ok q" "queue_contents q = c # cs"
  shows "\<exists>q'. input_try_read_character (Some x) q = Some (True, Some c, q') \<and> input_ok q' \<and>
           queue_contents q' = cs \<and> q' = q\<lparr>input_queue_tail := input_queue_tail q + 1\<rparr> \<and>
           c = acell (input_queue q) (queue_cell q 0)"
proof -
  let ?q = "q\<lparr>input_queue_tail := input_queue_tail q + 1\<rparr>"
  have pos: "0 < queue_length q" using assms(2) length_queue_contents [of q] by simp
  have "queue_length ?q = unat (input_queue_head q - input_queue_tail q - 1)"
    by (simp add: queue_length_def diff_diff_eq)
  then have n: "queue_length ?q = queue_length q - 1"
    using pos unat_pred_pos [of "input_queue_head q - input_queue_tail q"] by (simp add: queue_length_def)
  have cell: "queue_cell ?q i = queue_cell q (Suc i)" for i
  proof -
    have "(unat (input_queue_tail q + 1) + i) mod 64 = (unat (input_queue_tail q + 1) mod 64 + i) mod 64"
      by (simp add: mod_add_left_eq)
    also have "\<dots> = (unat (input_queue_tail q) + Suc i) mod 64"
      unfolding unat_add_mod_64 by (simp add: mod_add_left_eq)
    finally show ?thesis by (simp add: queue_cell_def)
  qed
  have upt: "[0..<queue_length q] = 0 # map Suc [0..<queue_length q - 1]"
    using pos by (simp add: upt_conv_Cons map_Suc_upt del: upt_Suc)
  have "queue_contents q = acell (input_queue q) (queue_cell q 0) # queue_contents ?q"
    unfolding queue_contents_def n cell upt by simp
  then have cs: "c = acell (input_queue q) (queue_cell q 0)" "queue_contents ?q = cs" using assms(2) by simp_all
  have ne: "input_queue_tail q \<noteq> input_queue_head q" using assms(2) queue_empty_iff [of q] by simp
  have len: "alen (input_queue q) = 64" using assms(1) by (simp add: input_ok_def)
  have "input_try_read_character (Some x) q = Some (True, Some c, ?q)"
    using ne len cs(1) by (simp add: input_try_read_character_def tail_cell Let_def)
  moreover have "input_ok ?q" using assms(1) n by (auto simp: input_ok_def)
  ultimately show ?thesis using cs by blast
qed

text \<open>The consumer's call in the form of the interface.\<close>

definition input_read_op :: "input \<Rightarrow> (char option \<times> input) option" where
  "input_read_op q =
     map_option (\<lambda>(ok, out, q'). (if ok then out else None, q')) (input_try_read_character (Some NUL) q)"

interpretation input_ring: bounded_queue input_ok queue_contents 64
  "\<lambda>q. unat (input_dropped_character_count q)" input_enqueue_character input_read_op
proof
  fix q :: input and c
  assume ok: "input_ok q"
  show "length (queue_contents q) \<le> 64" using ok by (simp add: input_ok_def)
  { assume "length (queue_contents q) < 64"
    then show "\<exists>q'. input_enqueue_character c q = Some (True, q') \<and> input_ok q' \<and>
        queue_contents q' = queue_contents q @ [c] \<and>
        unat (input_dropped_character_count q') = unat (input_dropped_character_count q)"
      using enqueue_room [OF ok, of c] by auto }
  { assume "length (queue_contents q) = 64"
    then show "\<exists>q'. input_enqueue_character c q = Some (False, q') \<and> input_ok q' \<and>
        queue_contents q' = queue_contents q \<and>
        unat (input_dropped_character_count q') = min 4294967295 (Suc (unat (input_dropped_character_count q)))"
      using enqueue_full [OF ok, of c] by auto }
  { assume "queue_contents q = []"
    then show "input_read_op q = Some (None, q)"
      by (simp add: input_read_op_def input_try_read_character_def queue_empty_iff) }
  { fix cs assume "queue_contents q = c # cs"
    from dequeue_first [OF ok this, of NUL] show "\<exists>q'. input_read_op q = Some (Some c, q') \<and> input_ok q' \<and>
        queue_contents q' = cs \<and>
        unat (input_dropped_character_count q') = unat (input_dropped_character_count q)"
      by (auto simp: input_read_op_def) }
qed

section \<open>The consumer interrupted between any two of its accesses\<close>

text \<open>
  \<open>input_try_read_character\<close> reads the tail, reads the head, reads the cell and writes the
  tail.  The interrupt handler runs to completion between any two of these accesses.  A
  configuration is the queue, how far the reader has come, and the histories of both sides.
\<close>

datatype reader = Idle | Got_Tail u32 | Not_Empty u32 | Got_Char u32 char

record reading =
  rd_queue :: input
  rd_reader :: reader
  rd_accepted :: "char list"
  rd_delivered :: "char list"

inductive reading_step :: "reading \<Rightarrow> reading \<Rightarrow> bool" where
  irq_accepted:
    "input_enqueue_character c (rd_queue r) = Some (True, q') \<Longrightarrow>
     reading_step r (r\<lparr>rd_queue := q', rd_accepted := rd_accepted r @ [c]\<rparr>)"
| irq_dropped:
    "input_enqueue_character c (rd_queue r) = Some (False, q') \<Longrightarrow>
     reading_step r (r\<lparr>rd_queue := q'\<rparr>)"
| read_tail:
    "rd_reader r = Idle \<Longrightarrow>
     reading_step r (r\<lparr>rd_reader := Got_Tail (input_queue_tail (rd_queue r))\<rparr>)"
| read_head_empty:
    "rd_reader r = Got_Tail t \<Longrightarrow> t = input_queue_head (rd_queue r) \<Longrightarrow>
     reading_step r (r\<lparr>rd_reader := Idle\<rparr>)"
| read_head:
    "rd_reader r = Got_Tail t \<Longrightarrow> t \<noteq> input_queue_head (rd_queue r) \<Longrightarrow>
     reading_step r (r\<lparr>rd_reader := Not_Empty t\<rparr>)"
| read_cell:
    "rd_reader r = Not_Empty t \<Longrightarrow>
     aread (input_queue (rd_queue r)) (unat (t AND INPUT_QUEUE_INDEX_MASK)) = Some c \<Longrightarrow>
     reading_step r (r\<lparr>rd_reader := Got_Char t c\<rparr>)"
| write_tail:
    "rd_reader r = Got_Char t c \<Longrightarrow>
     reading_step r (r\<lparr>rd_queue := (rd_queue r)\<lparr>input_queue_tail := t + 1\<rparr>, rd_reader := Idle,
       rd_delivered := rd_delivered r @ [c]\<rparr>)"

inductive_cases reading_stepE: "reading_step r r'"

inductive reading_run :: "reading \<Rightarrow> reading \<Rightarrow> bool" where
  reading_start: "reading_run r r"
| reading_next: "reading_run r r' \<Longrightarrow> reading_step r' r'' \<Longrightarrow> reading_run r r''"

text \<open>What the reader has seen so far is still true of the queue.\<close>

fun reader_agrees :: "reader \<Rightarrow> input \<Rightarrow> bool" where
  "reader_agrees Idle q \<longleftrightarrow> True"
| "reader_agrees (Got_Tail t) q \<longleftrightarrow> t = input_queue_tail q"
| "reader_agrees (Not_Empty t) q \<longleftrightarrow> t = input_queue_tail q \<and> queue_contents q \<noteq> []"
| "reader_agrees (Got_Char t c) q \<longleftrightarrow> t = input_queue_tail q \<and> (\<exists>cs. queue_contents q = c # cs)"

definition reading_ok :: "reading \<Rightarrow> bool" where
  "reading_ok r \<longleftrightarrow>
     input_ok (rd_queue r) \<and> rd_accepted r = rd_delivered r @ queue_contents (rd_queue r) \<and>
     reader_agrees (rd_reader r) (rd_queue r)"

lemma reader_agrees_grows:
  assumes "reader_agrees rd q" "input_queue_tail q' = input_queue_tail q"
    "queue_contents q' = queue_contents q @ cs"
  shows "reader_agrees rd q'"
  using assms by (cases rd) auto

lemma enqueue_cases:
  assumes "input_ok q" "input_enqueue_character c q = Some (ok, q')"
  shows "input_ok q' \<and> input_queue_tail q' = input_queue_tail q \<and>
    queue_contents q' = queue_contents q @ (if ok then [c] else [])"
proof (cases "queue_length q < 64")
  case True
  from enqueue_room [OF assms(1) this, of c] assms(2) show ?thesis by auto
next
  case False
  then have "queue_length q = 64" using assms(1) by (simp add: input_ok_def)
  from enqueue_full [OF assms(1) this, of c] assms(2) show ?thesis by auto
qed

lemma reading_step_ok:
  assumes "reading_step r r'" "reading_ok r"
  shows "reading_ok r'"
proof -
  have ok: "input_ok (rd_queue r)" and hist: "rd_accepted r = rd_delivered r @ queue_contents (rd_queue r)"
    and agrees: "reader_agrees (rd_reader r) (rd_queue r)"
    using assms(2) by (simp_all add: reading_ok_def)
  from assms(1) show ?thesis
  proof (cases rule: reading_stepE [consumes 1, case_names irq_accepted irq_dropped read_tail read_head_empty
      read_head read_cell write_tail])
    case (irq_accepted c q')
    then show ?thesis using enqueue_cases [OF ok] hist reader_agrees_grows [OF agrees]
      by (fastforce simp: reading_ok_def)
  next
    case (irq_dropped c q')
    then show ?thesis using enqueue_cases [OF ok] hist reader_agrees_grows [OF agrees]
      by (fastforce simp: reading_ok_def)
  next
    case read_tail
    then show ?thesis using ok hist by (simp add: reading_ok_def)
  next
    case read_head_empty
    then show ?thesis using ok hist by (simp add: reading_ok_def)
  next
    case (read_head t)
    then show ?thesis using ok hist agrees by (simp add: reading_ok_def queue_empty_iff)
  next
    case (read_cell t c)
    then obtain d ds where d: "queue_contents (rd_queue r) = d # ds" "t = input_queue_tail (rd_queue r)"
      using agrees by (auto simp: neq_Nil_conv)
    from dequeue_first [OF ok d(1), of NUL] have "d = acell (input_queue (rd_queue r)) (queue_cell (rd_queue r) 0)"
      by blast
    moreover have "alen (input_queue (rd_queue r)) = 64" using ok by (simp add: input_ok_def)
    ultimately have "c = d" using read_cell d(2) by (simp add: tail_cell)
    then show ?thesis using read_cell ok hist d by (simp add: reading_ok_def)
  next
    case (write_tail t c)
    then obtain cs where cs: "queue_contents (rd_queue r) = c # cs" "t = input_queue_tail (rd_queue r)"
      using agrees by auto
    from dequeue_first [OF ok cs(1), of NUL] show ?thesis
      using write_tail hist cs by (auto simp: reading_ok_def)
  qed
qed

lemma reading_run_ok: "reading_run r r' \<Longrightarrow> reading_ok r \<Longrightarrow> reading_ok r'"
  by (induction rule: reading_run.induct) (auto intro: reading_step_ok)

section \<open>Properties\<close>

lemma initialized_ok:
  "alen (input_queue q) = 64 \<Longrightarrow> input_ok (input_initialize q) \<and> queue_contents (input_initialize q) = []"
  by (simp add: input_ok_def input_initialize_def queue_length_def queue_contents_def)

lemma static_alen: "alen (input_queue input_static) = 64"
  by (simp add: input_static_def INPUT_QUEUE_CAPACITY_def)

text \<open>C27. From initialization on, under every schedule of producer and consumer calls, the input queue is
  a bounded first-in first-out queue: no call faults, what was accepted is exactly what was
  delivered, in order, followed by what is still queued, at most 64 characters are queued, and
  the drop counter counts the refused characters up to its maximum.  The positions may wrap
  around \<open>2 ^ 32\<close>.\<close>

theorem input_queue_fifo:
  assumes "alen (input_queue q) = 64"
  shows "\<exists>h q'. run_queue input_enqueue_character input_read_op cs (input_initialize q)
            \<lparr>accepted = [], refused = [], delivered = []\<rparr> = Some (h, q') \<and>
     accepted h = delivered h @ queue_contents q' \<and> length (queue_contents q') \<le> 64 \<and>
     unat (input_get_pending_character_count q') = length (queue_contents q') \<and>
     unat (input_get_dropped_character_count q') = min 4294967295 (length (refused h))"
proof -
  let ?h = "\<lparr>accepted = [], refused = [], delivered = []\<rparr> :: char queue_history"
  have "input_ring.consistent ?h (input_initialize q)"
    using initialized_ok [OF assms] by (simp add: input_ring.consistent_def) (simp add: input_initialize_def)
  from input_ring.run_consistent [OF this, of cs] obtain h q' where
    r: "run_queue input_enqueue_character input_read_op cs (input_initialize q) ?h = Some (h, q')"
       "input_ring.consistent h q'" by blast
  then show ?thesis using input_ring.bound [of q']
    by (auto simp: input_ring.consistent_def input_get_pending_character_count_def
        input_get_dropped_character_count_def queue_length_def)
qed

lemma input_queue_fifo_witness:
  "\<exists>h q'. run_queue input_enqueue_character input_read_op [Produce CHR ''a'', Consume, Consume]
      (input_initialize input_static) \<lparr>accepted = [], refused = [], delivered = []\<rparr> = Some (h, q') \<and>
     accepted h = delivered h @ queue_contents q'"
  using input_queue_fifo [OF static_alen, of "[Produce CHR ''a'', Consume, Consume]"] by blast

text \<open>C21. The queue stays first-in first-out even when the interrupt handler appends between any two
  memory accesses of the foreground reader: in every reachable configuration the delivered
  characters followed by the queued ones are the accepted ones, and a character the reader has
  taken but not yet committed is the first queued one.\<close>

theorem input_queue_preemptible:
  assumes "reading_run r r'" "reading_ok r"
  shows "reading_ok r' \<and> rd_accepted r' = rd_delivered r' @ queue_contents (rd_queue r') \<and>
     length (queue_contents (rd_queue r')) \<le> 64 \<and>
     (case rd_reader r' of Got_Char t c \<Rightarrow> hd (queue_contents (rd_queue r')) = c | _ \<Rightarrow> True)"
proof -
  have ok: "reading_ok r'" using reading_run_ok [OF assms] .
  then have "case rd_reader r' of Got_Char t c \<Rightarrow> hd (queue_contents (rd_queue r')) = c | _ \<Rightarrow> True"
    by (auto simp: reading_ok_def split: reader.splits)
  then show ?thesis using ok by (simp add: reading_ok_def input_ok_def)
qed

definition sample_reading :: reading where
  "sample_reading = \<lparr>rd_queue = input_initialize input_static, rd_reader = Idle, rd_accepted = [], rd_delivered = []\<rparr>"

lemma input_queue_preemptible_witness:
  "\<exists>r'. reading_run sample_reading r' \<and> rd_reader r' = Got_Tail 0 \<and> rd_accepted r' = rd_delivered r' @ queue_contents (rd_queue r')"
proof -
  have ok: "reading_ok sample_reading"
    using initialized_ok [OF static_alen] by (simp add: reading_ok_def sample_reading_def)
  have "reading_step sample_reading (sample_reading\<lparr>rd_reader := Got_Tail (input_queue_tail (rd_queue sample_reading))\<rparr>)"
    by (rule reading_step.read_tail) (simp add: sample_reading_def)
  then have run: "reading_run sample_reading (sample_reading\<lparr>rd_reader := Got_Tail (input_queue_tail (rd_queue sample_reading))\<rparr>)"
    by (rule reading_next [OF reading_start])
  from input_queue_preemptible [OF run ok] show ?thesis using run
    by (intro exI [of _ "sample_reading\<lparr>rd_reader := Got_Tail (input_queue_tail (rd_queue sample_reading))\<rparr>"])
       (simp, simp add: sample_reading_def input_initialize_def)
qed

end
