(* ===== verification/Keyboard.thy ===== *)
theory Keyboard
  imports Input Machine
begin

text \<open>
  \<^verbatim>\<open>src/drivers/keyboard.c\<close> and the handler of \<^verbatim>\<open>src/kernel/input.c\<close> that calls it: Set 1
  scancodes become characters under Shift and Caps Lock.  The keyboard controller behind port
  0x60 is the machine's device.
\<close>

section \<open>State and operations\<close>

definition KEYBOARD_DATA_PORT :: u16 where "KEYBOARD_DATA_PORT = 0x60"

definition KEYBOARD_RELEASED_MASK :: u8 where "KEYBOARD_RELEASED_MASK = 0x80"

definition KEYBOARD_SCANCODE_TABLE_SIZE :: nat where "KEYBOARD_SCANCODE_TABLE_SIZE = 128"

definition SCANCODE_LEFT_SHIFT :: u8 where "SCANCODE_LEFT_SHIFT = 0x2A"

definition SCANCODE_RIGHT_SHIFT :: u8 where "SCANCODE_RIGHT_SHIFT = 0x36"

definition SCANCODE_CAPS_LOCK :: u8 where "SCANCODE_CAPS_LOCK = 0x3A"

record keyboard =
  keyboard_shift_pressed :: bool
  keyboard_caps_lock_enabled :: bool

definition keyboard_static :: keyboard where
  "keyboard_static = \<lparr>keyboard_shift_pressed = False, keyboard_caps_lock_enabled = False\<rparr>"

text \<open>An array with designated initializers; the other cells are zero.\<close>

definition scancode_table :: "(nat \<times> char) list \<Rightarrow> char list" where
  "scancode_table entries =
     map (\<lambda>i. case map_of entries i of Some c \<Rightarrow> c | None \<Rightarrow> NUL) [0..<KEYBOARD_SCANCODE_TABLE_SIZE]"

definition keyboard_normal_keys :: "(nat \<times> char) list" where
  "keyboard_normal_keys = [
      (0x02, CHR ''1''), (0x03, CHR ''2''), (0x04, CHR ''3''), (0x05, CHR ''4''),
      (0x06, CHR ''5''), (0x07, CHR ''6''), (0x08, CHR ''7''), (0x09, CHR ''8''),
      (0x0A, CHR ''9''), (0x0B, CHR ''0''), (0x0C, CHR 0x2D), (0x0D, CHR 0x3D),
      (0x0E, CHR 0x08), (0x0F, CHR 0x09), (0x10, CHR ''q''), (0x11, CHR ''w''),
      (0x12, CHR ''e''), (0x13, CHR ''r''), (0x14, CHR ''t''), (0x15, CHR ''y''),
      (0x16, CHR ''u''), (0x17, CHR ''i''), (0x18, CHR ''o''), (0x19, CHR ''p''),
      (0x1A, CHR 0x5B), (0x1B, CHR 0x5D), (0x1C, CHR 0x0A), (0x1E, CHR ''a''),
      (0x1F, CHR ''s''), (0x20, CHR ''d''), (0x21, CHR ''f''), (0x22, CHR ''g''),
      (0x23, CHR ''h''), (0x24, CHR ''j''), (0x25, CHR ''k''), (0x26, CHR ''l''),
      (0x27, CHR 0x3B), (0x28, CHR 0x27), (0x29, CHR 0x60), (0x2B, CHR 0x5C),
      (0x2C, CHR ''z''), (0x2D, CHR ''x''), (0x2E, CHR ''c''), (0x2F, CHR ''v''),
      (0x30, CHR ''b''), (0x31, CHR ''n''), (0x32, CHR ''m''), (0x33, CHR 0x2C),
      (0x34, CHR 0x2E), (0x35, CHR 0x2F), (0x39, CHR '' '')]"

definition keyboard_normal_map :: "char list" where
  "keyboard_normal_map = scancode_table keyboard_normal_keys"

definition keyboard_shift_keys :: "(nat \<times> char) list" where
  "keyboard_shift_keys = [
      (0x02, CHR 0x21), (0x03, CHR 0x40), (0x04, CHR 0x23), (0x05, CHR 0x24),
      (0x06, CHR 0x25), (0x07, CHR 0x5E), (0x08, CHR 0x26), (0x09, CHR 0x2A),
      (0x0A, CHR 0x28), (0x0B, CHR 0x29), (0x0C, CHR 0x5F), (0x0D, CHR 0x2B),
      (0x0E, CHR 0x08), (0x0F, CHR 0x09), (0x10, CHR ''Q''), (0x11, CHR ''W''),
      (0x12, CHR ''E''), (0x13, CHR ''R''), (0x14, CHR ''T''), (0x15, CHR ''Y''),
      (0x16, CHR ''U''), (0x17, CHR ''I''), (0x18, CHR ''O''), (0x19, CHR ''P''),
      (0x1A, CHR 0x7B), (0x1B, CHR 0x7D), (0x1C, CHR 0x0A), (0x1E, CHR ''A''),
      (0x1F, CHR ''S''), (0x20, CHR ''D''), (0x21, CHR ''F''), (0x22, CHR ''G''),
      (0x23, CHR ''H''), (0x24, CHR ''J''), (0x25, CHR ''K''), (0x26, CHR ''L''),
      (0x27, CHR 0x3A), (0x28, CHR 0x22), (0x29, CHR 0x7E), (0x2B, CHR 0x7C),
      (0x2C, CHR ''Z''), (0x2D, CHR ''X''), (0x2E, CHR ''C''), (0x2F, CHR ''V''),
      (0x30, CHR ''B''), (0x31, CHR ''N''), (0x32, CHR ''M''), (0x33, CHR 0x3C),
      (0x34, CHR 0x3E), (0x35, CHR 0x3F), (0x39, CHR '' '')]"

definition keyboard_shift_map :: "char list" where
  "keyboard_shift_map = scancode_table keyboard_shift_keys"

definition keyboard_is_letter_scancode :: "u8 \<Rightarrow> bool" where
  "keyboard_is_letter_scancode scancode \<longleftrightarrow>
     (scancode \<ge> 0x10 \<and> scancode \<le> 0x19) \<or>
     (scancode \<ge> 0x1E \<and> scancode \<le> 0x26) \<or>
     (scancode \<ge> 0x2C \<and> scancode \<le> 0x32)"

definition keyboard_handle_modifier_press :: "u8 \<Rightarrow> keyboard \<Rightarrow> keyboard" where
  "keyboard_handle_modifier_press scancode k =
     (if scancode = SCANCODE_LEFT_SHIFT \<or> scancode = SCANCODE_RIGHT_SHIFT
      then k\<lparr>keyboard_shift_pressed := True\<rparr>
      else if scancode = SCANCODE_CAPS_LOCK
      then k\<lparr>keyboard_caps_lock_enabled := \<not> keyboard_caps_lock_enabled k\<rparr>
      else k)"

definition keyboard_handle_modifier_release :: "u8 \<Rightarrow> keyboard \<Rightarrow> keyboard" where
  "keyboard_handle_modifier_release scancode k =
     (if scancode = SCANCODE_LEFT_SHIFT \<or> scancode = SCANCODE_RIGHT_SHIFT
      then k\<lparr>keyboard_shift_pressed := False\<rparr> else k)"

definition keyboard_translate_scancode :: "u8 \<Rightarrow> keyboard \<Rightarrow> char" where
  "keyboard_translate_scancode scancode k =
     (if unat scancode \<ge> KEYBOARD_SCANCODE_TABLE_SIZE then NUL
      else if keyboard_is_letter_scancode scancode then
        let uppercase = (keyboard_shift_pressed k \<noteq> keyboard_caps_lock_enabled k) in
        if uppercase then keyboard_shift_map ! unat scancode
        else keyboard_normal_map ! unat scancode
      else if keyboard_shift_pressed k then keyboard_shift_map ! unat scancode
      else keyboard_normal_map ! unat scancode)"

text \<open>The part of the interrupt handler after the port read.\<close>

definition keyboard_process_scancode :: "u8 \<Rightarrow> keyboard \<Rightarrow> bool \<times> char \<times> keyboard" where
  "keyboard_process_scancode raw_scancode k =
     (let released = (raw_scancode AND KEYBOARD_RELEASED_MASK \<noteq> 0);
          scancode = raw_scancode AND NOT KEYBOARD_RELEASED_MASK
      in
      if released then (False, NUL, keyboard_handle_modifier_release scancode k)
      else
        let k1 = keyboard_handle_modifier_press scancode k in
        if scancode = SCANCODE_LEFT_SHIFT \<or> scancode = SCANCODE_RIGHT_SHIFT \<or>
           scancode = SCANCODE_CAPS_LOCK
        then (False, NUL, k1)
        else
          let ascii = keyboard_translate_scancode scancode k1 in
          if ascii = NUL then (False, NUL, k1) else (True, ascii, k1))"

text \<open>The out parameter is \<open>None\<close> for a NULL pointer, which is refused before the port is read.\<close>

definition keyboard_handle_interrupt ::
  "char option \<Rightarrow> keyboard \<Rightarrow> 'a machine_scheme \<Rightarrow> bool \<times> char option \<times> keyboard \<times> 'a machine_scheme" where
  "keyboard_handle_interrupt out_ascii k m =
     (if out_ascii = None then (False, None, k, m)
      else
        let (raw_scancode, m1) = inb KEYBOARD_DATA_PORT m;
            (produced, ascii, k1) = keyboard_process_scancode raw_scancode k
        in (produced, Some ascii, k1, m1))"

definition input_handle_keyboard_interrupt ::
  "input \<Rightarrow> keyboard \<Rightarrow> 'a machine_scheme \<Rightarrow> (input \<times> keyboard \<times> 'a machine_scheme) option" where
  "input_handle_keyboard_interrupt q k m =
     (let (produced, ascii, k1, m1) = keyboard_handle_interrupt (Some NUL) k m in
      if produced then do {
        (_, q1) \<leftarrow> input_enqueue_character (the ascii) q;
        Some (q1, k1, m1)
      }
      else Some (q, k1, m1))"

section \<open>The tables\<close>

lemma scancode_table_nth:
  "i < 128 \<Longrightarrow> scancode_table es ! i = (case map_of es i of Some c \<Rightarrow> c | None \<Rightarrow> NUL)"
  by (simp add: scancode_table_def KEYBOARD_SCANCODE_TABLE_SIZE_def)

lemma normal_keys_distinct: "distinct (map fst keyboard_normal_keys)"
  by (simp add: keyboard_normal_keys_def)

lemma shift_keys_distinct: "distinct (map fst keyboard_shift_keys)"
  by (simp add: keyboard_shift_keys_def)

lemma keys_in_table:
  "\<forall>(i, c) \<in> set keyboard_normal_keys \<union> set keyboard_shift_keys. i < 128 \<and> c \<noteq> NUL \<and>
     i \<noteq> 0x2A \<and> i \<noteq> 0x36 \<and> i \<noteq> 0x3A"
  by (simp add: keyboard_normal_keys_def keyboard_shift_keys_def)

definition typable :: "char set" where
  "typable = char_of ` set ([8, 9, 10] @ [32..<127 :: nat])"

lemma typable_keys: "typable = snd ` (set keyboard_normal_keys \<union> set keyboard_shift_keys)"
proof -
  let ?es = "keyboard_normal_keys @ keyboard_shift_keys"
  let ?ns = "map (\<lambda>(i, c). of_char c :: nat) ?es"
  have ns: "\<forall>n \<in> set ?ns. n = 8 \<or> n = 9 \<or> n = 10 \<or> 32 \<le> n \<and> n \<le> 126"
    by (simp add: keyboard_normal_keys_def keyboard_shift_keys_def)
  have all: "list_all (\<lambda>n. n \<in> set ?ns) ([8, 9, 10] @ [32..<127])"
    by (simp add: keyboard_normal_keys_def keyboard_shift_keys_def upt_rec)
  have "snd ` set ?es = char_of ` set ?ns" by (force simp: image_iff)
  moreover have "set ?ns = set ([8, 9, 10] @ [32..<127])"
  proof
    show "set ([8, 9, 10] @ [32..<127]) \<subseteq> set ?ns" using all unfolding list_all_iff by blast
    show "set ?ns \<subseteq> set ([8, 9, 10] @ [32..<127])"
    proof
      fix n assume "n \<in> set ?ns"
      then have "n = 8 \<or> n = 9 \<or> n = 10 \<or> 32 \<le> n \<and> n \<le> 126" using ns by blast
      then show "n \<in> set ([8, 9, 10] @ [32..<127])" by (simp only: set_append set_upt Un_iff) auto
    qed
  qed
  ultimately show ?thesis unfolding typable_def set_append by (simp only: set_append)
qed

section \<open>Decoding one scancode\<close>

lemma released_iff: "raw AND KEYBOARD_RELEASED_MASK \<noteq> 0 \<longleftrightarrow> 128 \<le> unat (raw :: u8)"
proof -
  have "KEYBOARD_RELEASED_MASK = push_bit 7 1" by (simp add: KEYBOARD_RELEASED_MASK_def)
  then have "raw AND KEYBOARD_RELEASED_MASK \<noteq> 0 \<longleftrightarrow> bit raw 7"
    by (simp only: bit_iff_and_push_bit_not_eq_0)
  also have "\<dots> \<longleftrightarrow> bit (unat raw) 7" by (simp add: bit_unsigned_iff)
  also have "\<dots> \<longleftrightarrow> odd (unat raw div 128)" by (simp add: bit_iff_odd)
  also have "\<dots> \<longleftrightarrow> 128 \<le> unat raw"
  proof (cases "unat raw < 128")
    case False
    then have "unat raw div 128 = Suc ((unat raw - 128) div 128)" by (subst div_if) simp
    then show ?thesis using False unat_lt_u8 [of raw] by simp
  qed simp
  finally show ?thesis .
qed

lemma key_of_raw: "unat (raw AND NOT KEYBOARD_RELEASED_MASK) = unat (raw :: u8) mod 128"
proof -
  have "NOT KEYBOARD_RELEASED_MASK = mask 7" by (simp add: KEYBOARD_RELEASED_MASK_def mask_eq_exp_minus_1)
  then have "raw AND NOT KEYBOARD_RELEASED_MASK = take_bit 7 raw" by (simp add: take_bit_eq_mask)
  then show ?thesis using unat_take_bit_mod [of 7 raw] by simp
qed

lemma pressed_key: "unat raw < 128 \<Longrightarrow> raw AND NOT KEYBOARD_RELEASED_MASK = (raw :: u8)"
  by (simp add: word_unat_eq_iff key_of_raw)

definition key_table :: "u8 \<Rightarrow> keyboard \<Rightarrow> (nat \<times> char) list" where
  "key_table sc k =
     (if keyboard_shift_pressed k \<noteq> (keyboard_is_letter_scancode sc \<and> keyboard_caps_lock_enabled k)
      then keyboard_shift_keys else keyboard_normal_keys)"

lemma translate_eq:
  "unat sc < 128 \<Longrightarrow> keyboard_translate_scancode sc k =
     (case map_of (key_table sc k) (unat sc) of Some c \<Rightarrow> c | None \<Rightarrow> NUL)"
  by (auto simp: keyboard_translate_scancode_def key_table_def keyboard_normal_map_def keyboard_shift_map_def
      scancode_table_nth KEYBOARD_SCANCODE_TABLE_SIZE_def Let_def)

lemma map_of_key_table: "map_of (key_table sc k) i = Some c \<Longrightarrow>
    (i, c) \<in> set keyboard_normal_keys \<union> set keyboard_shift_keys"
  by (auto simp: key_table_def dest!: map_of_SomeD split: if_splits)

definition modifier_key :: "u8 \<Rightarrow> bool" where
  "modifier_key sc \<longleftrightarrow> sc = 0x2A \<or> sc = 0x36 \<or> sc = 0x3A"

text \<open>The whole of a press and of a release.\<close>

lemma process_press:
  assumes "unat raw < 128"
  shows "keyboard_process_scancode raw k =
     (if modifier_key raw then (False, NUL, keyboard_handle_modifier_press raw k)
      else case map_of (key_table raw k) (unat raw) of
             None \<Rightarrow> (False, NUL, k) | Some c \<Rightarrow> (True, c, k))"
proof -
  have nul: "map_of (key_table raw k) (unat raw) = Some c \<Longrightarrow> c \<noteq> NUL" for c
    using map_of_key_table keys_in_table by fastforce
  have "\<not> raw AND KEYBOARD_RELEASED_MASK \<noteq> 0" unfolding released_iff using assms by simp
  then show ?thesis using nul assms
    by (auto simp: keyboard_process_scancode_def pressed_key translate_eq modifier_key_def Let_def
        keyboard_handle_modifier_press_def SCANCODE_LEFT_SHIFT_def SCANCODE_RIGHT_SHIFT_def
        SCANCODE_CAPS_LOCK_def split: option.splits)
qed

lemma process_release:
  "128 \<le> unat raw \<Longrightarrow> keyboard_process_scancode raw k =
     (False, NUL, keyboard_handle_modifier_release (raw AND NOT KEYBOARD_RELEASED_MASK) k)"
  using released_iff [of raw] by (simp add: keyboard_process_scancode_def)

lemma process_produces:
  assumes "keyboard_process_scancode raw k = (True, c, k')"
  shows "c \<in> typable"
proof -
  have "unat raw < 128" using assms process_release [of raw k] by (cases "unat raw < 128") simp_all
  then have "map_of (key_table raw k) (unat raw) = Some c"
    using assms by (auto simp: process_press split: if_splits option.splits)
  then show ?thesis unfolding typable_keys using map_of_key_table by force
qed

lemma key_produces:
  assumes "(i, c) \<in> set keyboard_normal_keys \<union> set keyboard_shift_keys"
  shows "\<exists>raw k k'. keyboard_process_scancode raw k = (True, c, k')"
proof -
  let ?k = "\<lparr>keyboard_shift_pressed = (i, c) \<notin> set keyboard_normal_keys, keyboard_caps_lock_enabled = False\<rparr>"
  have i: "i < 128" "i \<noteq> 0x2A" "i \<noteq> 0x36" "i \<noteq> 0x3A" using assms keys_in_table by blast+
  have u: "unat (of_nat i :: u8) = i" using i(1) by (simp add: unat_of_nat)
  have "map_of (key_table (of_nat i) ?k) i = Some c"
    using assms normal_keys_distinct shift_keys_distinct by (auto simp: key_table_def)
  moreover have "\<not> modifier_key (of_nat i)" using i u by (auto simp: modifier_key_def word_unat_eq_iff)
  ultimately have "keyboard_process_scancode (of_nat i) ?k = (True, c, ?k)"
    using i(1) u by (simp add: process_press)
  then show ?thesis by blast
qed

section \<open>A stream of scancodes\<close>

fun keyboard_type :: "u8 list \<Rightarrow> keyboard \<Rightarrow> char list \<times> keyboard" where
  "keyboard_type [] k = ([], k)"
| "keyboard_type (r # rs) k =
     (let (produced, c, k1) = keyboard_process_scancode r k; (cs, k2) = keyboard_type rs k1
      in (if produced then c # cs else cs, k2))"

lemma keyboard_type_append:
  "keyboard_type (rs @ [r]) k =
     (let (cs, k1) = keyboard_type rs k; (produced, c, k2) = keyboard_process_scancode r k1
      in (cs @ (if produced then [c] else []), k2))"
  by (induction rs arbitrary: k) (auto simp: Let_def case_prod_beta)

definition shift_event :: "u8 \<Rightarrow> bool" where
  "shift_event r \<longleftrightarrow> r \<in> {0x2A, 0x36, 0xAA, 0xB6}"

text \<open>The last Shift key event was a press.\<close>

definition shift_down :: "u8 list \<Rightarrow> bool" where
  "shift_down rs \<longleftrightarrow> filter shift_event rs \<noteq> [] \<and> unat (last (filter shift_event rs)) < 128"

lemma process_modifiers:
  "keyboard_shift_pressed (snd (snd (keyboard_process_scancode r k))) =
     (if shift_event r then unat r < 128 else keyboard_shift_pressed k)"
  "keyboard_caps_lock_enabled (snd (snd (keyboard_process_scancode r k))) =
     (keyboard_caps_lock_enabled k \<noteq> (r = 0x3A))"
proof -
  have eq: "r = v \<longleftrightarrow> unat r = unat v" for v by (rule word_eq_unat)
  have "keyboard_shift_pressed (snd (snd (keyboard_process_scancode r k))) =
     (if shift_event r then unat r < 128 else keyboard_shift_pressed k) \<and>
     keyboard_caps_lock_enabled (snd (snd (keyboard_process_scancode r k))) =
     (keyboard_caps_lock_enabled k \<noteq> (r = 0x3A))"
  proof (cases "unat r < 128")
    case True
    then show ?thesis
      by (auto simp: process_press modifier_key_def keyboard_handle_modifier_press_def shift_event_def
          SCANCODE_LEFT_SHIFT_def SCANCODE_RIGHT_SHIFT_def SCANCODE_CAPS_LOCK_def split: option.splits)
  next
    case False
    then have "unat (r AND NOT KEYBOARD_RELEASED_MASK) = unat r - 128"
      using unat_lt_u8 [of r] by (simp add: key_of_raw le_mod_geq)
    then have "r AND NOT KEYBOARD_RELEASED_MASK = v \<longleftrightarrow> unat r = unat v + 128" for v
      using False by (auto simp: word_unat_eq_iff)
    then show ?thesis using False
      by (auto simp: process_release keyboard_handle_modifier_release_def shift_event_def eq
          SCANCODE_LEFT_SHIFT_def SCANCODE_RIGHT_SHIFT_def)
  qed
  then show "keyboard_shift_pressed (snd (snd (keyboard_process_scancode r k))) =
     (if shift_event r then unat r < 128 else keyboard_shift_pressed k)"
    "keyboard_caps_lock_enabled (snd (snd (keyboard_process_scancode r k))) =
     (keyboard_caps_lock_enabled k \<noteq> (r = 0x3A))" by simp_all
qed

lemma type_modifiers:
  "keyboard_shift_pressed (snd (keyboard_type rs keyboard_static)) = shift_down rs \<and>
   keyboard_caps_lock_enabled (snd (keyboard_type rs keyboard_static)) = odd (length (filter (\<lambda>r. r = 0x3A) rs))"
proof (induction rs rule: rev_induct)
  case Nil
  then show ?case by (simp add: keyboard_static_def shift_down_def)
next
  case (snoc r rs)
  then show ?case
    by (auto simp: keyboard_type_append process_modifiers shift_down_def Let_def case_prod_beta)
qed

section \<open>Keys and their scancodes\<close>

text \<open>
  What a Set 1 keyboard sends: a press is the 7-bit code of the key, a release the code plus 0x80, and
  the extended keys send the prefix 0xE0 first.
\<close>

datatype key_event = Key (key_extended: bool) (key_code: "7 word") (key_pressed: bool)

definition key_byte :: "key_event \<Rightarrow> u8" where
  "key_byte e = (if key_pressed e then ucast (key_code e) else ucast (key_code e) + 0x80)"

definition key_bytes :: "key_event \<Rightarrow> u8 list" where
  "key_bytes e = (if key_extended e then [0xE0, key_byte e] else [key_byte e])"

definition keyboard_after :: "key_event list \<Rightarrow> keyboard" where
  "keyboard_after es = snd (keyboard_type (concat (map key_bytes es)) keyboard_static)"

definition shift_key :: "key_event \<Rightarrow> bool" where
  "shift_key e \<longleftrightarrow> key_code e = 0x2A \<or> key_code e = 0x36"

definition caps_press :: "key_event \<Rightarrow> bool" where
  "caps_press e \<longleftrightarrow> key_code e = 0x3A \<and> key_pressed e"

definition last_shift_pressed :: "key_event list \<Rightarrow> bool" where
  "last_shift_pressed es \<longleftrightarrow> filter shift_key es \<noteq> [] \<and> key_pressed (last (filter shift_key es))"

lemma unat_lt_7: "unat (w :: 7 word) < 128"
  using unsigned_less [of w, where 'a = nat] by simp

lemma unat_key_byte: "unat (key_byte e) = unat (key_code e) + (if key_pressed e then 0 else 128)"
  using unat_lt_7 [of "key_code e"] by (simp add: key_byte_def unat_word_ariths unsigned_ucast_eq take_bit_eq_mod)

lemma key_byte_events:
  "shift_event (key_byte e) = shift_key e" "key_byte e = 0x3A \<longleftrightarrow> caps_press e"
  "unat (key_byte e) < 128 \<longleftrightarrow> key_pressed e"
  using unat_lt_7 [of "key_code e"]
  by (auto simp: shift_event_def shift_key_def caps_press_def word_unat_eq_iff unat_key_byte)

lemma prefix_events: "\<not> shift_event 0xE0" "(0xE0 :: u8) \<noteq> 0x3A"
  by (simp_all add: shift_event_def)

lemma key_bytes_events:
  "filter shift_event (concat (map key_bytes es)) = map key_byte (filter shift_key es)"
  "filter (\<lambda>r. r = 0x3A) (concat (map key_bytes es)) = map key_byte (filter caps_press es)"
  by (induction es) (simp_all add: key_bytes_def key_byte_events prefix_events)

lemma keyboard_after_modifiers:
  "keyboard_shift_pressed (keyboard_after es) = last_shift_pressed es"
  "keyboard_caps_lock_enabled (keyboard_after es) = odd (length (filter caps_press es))"
  using type_modifiers [of "concat (map key_bytes es)"]
  by (auto simp: keyboard_after_def shift_down_def key_bytes_events last_shift_pressed_def last_map key_byte_events)

lemma filter_plain:
  assumes "\<forall>e \<in> set es. key_extended e \<longrightarrow> \<not> P e"
  shows "filter P (filter (\<lambda>e. \<not> key_extended e) es) = filter P es"
  unfolding filter_filter by (rule filter_cong) (use assms in auto)

lemma keyboard_after_plain:
  assumes "\<forall>e \<in> set es. key_extended e \<longrightarrow> key_code e \<notin> {0x2A, 0x36, 0x3A}"
  shows "keyboard_after es = keyboard_after (filter (\<lambda>e. \<not> key_extended e) es)"
proof (rule keyboard.equality)
  have s: "\<forall>e \<in> set es. key_extended e \<longrightarrow> \<not> shift_key e" and c: "\<forall>e \<in> set es. key_extended e \<longrightarrow> \<not> caps_press e"
    using assms by (auto simp: shift_key_def caps_press_def)
  show "keyboard_shift_pressed (keyboard_after es) =
      keyboard_shift_pressed (keyboard_after (filter (\<lambda>e. \<not> key_extended e) es))"
    unfolding keyboard_after_modifiers last_shift_pressed_def filter_plain [OF s] ..
  show "keyboard_caps_lock_enabled (keyboard_after es) =
      keyboard_caps_lock_enabled (keyboard_after (filter (\<lambda>e. \<not> key_extended e) es))"
    unfolding keyboard_after_modifiers filter_plain [OF c] ..
qed simp

section \<open>The interrupt handler\<close>

text \<open>The scancode the controller answers with.\<close>

definition next_scancode :: "'a machine_scheme \<Rightarrow> u8" where
  "next_scancode m = io_device m (io_log m) KEYBOARD_DATA_PORT"

lemma input_irq_spec:
  assumes "input_ok q"
  shows "\<exists>q'. input_handle_keyboard_interrupt q k m =
       Some (q', snd (snd (keyboard_process_scancode (next_scancode m) k)),
             m\<lparr>io_log := In KEYBOARD_DATA_PORT (next_scancode m) # io_log m\<rparr>) \<and>
     input_ok q' \<and> input_queue_tail q' = input_queue_tail q \<and>
     queue_contents q' = queue_contents q @
       (case keyboard_process_scancode (next_scancode m) k of
          (produced, c, _) \<Rightarrow> if produced \<and> length (queue_contents q) < 64 then [c] else [])"
proof -
  obtain produced c k1 where p: "keyboard_process_scancode (next_scancode m) k = (produced, c, k1)"
    by (metis prod_cases3)
  have h: "keyboard_handle_interrupt (Some NUL) k m =
      (produced, Some c, k1, m\<lparr>io_log := In KEYBOARD_DATA_PORT (next_scancode m) # io_log m\<rparr>)"
    using p by (simp add: keyboard_handle_interrupt_def inb_def next_scancode_def Let_def)
  consider "\<not> produced" | "produced" "queue_length q < 64" | "produced" "queue_length q = 64"
    using assms by (auto simp: input_ok_def order_le_less)
  then show ?thesis
  proof cases
    case 1
    then show ?thesis using assms h p by (simp add: input_handle_keyboard_interrupt_def)
  next
    case 2
    from enqueue_room [OF assms 2(2), of c] 2 h p show ?thesis
      by (auto simp: input_handle_keyboard_interrupt_def)
  next
    case 3
    from enqueue_full [OF assms 3(2), of c] 3 h p show ?thesis
      by (auto simp: input_handle_keyboard_interrupt_def)
  qed
qed

section \<open>Properties\<close>

text \<open>C33. The keyboard driver produces exactly the characters a US keyboard can type as text: backspace,
  tab, newline and the 95 printable ASCII characters.  Each of them can be typed, and no scancode
  in any modifier state produces anything else, in particular never a NUL.\<close>

theorem keyboard_types_exactly_ascii:
  "{c. \<exists>raw k k'. keyboard_process_scancode raw k = (True, c, k')} =
     char_of ` set ([8, 9, 10] @ [32..<127 :: nat])"
  unfolding typable_def [symmetric]
proof
  show "{c. \<exists>raw k k'. keyboard_process_scancode raw k = (True, c, k')} \<subseteq> typable"
    using process_produces by blast
  show "typable \<subseteq> {c. \<exists>raw k k'. keyboard_process_scancode raw k = (True, c, k')}"
    unfolding typable_keys using key_produces by force
qed

text \<open>C34. After any sequence of key presses and releases from power-on, of plain and of extended keys,
  Shift counts as held exactly when the last event of a key with one of the two Shift codes was a press
  (so releasing one Shift key while the other is held counts as a release), and Caps Lock is on exactly
  when a key with its code was pressed an odd number of times.  The driver drops the prefix of extended
  keys and does not ignore the code behind it, as its comment says: the fake Shift that keyboards
  send around some extended keys (E0 2A, E0 AA) counts as a Shift key.  Where no extended key has
  one of the three codes, extended keys change nothing and the plain keys alone determine the modifiers.\<close>

theorem keyboard_modifiers_track_history:
  "keyboard_shift_pressed (keyboard_after es) = last_shift_pressed es \<and>
   keyboard_caps_lock_enabled (keyboard_after es) = odd (length (filter caps_press es)) \<and>
   keyboard_shift_pressed (keyboard_after (es @ [Key True 0x2A pressed])) = pressed \<and>
   ((\<forall>e \<in> set es. key_extended e \<longrightarrow> key_code e \<notin> {0x2A, 0x36, 0x3A}) \<longrightarrow>
     keyboard_after es = keyboard_after (filter (\<lambda>e. \<not> key_extended e) es))"
proof -
  have "last_shift_pressed (es @ [Key True 0x2A pressed]) = pressed"
    by (simp add: last_shift_pressed_def shift_key_def)
  then show ?thesis using keyboard_after_plain [of es] by (simp only: keyboard_after_modifiers simp_thms) blast
qed

text \<open>Shift is pressed, the right arrow pressed and released, Shift released, Caps Lock pressed and released.\<close>

definition sample_keys :: "key_event list" where
  "sample_keys = [Key False 0x2A True, Key True 0x4D True, Key True 0x4D False, Key False 0x2A False,
     Key False 0x3A True, Key False 0x3A False]"

lemma keyboard_modifiers_track_history_witness:
  "keyboard_after sample_keys = keyboard_after [Key False 0x2A True, Key False 0x2A False, Key False 0x3A True,
     Key False 0x3A False] \<and>
   \<not> keyboard_shift_pressed (keyboard_after sample_keys) \<and> keyboard_caps_lock_enabled (keyboard_after sample_keys)"
proof -
  note h = keyboard_modifiers_track_history [of sample_keys True]
  have plain: "filter (\<lambda>e. \<not> key_extended e) sample_keys =
      [Key False 0x2A True, Key False 0x2A False, Key False 0x3A True, Key False 0x3A False]"
    by (simp add: sample_keys_def)
  have codes: "\<forall>e \<in> set sample_keys. key_extended e \<longrightarrow> key_code e \<notin> {0x2A, 0x36, 0x3A}"
    by (simp add: sample_keys_def)
  have "\<not> last_shift_pressed sample_keys" "odd (length (filter caps_press sample_keys))"
    by (simp_all add: sample_keys_def last_shift_pressed_def shift_key_def caps_press_def)
  then show ?thesis using h codes unfolding plain by blast
qed

text \<open>One keyboard interrupt reads the data port exactly once, decodes the byte, and appends the
  character it produced, if any, to the input queue unless 64 are waiting; it never faults, never
  touches the reader's end of the queue and never changes the processor's state.\<close>

theorem keyboard_interrupt_queues:
  assumes "input_ok q"
  shows "\<exists>q' k'. input_handle_keyboard_interrupt q k m =
       Some (q', k', m\<lparr>io_log := In 0x60 (next_scancode m) # io_log m\<rparr>) \<and>
     input_ok q' \<and> input_queue_tail q' = input_queue_tail q \<and>
     (case keyboard_process_scancode (next_scancode m) k of (produced, c, k'') \<Rightarrow>
        k' = k'' \<and> queue_contents q' =
          queue_contents q @ (if produced \<and> length (queue_contents q) < 64 then [c] else []))"
  using input_irq_spec [OF assms, of k m] by (auto simp: KEYBOARD_DATA_PORT_def case_prod_beta)

definition sample_machine :: machine where
  "sample_machine = \<lparr>io_device = (\<lambda>_ _. 0x1E), io_log = [], reg_if = True, cpu_halted = False, reg_cr0 = 0,
     reg_cr3 = 0, reg_gdtr = (0, 0), reg_idtr = (0, 0)\<rparr>"

lemma press_a: "keyboard_process_scancode 0x1E keyboard_static = (True, CHR ''a'', keyboard_static)"
  by (simp add: process_press modifier_key_def key_table_def keyboard_static_def keyboard_normal_keys_def)

lemma keyboard_interrupt_queues_witness:
  "\<exists>q' k'. input_handle_keyboard_interrupt (input_initialize input_static) keyboard_static sample_machine =
       Some (q', k', sample_machine\<lparr>io_log := [In 0x60 0x1E]\<rparr>) \<and> queue_contents q' = ''a''"
proof -
  have ok: "input_ok (input_initialize input_static)" "queue_contents (input_initialize input_static) = []"
    using initialized_ok [OF static_alen] by simp_all
  have r: "next_scancode sample_machine = 0x1E" "io_log sample_machine = []"
    by (simp_all add: next_scancode_def sample_machine_def)
  show ?thesis
    using keyboard_interrupt_queues [OF ok(1), of keyboard_static sample_machine]
    unfolding r press_a by (auto simp: ok(2))
qed

text \<open>Extended scancodes are not ignored.  The prefix byte alone is dropped, so the keypad Enter key
  (E0 1C) types a newline, the fake Shift that a keyboard wraps around some navigation keys
  (E0 2A) turns the next letter into a capital, and its release (E0 AA) makes a Shift key the user
  still holds count as released; so does releasing one Shift key while the other is held.\<close>

theorem keyboard_extended_codes_decoded:
  "fst (keyboard_type [0xE0, 0x1C] keyboard_static) = [CHR 0x0A] \<and>
   fst (keyboard_type [0xE0, 0x2A, 0x1E] keyboard_static) = ''A'' \<and>
   fst (keyboard_type [0x2A, 0xE0, 0xAA, 0x1E] keyboard_static) = ''a'' \<and>
   fst (keyboard_type [0x2A, 0x36, 0xAA, 0x1E] keyboard_static) = ''a''"
  by (simp add: process_press process_release modifier_key_def key_table_def keyboard_static_def
      keyboard_normal_keys_def keyboard_shift_keys_def keyboard_handle_modifier_press_def
      keyboard_handle_modifier_release_def SCANCODE_LEFT_SHIFT_def SCANCODE_RIGHT_SHIFT_def
      SCANCODE_CAPS_LOCK_def KEYBOARD_RELEASED_MASK_def keyboard_is_letter_scancode_def)

end
