(* ===== verification/Interrupts.thy ===== *)
theory Interrupts
  imports Prelude
begin

text \<open>
  \<^verbatim>\<open>src/kernel/interrupts.c\<close>: the registry of IRQ handlers, the interrupt-context depth and the
  saturating counters.  A handler is a value of the type \<open>'h\<close>; \<open>interrupts_dispatch_irq\<close>
  returns the handler that C calls as its last action, if any.
\<close>

section \<open>State and operations\<close>

definition IRQ_HANDLER_COUNT :: u8 where "IRQ_HANDLER_COUNT = 16"

record 'h interrupts =
  irq_handlers :: "'h option carray"
  irq_dispatch_counts :: "u32 carray"
  unhandled_irq_count :: u32
  invalid_irq_count :: u32
  interrupt_context_depth :: u32

definition interrupts_static :: "'h interrupts" where
  "interrupts_static = \<lparr>
     irq_handlers = afill (unat IRQ_HANDLER_COUNT) None,
     irq_dispatch_counts = afill (unat IRQ_HANDLER_COUNT) 0,
     unhandled_irq_count = 0,
     invalid_irq_count = 0,
     interrupt_context_depth = 0\<rparr>"

definition interrupts_increment_saturating :: "u32 \<Rightarrow> u32" where
  "interrupts_increment_saturating counter = (if counter \<noteq> UINT32_MAX then counter + 1 else counter)"

definition interrupts_initialize :: "'h interrupts \<Rightarrow> 'h interrupts option" where
  "interrupts_initialize st = do {
     st1 \<leftarrow> for_range 0 (unat IRQ_HANDLER_COUNT) (\<lambda>irq st. do {
       hs \<leftarrow> awrite (irq_handlers st) irq None;
       cs \<leftarrow> awrite (irq_dispatch_counts st) irq 0;
       Some (st\<lparr>irq_handlers := hs, irq_dispatch_counts := cs\<rparr>)
     }) st;
     Some (st1\<lparr>unhandled_irq_count := 0, invalid_irq_count := 0, interrupt_context_depth := 0\<rparr>)
   }"

text \<open>A NULL handler is \<open>None\<close>.\<close>

definition interrupts_register_irq :: "u8 \<Rightarrow> 'h option \<Rightarrow> 'h interrupts \<Rightarrow> (bool \<times> 'h interrupts) option" where
  "interrupts_register_irq irq handler st =
     (if irq \<ge> IRQ_HANDLER_COUNT \<or> handler = None then Some (False, st)
      else do {
        h \<leftarrow> aread (irq_handlers st) (unat irq);
        if h \<noteq> None then Some (False, st)
        else do {
          hs \<leftarrow> awrite (irq_handlers st) (unat irq) handler;
          Some (True, st\<lparr>irq_handlers := hs\<rparr>)
        }
      })"

definition interrupts_context_enter :: "'h interrupts \<Rightarrow> bool \<times> 'h interrupts" where
  "interrupts_context_enter st =
     (if interrupt_context_depth st = UINT32_MAX then (False, st)
      else (True, st\<lparr>interrupt_context_depth := interrupt_context_depth st + 1\<rparr>))"

definition interrupts_context_exit :: "'h interrupts \<Rightarrow> bool \<times> 'h interrupts" where
  "interrupts_context_exit st =
     (if interrupt_context_depth st = 0 then (False, st)
      else (True, st\<lparr>interrupt_context_depth := interrupt_context_depth st - 1\<rparr>))"

definition interrupts_is_in_context :: "'h interrupts \<Rightarrow> bool" where
  "interrupts_is_in_context st \<longleftrightarrow> interrupt_context_depth st \<noteq> 0"

definition interrupts_get_context_depth :: "'h interrupts \<Rightarrow> u32" where
  "interrupts_get_context_depth st = interrupt_context_depth st"

definition interrupts_dispatch_irq :: "u8 \<Rightarrow> 'h interrupts \<Rightarrow> ('h option \<times> 'h interrupts) option" where
  "interrupts_dispatch_irq irq st =
     (if irq \<ge> IRQ_HANDLER_COUNT
      then Some (None, st\<lparr>invalid_irq_count := interrupts_increment_saturating (invalid_irq_count st)\<rparr>)
      else do {
        c \<leftarrow> aread (irq_dispatch_counts st) (unat irq);
        cs \<leftarrow> awrite (irq_dispatch_counts st) (unat irq) (interrupts_increment_saturating c);
        let st1 = st\<lparr>irq_dispatch_counts := cs\<rparr>;
        handler \<leftarrow> aread (irq_handlers st1) (unat irq);
        if handler = None
        then Some (None, st1\<lparr>unhandled_irq_count := interrupts_increment_saturating (unhandled_irq_count st1)\<rparr>)
        else Some (handler, st1)
      })"

definition interrupts_get_irq_count :: "u8 \<Rightarrow> 'h interrupts \<Rightarrow> u32 option" where
  "interrupts_get_irq_count irq st =
     (if irq \<ge> IRQ_HANDLER_COUNT then Some 0 else aread (irq_dispatch_counts st) (unat irq))"

definition interrupts_get_unhandled_irq_count :: "'h interrupts \<Rightarrow> u32" where
  "interrupts_get_unhandled_irq_count st = unhandled_irq_count st"

definition interrupts_get_invalid_irq_count :: "'h interrupts \<Rightarrow> u32" where
  "interrupts_get_invalid_irq_count st = invalid_irq_count st"

section \<open>Abstraction\<close>

definition interrupts_wf :: "'h interrupts \<Rightarrow> bool" where
  "interrupts_wf st \<longleftrightarrow> alen (irq_handlers st) = 16 \<and> alen (irq_dispatch_counts st) = 16"

definition handler_of :: "'h interrupts \<Rightarrow> nat \<Rightarrow> 'h option" where
  "handler_of st i = (if i < 16 then acell (irq_handlers st) i else None)"

definition count_of :: "'h interrupts \<Rightarrow> nat \<Rightarrow> nat" where
  "count_of st i = (if i < 16 then unat (acell (irq_dispatch_counts st) i) else 0)"

text \<open>Counters stop at their maximum.\<close>

definition saturating :: "nat \<Rightarrow> nat" where
  "saturating n = min 4294967295 n"

lemma unat_increment: "unat (interrupts_increment_saturating c) = saturating (Suc (unat c))"
  using unat_saturating [of c] by (simp add: interrupts_increment_saturating_def saturating_def)

lemma irq_in_range: "irq \<ge> IRQ_HANDLER_COUNT \<longleftrightarrow> \<not> unat irq < 16"
  by (simp add: IRQ_HANDLER_COUNT_def word_le_nat_alt not_less)

section \<open>Facts about the operations\<close>

lemma initialize_spec:
  assumes "interrupts_wf st"
  shows "\<exists>st'. interrupts_initialize st = Some st' \<and> interrupts_wf st' \<and>
     (\<forall>i. handler_of st' i = None \<and> count_of st' i = 0) \<and>
     unhandled_irq_count st' = 0 \<and> invalid_irq_count st' = 0 \<and> interrupt_context_depth st' = 0"
proof -
  let ?P = "\<lambda>i (s :: 'a interrupts). interrupts_wf s \<and>
     (\<forall>j < i. acell (irq_handlers s) j = None \<and> acell (irq_dispatch_counts s) j = 0)"
  have "\<exists>s'. for_range 0 16 (\<lambda>irq st. do {
       hs \<leftarrow> awrite (irq_handlers st) irq None;
       cs \<leftarrow> awrite (irq_dispatch_counts st) irq 0;
       Some (st\<lparr>irq_handlers := hs, irq_dispatch_counts := cs\<rparr>)
     }) st = Some s' \<and> ?P 16 s'"
    by (rule for_range_inv [where P = ?P]) (use assms in \<open>auto simp: interrupts_wf_def less_Suc_eq\<close>)
  then show ?thesis
    by (auto simp: interrupts_initialize_def IRQ_HANDLER_COUNT_def interrupts_wf_def handler_of_def count_of_def)
qed

lemma register_spec:
  assumes "interrupts_wf st"
  shows "\<exists>st'. interrupts_register_irq irq (Some h) st = Some (unat irq < 16 \<and> handler_of st (unat irq) = None, st') \<and>
     interrupts_wf st' \<and> count_of st' = count_of st \<and>
     handler_of st' = (if unat irq < 16 \<and> handler_of st (unat irq) = None
                       then (handler_of st)(unat irq := Some h) else handler_of st) \<and>
     interrupt_context_depth st' = interrupt_context_depth st \<and>
     unhandled_irq_count st' = unhandled_irq_count st \<and> invalid_irq_count st' = invalid_irq_count st"
  using assms by (auto simp: interrupts_register_irq_def irq_in_range interrupts_wf_def handler_of_def
      count_of_def fun_eq_iff)

lemma dispatch_spec:
  assumes "interrupts_wf st"
  shows "\<exists>st'. interrupts_dispatch_irq irq st = Some (handler_of st (unat irq), st') \<and>
     interrupts_wf st' \<and> handler_of st' = handler_of st \<and>
     interrupt_context_depth st' = interrupt_context_depth st \<and>
     count_of st' = (if unat irq < 16 then (count_of st)(unat irq := saturating (Suc (count_of st (unat irq))))
                     else count_of st) \<and>
     unat (unhandled_irq_count st') = (if unat irq < 16 \<and> handler_of st (unat irq) = None
       then saturating (Suc (unat (unhandled_irq_count st))) else unat (unhandled_irq_count st)) \<and>
     unat (invalid_irq_count st') = (if unat irq < 16 then unat (invalid_irq_count st)
       else saturating (Suc (unat (invalid_irq_count st))))"
  using assms unfolding interrupts_dispatch_irq_def irq_in_range
  by (auto simp: interrupts_wf_def handler_of_def count_of_def fun_eq_iff unat_increment Let_def)

lemma enter_spec:
  "interrupts_context_enter st = (interrupt_context_depth st \<noteq> UINT32_MAX,
     if interrupt_context_depth st \<noteq> UINT32_MAX
     then st\<lparr>interrupt_context_depth := interrupt_context_depth st + 1\<rparr> else st)"
  by (simp add: interrupts_context_enter_def)

text \<open>Entering and leaving pair up.\<close>

lemma enter_exit:
  assumes "interrupts_context_enter st = (True, st1)" "interrupt_context_depth st2 = interrupt_context_depth st1"
  shows "\<exists>st3. interrupts_context_exit st2 = (True, st3) \<and> interrupt_context_depth st3 = interrupt_context_depth st"
proof -
  have d: "interrupt_context_depth st \<noteq> UINT32_MAX" "interrupt_context_depth st1 = interrupt_context_depth st + 1"
    using assms(1) by (auto simp: interrupts_context_enter_def split: if_splits)
  then have "unat (interrupt_context_depth st1) = Suc (unat (interrupt_context_depth st))"
    by (simp add: unat_Suc_u32)
  then have "interrupt_context_depth st2 \<noteq> 0" using assms(2) by auto
  then show ?thesis using assms(2) d(2) by (simp add: interrupts_context_exit_def)
qed

section \<open>Properties\<close>

text \<open>A dispatched IRQ runs exactly the handler registered for its line and is counted exactly once:
  its line's counter, and the unhandled or invalid counter when no handler exists, advance by one
  and stop at their maximum instead of wrapping.  Any 8-bit IRQ number is safe, and dispatching
  changes neither the registrations nor the interrupt depth.\<close>

theorem dispatch_runs_registered_handler:
  assumes "interrupts_wf st"
  shows "\<exists>st'. interrupts_dispatch_irq irq st = Some (handler_of st (unat irq), st') \<and>
     interrupts_wf st' \<and> handler_of st' = handler_of st \<and>
     interrupt_context_depth st' = interrupt_context_depth st \<and>
     count_of st' = (if unat irq < 16 then (count_of st)(unat irq := saturating (Suc (count_of st (unat irq))))
                     else count_of st) \<and>
     unat (unhandled_irq_count st') = (if unat irq < 16 \<and> handler_of st (unat irq) = None
       then saturating (Suc (unat (unhandled_irq_count st))) else unat (unhandled_irq_count st)) \<and>
     unat (invalid_irq_count st') = (if unat irq < 16 then unat (invalid_irq_count st)
       else saturating (Suc (unat (invalid_irq_count st))))"
  using assms by (rule dispatch_spec)

lemma interrupts_static_wf: "interrupts_wf interrupts_static"
  by (simp add: interrupts_wf_def interrupts_static_def IRQ_HANDLER_COUNT_def)

lemma dispatch_runs_registered_handler_witness:
  "\<exists>st'. interrupts_dispatch_irq 200 (interrupts_static :: nat interrupts) = Some (None, st') \<and>
     unat (invalid_irq_count st') = 1"
  using dispatch_runs_registered_handler [OF interrupts_static_wf, of 200]
  by (auto simp: handler_of_def saturating_def) (auto simp: interrupts_static_def)

text \<open>A line's first registration wins: registering succeeds exactly for a line below 16 without a
  handler, and then dispatching that line returns this handler; a second registration, an invalid
  line or a NULL handler is refused and changes nothing.\<close>

theorem first_registration_wins:
  assumes "interrupts_wf st"
  shows "interrupts_register_irq irq None st = Some (False, st) \<and>
     (if unat irq < 16 \<and> handler_of st (unat irq) = None
      then \<exists>st1 st2. interrupts_register_irq irq (Some h) st = Some (True, st1) \<and> interrupts_wf st1 \<and>
             handler_of st1 = (handler_of st)(unat irq := Some h) \<and>
             interrupts_register_irq irq (Some h') st1 = Some (False, st1) \<and>
             interrupts_dispatch_irq irq st1 = Some (Some h, st2)
      else interrupts_register_irq irq (Some h) st = Some (False, st))"
proof (cases "unat irq < 16 \<and> handler_of st (unat irq) = None")
  case True
  from register_spec [OF assms, of irq h] True obtain st1 where
    1: "interrupts_register_irq irq (Some h) st = Some (True, st1)" "interrupts_wf st1"
       "handler_of st1 = (handler_of st)(unat irq := Some h)" by auto
  have "handler_of st1 (unat irq) = Some h" by (simp add: 1(3))
  then have "acell (irq_handlers st1) (unat irq) = Some h" using True by (simp add: handler_of_def)
  then have "interrupts_register_irq irq (Some h') st1 = Some (False, st1)"
    using 1(2) True by (simp add: interrupts_register_irq_def irq_in_range interrupts_wf_def)
  then show ?thesis using True 1 dispatch_spec [OF 1(2), of irq]
    by (auto simp: interrupts_register_irq_def)
next
  case False
  then show ?thesis using assms
    by (auto simp: interrupts_register_irq_def irq_in_range interrupts_wf_def handler_of_def)
qed

lemma first_registration_wins_witness:
  "\<exists>st1. interrupts_register_irq 1 (Some (7 :: nat)) interrupts_static = Some (True, st1) \<and>
     interrupts_register_irq 1 (Some 8) st1 = Some (False, st1)"
  using first_registration_wins [OF interrupts_static_wf, of 1 7 8]
  by (auto simp: handler_of_def interrupts_static_def IRQ_HANDLER_COUNT_def)

end
