(* ===== verification/Pic.thy ===== *)
theory Pic
  imports Machine
begin

text \<open>
  \<^verbatim>\<open>arch/i386/hardware/pic.c\<close>: the two 8259 interrupt controllers.  The theorems read the log
  of port accesses as an 8259 does (\<open>pic_after\<close>, from its data sheet): which vectors the lines
  are delivered at and which lines are masked.
\<close>

section \<open>Operations\<close>

definition PIC_MASTER_COMMAND :: u16 where "PIC_MASTER_COMMAND = 0x20"
definition PIC_MASTER_DATA :: u16 where "PIC_MASTER_DATA = 0x21"
definition PIC_SLAVE_COMMAND :: u16 where "PIC_SLAVE_COMMAND = 0xA0"
definition PIC_SLAVE_DATA :: u16 where "PIC_SLAVE_DATA = 0xA1"
definition PIC_COMMAND_EOI :: u8 where "PIC_COMMAND_EOI = 0x20"
definition PIC_ICW1_INIT :: u8 where "PIC_ICW1_INIT = 0x10"
definition PIC_ICW1_ICW4 :: u8 where "PIC_ICW1_ICW4 = 0x01"
definition PIC_ICW4_8086 :: u8 where "PIC_ICW4_8086 = 0x01"
definition PIC_MASTER_OFFSET :: u8 where "PIC_MASTER_OFFSET = 0x20"
definition PIC_SLAVE_OFFSET :: u8 where "PIC_SLAVE_OFFSET = 0x28"

definition outb_wait :: "u16 \<Rightarrow> u8 \<Rightarrow> 'a machine_scheme \<Rightarrow> 'a machine_scheme" where
  "outb_wait port v m = io_wait (outb port v m)"

definition pic_remap :: "'a machine_scheme \<Rightarrow> 'a machine_scheme" where
  "pic_remap m =
     (let (master_mask, m1) = inb PIC_MASTER_DATA m;
          (slave_mask, m2) = inb PIC_SLAVE_DATA m1;
          m3 = outb_wait PIC_MASTER_COMMAND (PIC_ICW1_INIT OR PIC_ICW1_ICW4) m2;
          m4 = outb_wait PIC_SLAVE_COMMAND (PIC_ICW1_INIT OR PIC_ICW1_ICW4) m3;
          m5 = outb_wait PIC_MASTER_DATA PIC_MASTER_OFFSET m4;
          m6 = outb_wait PIC_SLAVE_DATA PIC_SLAVE_OFFSET m5;
          m7 = outb_wait PIC_MASTER_DATA 0x04 m6;
          m8 = outb_wait PIC_SLAVE_DATA 0x02 m7;
          m9 = outb_wait PIC_MASTER_DATA PIC_ICW4_8086 m8;
          m10 = outb_wait PIC_SLAVE_DATA PIC_ICW4_8086 m9;
          m11 = outb PIC_MASTER_DATA master_mask m10
      in outb PIC_SLAVE_DATA slave_mask m11)"

definition pic_mask_all :: "'a machine_scheme \<Rightarrow> 'a machine_scheme" where
  "pic_mask_all m = outb PIC_SLAVE_DATA 0xFF (outb PIC_MASTER_DATA 0xFF m)"

definition pic_unmask_irq :: "u8 \<Rightarrow> 'a machine_scheme \<Rightarrow> bool \<times> 'a machine_scheme" where
  "pic_unmask_irq irq m =
     (if irq > 15 then (False, m)
      else if irq < 8 then
        let (v, m1) = inb PIC_MASTER_DATA m
        in (True, outb PIC_MASTER_DATA (v AND NOT (push_bit (unat irq) 1)) m1)
      else
        let slave_irq = irq - 8;
            (slave_mask, m1) = inb PIC_SLAVE_DATA m;
            m2 = outb PIC_SLAVE_DATA (slave_mask AND NOT (push_bit (unat slave_irq) 1)) m1;
            (master_mask, m3) = inb PIC_MASTER_DATA m2
        in (True, outb PIC_MASTER_DATA (master_mask AND NOT (push_bit 2 1)) m3))"

definition pic_send_eoi :: "u8 \<Rightarrow> 'a machine_scheme \<Rightarrow> 'a machine_scheme" where
  "pic_send_eoi irq m =
     (if irq > 15 then m
      else
        let m1 = (if irq \<ge> 8 then outb PIC_SLAVE_COMMAND PIC_COMMAND_EOI m else m)
        in outb PIC_MASTER_COMMAND PIC_COMMAND_EOI m1)"

section \<open>What an 8259 makes of the accesses\<close>

text \<open>
  A chip expects nothing special (0) or the initialization words 2, 3 or 4; it has a vector
  base, a mask and a count of the non-specific end-of-interrupt commands it was given.
\<close>

record pic_chip =
  chip_expects :: nat
  chip_base :: u8
  chip_wiring :: u8
  chip_mask :: u8
  chip_eois :: nat

definition chip_command :: "u8 \<Rightarrow> pic_chip \<Rightarrow> pic_chip" where
  "chip_command v c =
     (if v AND 0x10 \<noteq> 0 then c\<lparr>chip_expects := 2, chip_mask := 0\<rparr>
      else if v = 0x20 then c\<lparr>chip_eois := chip_eois c + 1\<rparr> else c)"

definition chip_data :: "u8 \<Rightarrow> pic_chip \<Rightarrow> pic_chip" where
  "chip_data v c =
     (if chip_expects c = 2 then c\<lparr>chip_expects := 3, chip_base := v\<rparr>
      else if chip_expects c = 3 then c\<lparr>chip_expects := 4, chip_wiring := v\<rparr>
      else if chip_expects c = 4 then c\<lparr>chip_expects := 0\<rparr>
      else c\<lparr>chip_mask := v\<rparr>)"

fun chip_sees :: "u16 \<Rightarrow> u16 \<Rightarrow> io_event \<Rightarrow> pic_chip \<Rightarrow> pic_chip" where
  "chip_sees command data (In p v) c = c"
| "chip_sees command data (Out p v) c =
     (if p = command then chip_command v c else if p = data then chip_data v c else c)"

text \<open>The two chips after a log of accesses, from what the firmware left.\<close>

fun pic_after :: "pic_chip \<times> pic_chip \<Rightarrow> io_event list \<Rightarrow> pic_chip \<times> pic_chip" where
  "pic_after chips [] = chips"
| "pic_after chips (e # l) = map_prod (chip_sees 0x20 0x21 e) (chip_sees 0xA0 0xA1 e) (pic_after chips l)"

text \<open>The device answers a read of a data port with the chip's mask.\<close>

definition pic_device :: "pic_chip \<times> pic_chip \<Rightarrow> (io_event list \<Rightarrow> u16 \<Rightarrow> u8) \<Rightarrow> bool" where
  "pic_device chips dev \<longleftrightarrow>
     (\<forall>l. dev l 0x21 = chip_mask (fst (pic_after chips l)) \<and> dev l 0xA1 = chip_mask (snd (pic_after chips l)))"

definition pic_ready :: "pic_chip \<times> pic_chip \<Rightarrow> bool" where
  "pic_ready chips \<longleftrightarrow> chip_expects (fst chips) = 0 \<and> chip_expects (snd chips) = 0"

text \<open>Line \<open>i\<close> can reach the processor.\<close>

definition irq_open :: "pic_chip \<times> pic_chip \<Rightarrow> nat \<Rightarrow> bool" where
  "irq_open chips i \<longleftrightarrow>
     (if i < 8 then \<not> bit (chip_mask (fst chips)) i
      else i < 16 \<and> \<not> bit (chip_mask (snd chips)) (i - 8) \<and> \<not> bit (chip_mask (fst chips)) 2)"

definition pic_state :: "pic_chip \<times> pic_chip \<Rightarrow> 'a machine_scheme \<Rightarrow> pic_chip \<times> pic_chip" where
  "pic_state chips m = pic_after chips (io_log m)"

lemmas pic_ports = PIC_MASTER_COMMAND_def PIC_MASTER_DATA_def PIC_SLAVE_COMMAND_def PIC_SLAVE_DATA_def

lemmas pic_words = PIC_COMMAND_EOI_def PIC_ICW1_INIT_def PIC_ICW1_ICW4_def PIC_ICW4_8086_def
  PIC_MASTER_OFFSET_def PIC_SLAVE_OFFSET_def

section \<open>Facts\<close>

definition remapped :: "pic_chip \<times> pic_chip \<Rightarrow> pic_chip \<times> pic_chip" where
  "remapped = map_prod
     (\<lambda>a. a\<lparr>chip_expects := 0, chip_base := 0x20, chip_wiring := 4\<rparr>)
     (\<lambda>b. b\<lparr>chip_expects := 0, chip_base := 0x28, chip_wiring := 2\<rparr>)"

text \<open>The ports the module accesses.\<close>

definition pic_port :: "u16 \<Rightarrow> bool" where
  "pic_port p \<longleftrightarrow> p \<in> {0x20, 0x21, 0xA0, 0xA1, 0x80}"

text \<open>The operation only accesses its ports, and leaves the chips in the state \<open>c\<close>.\<close>

definition pic_step :: "pic_chip \<times> pic_chip \<Rightarrow> 'a machine_scheme \<Rightarrow> 'a machine_scheme \<Rightarrow> pic_chip \<times> pic_chip \<Rightarrow> bool" where
  "pic_step chips m m' c \<longleftrightarrow>
     (\<exists>l. m' = m\<lparr>io_log := l @ io_log m\<rparr> \<and> (\<forall>e \<in> set l. pic_port (event_port e))) \<and> pic_state chips m' = c"

lemma remap_step:
  assumes "pic_device chips (io_device m)"
  shows "pic_step chips m (pic_remap m) (remapped (pic_state chips m))"
proof -
  have dev: "io_device m l 0x21 = chip_mask (fst (pic_after chips l))"
    "io_device m l 0xA1 = chip_mask (snd (pic_after chips l))" for l
    using assms by (simp_all add: pic_device_def)
  let ?v = "chip_mask (fst (pic_after chips (io_log m)))" and ?w = "chip_mask (snd (pic_after chips (io_log m)))"
  let ?l = "[Out 0xA1 ?w, Out 0x21 ?v, Out 0x80 0, Out 0xA1 1, Out 0x80 0, Out 0x21 1, Out 0x80 0, Out 0xA1 2,
    Out 0x80 0, Out 0x21 4, Out 0x80 0, Out 0xA1 0x28, Out 0x80 0, Out 0x21 0x20, Out 0x80 0, Out 0xA0 0x11,
    Out 0x80 0, Out 0x20 0x11, In 0xA1 ?w, In 0x21 ?v]"
  have run: "pic_remap m = m\<lparr>io_log := ?l @ io_log m\<rparr>"
    by (simp add: pic_remap_def inb_def dev outb_wait_def io_wait_def outb_def pic_ports pic_words Let_def)
  have "pic_after chips (?l @ io_log m) = remapped (pic_state chips m)"
    by (cases "pic_after chips (io_log m)")
       (simp add: pic_state_def chip_command_def chip_data_def remapped_def)
  moreover have "\<forall>e \<in> set ?l. pic_port (event_port e)" by (simp add: pic_port_def)
  ultimately show ?thesis unfolding pic_step_def run pic_state_def
    by (intro conjI exI [of _ ?l]) simp_all
qed

lemma mask_all_step:
  assumes "pic_ready (pic_state chips m)"
  shows "pic_step chips m (pic_mask_all m) (map_prod (\<lambda>a. a\<lparr>chip_mask := 0xFF\<rparr>) (\<lambda>b. b\<lparr>chip_mask := 0xFF\<rparr>) (pic_state chips m))"
  unfolding pic_step_def
  using assms by (intro conjI exI [of _ "[Out 0xA1 0xFF, Out 0x21 0xFF]"])
    (auto simp: pic_mask_all_def outb_def pic_ports pic_port_def pic_state_def pic_ready_def chip_data_def
      map_prod_def case_prod_beta)

text \<open>The masks after a line was opened.\<close>

definition unmasked :: "nat \<Rightarrow> pic_chip \<times> pic_chip \<Rightarrow> pic_chip \<times> pic_chip" where
  "unmasked i =
     (if i < 8 then map_prod (\<lambda>a. a\<lparr>chip_mask := chip_mask a AND NOT (push_bit i 1)\<rparr>) id
      else map_prod (\<lambda>a. a\<lparr>chip_mask := chip_mask a AND NOT (push_bit 2 1)\<rparr>)
             (\<lambda>b. b\<lparr>chip_mask := chip_mask b AND NOT (push_bit (i - 8) 1)\<rparr>))"

lemma irq_number: "irq > 15 \<longleftrightarrow> \<not> unat irq < 16" "irq < 8 \<longleftrightarrow> unat irq < 8" "irq \<ge> 8 \<longleftrightarrow> \<not> unat irq < 8"
  for irq :: u8
  by (auto simp: word_less_nat_alt word_le_nat_alt)

lemma unmask_step:
  assumes dev: "pic_device chips (io_device m)" and ready: "pic_ready (pic_state chips m)" and irq: "unat irq < 16"
  shows "fst (pic_unmask_irq irq m) \<and> pic_step chips m (snd (pic_unmask_irq irq m)) (unmasked (unat irq) (pic_state chips m))"
proof (cases "unat irq < 8")
  case True
  let ?v = "chip_mask (fst (pic_state chips m))"
  let ?l = "[Out 0x21 (?v AND NOT (push_bit (unat irq) 1)), In 0x21 ?v]"
  have run: "pic_unmask_irq irq m = (True, m\<lparr>io_log := ?l @ io_log m\<rparr>)"
    using dev True irq by (simp add: pic_unmask_irq_def irq_number inb_def outb_def pic_ports pic_device_def pic_state_def Let_def)
  have "pic_after chips (?l @ io_log m) = unmasked (unat irq) (pic_state chips m)"
    using ready True by (cases "pic_after chips (io_log m)")
      (simp add: pic_state_def chip_data_def unmasked_def pic_ready_def)
  then show ?thesis unfolding run pic_step_def
    by (auto simp: pic_state_def pic_port_def intro!: exI [of _ ?l])
next
  case False
  let ?v = "chip_mask (fst (pic_state chips m))" and ?w = "chip_mask (snd (pic_state chips m))"
  let ?l = "[Out 0x21 (?v AND NOT (push_bit 2 1)), In 0x21 ?v, Out 0xA1 (?w AND NOT (push_bit (unat irq - 8) 1)), In 0xA1 ?w]"
  have s: "unat (irq - 8) = unat irq - 8" using False by (simp add: unat_sub_word word_le_nat_alt)
  have "fst (pic_after chips (Out 0xA1 x # In 0xA1 y # io_log m)) = fst (pic_state chips m)" for x y
    by (simp add: pic_state_def)
  then have run: "pic_unmask_irq irq m = (True, m\<lparr>io_log := ?l @ io_log m\<rparr>)"
    using dev False irq s
    by (simp add: pic_unmask_irq_def irq_number inb_def outb_def pic_ports pic_device_def pic_state_def Let_def)
  have "pic_after chips (?l @ io_log m) = unmasked (unat irq) (pic_state chips m)"
    using ready False by (cases "pic_after chips (io_log m)")
      (simp add: pic_state_def chip_data_def unmasked_def pic_ready_def)
  then show ?thesis unfolding run pic_step_def
    by (auto simp: pic_state_def pic_port_def intro!: exI [of _ ?l])
qed

lemma eoi_step:
  assumes "unat irq < 16"
  shows "pic_step chips m (pic_send_eoi irq m)
     (map_prod (\<lambda>a. a\<lparr>chip_eois := chip_eois a + 1\<rparr>)
        (if unat irq < 8 then id else (\<lambda>b. b\<lparr>chip_eois := chip_eois b + 1\<rparr>)) (pic_state chips m))"
proof -
  let ?l = "Out 0x20 0x20 # (if unat irq < 8 then [] else [Out 0xA0 0x20])"
  have run: "pic_send_eoi irq m = m\<lparr>io_log := ?l @ io_log m\<rparr>"
    using assms by (simp add: pic_send_eoi_def irq_number outb_def pic_ports pic_words Let_def)
  show ?thesis unfolding run pic_step_def
    by (cases "pic_after chips (io_log m)")
       (auto simp: pic_state_def chip_command_def pic_port_def intro!: exI [of _ ?l])
qed

lemma clear_bit: "j < 8 \<Longrightarrow> bit (v AND NOT (push_bit i 1) :: u8) j \<longleftrightarrow> bit v j \<and> j \<noteq> i"
  by (auto simp: bit_and_iff bit_not_iff bit_push_bit_iff bit_1_iff possible_bit_word simp del: push_bit_of_1)

lemma unmasked_bits:
  assumes "i < 16" "j < 8"
  shows "bit (chip_mask (fst (unmasked i c))) j \<longleftrightarrow> bit (chip_mask (fst c)) j \<and> j \<noteq> (if i < 8 then i else 2)"
    and "bit (chip_mask (snd (unmasked i c))) j \<longleftrightarrow> bit (chip_mask (snd c)) j \<and> \<not> (8 \<le> i \<and> j = i - 8)"
  using assms by (simp_all only: unmasked_def, simp_all add: clear_bit fst_map_prod snd_map_prod del: push_bit_of_1)

section \<open>Properties\<close>

text \<open>The firmware's usual state, and a device that answers for it.\<close>

definition bios_chips :: "pic_chip \<times> pic_chip" where
  "bios_chips = (\<lparr>chip_expects = 0, chip_base = 8, chip_wiring = 4, chip_mask = 0xB8, chip_eois = 0\<rparr>,
     \<lparr>chip_expects = 0, chip_base = 0x70, chip_wiring = 2, chip_mask = 0x8F, chip_eois = 0\<rparr>)"

definition bios_machine :: machine where
  "bios_machine = \<lparr>io_device = (\<lambda>l p. if p = 0x21 then chip_mask (fst (pic_after bios_chips l))
       else if p = 0xA1 then chip_mask (snd (pic_after bios_chips l)) else 0),
     io_log = [], reg_if = False, cpu_halted = False, reg_cr0 = 0, reg_cr3 = 0, reg_gdtr = (0, 0), reg_idtr = (0, 0)\<rparr>"

lemma bios_device: "pic_device bios_chips (io_device bios_machine)"
  by (simp add: pic_device_def bios_machine_def)

lemma bios_ready: "pic_ready (pic_state bios_chips bios_machine)"
  by (simp add: pic_ready_def pic_state_def bios_machine_def bios_chips_def)

text \<open>Whatever state the firmware left the two 8259 chips in, remapping leaves them operational with
  IRQ 0 to 7 delivered at vectors 32 to 39 and IRQ 8 to 15 at 40 to 47, the cascade on line 2, and
  exactly the same lines masked as before; only the chips' ports and the delay port are written.\<close>

theorem pic_remap_moves_vectors:
  assumes "pic_device chips (io_device m)"
  shows "pic_step chips m (pic_remap m) (remapped (pic_state chips m)) \<and>
     pic_ready (pic_state chips (pic_remap m)) \<and>
     chip_base (fst (pic_state chips (pic_remap m))) = 32 \<and> chip_base (snd (pic_state chips (pic_remap m))) = 40 \<and>
     irq_open (pic_state chips (pic_remap m)) = irq_open (pic_state chips m)"
  using remap_step [OF assms]
  by (cases "pic_state chips m") (auto simp: pic_step_def remapped_def pic_ready_def irq_open_def fun_eq_iff)

lemma pic_remap_moves_vectors_witness:
  "chip_base (fst (pic_state bios_chips (pic_remap bios_machine))) = 32"
  using pic_remap_moves_vectors [OF bios_device] by simp

text \<open>Unmasking opens exactly the requested line.  For a line below 8 only its bit of the master mask
  is cleared; for a line from 8 to 15 its bit of the slave mask and the master's cascade bit; every
  other mask bit keeps its value.  Afterwards the line can reach the processor.  A number above 15
  is refused without a port access.\<close>

theorem pic_unmask_opens_line:
  assumes "pic_device chips (io_device m)" "pic_ready (pic_state chips m)"
  shows "if unat irq < 16 then
       fst (pic_unmask_irq irq m) \<and> irq_open (pic_state chips (snd (pic_unmask_irq irq m))) (unat irq) \<and>
       pic_ready (pic_state chips (snd (pic_unmask_irq irq m))) \<and>
       (\<forall>j < 8. bit (chip_mask (fst (pic_state chips (snd (pic_unmask_irq irq m))))) j =
            (bit (chip_mask (fst (pic_state chips m))) j \<and> j \<noteq> (if unat irq < 8 then unat irq else 2)) \<and>
          bit (chip_mask (snd (pic_state chips (snd (pic_unmask_irq irq m))))) j =
            (bit (chip_mask (snd (pic_state chips m))) j \<and> \<not> (8 \<le> unat irq \<and> j = unat irq - 8)))
     else pic_unmask_irq irq m = (False, m)"
proof (cases "unat irq < 16")
  case True
  let ?c = "unmasked (unat irq) (pic_state chips m)"
  have c: "fst (pic_unmask_irq irq m)" "pic_state chips (snd (pic_unmask_irq irq m)) = ?c"
    using unmask_step [OF assms True] by (simp_all add: pic_step_def)
  have "irq_open ?c (unat irq)"
    using True unmasked_bits [OF True, of "unat irq" "pic_state chips m"]
      unmasked_bits [OF True, of 2 "pic_state chips m"] unmasked_bits(2) [OF True, of "unat irq - 8" "pic_state chips m"]
    by (auto simp: irq_open_def)
  moreover have "pic_ready ?c" using assms(2) by (cases "pic_state chips m") (auto simp: unmasked_def pic_ready_def)
  ultimately show ?thesis using True c unmasked_bits [OF True] by simp
next
  case False
  then show ?thesis by (simp add: pic_unmask_irq_def irq_number)
qed

lemma pic_unmask_opens_line_witness:
  "irq_open (pic_state bios_chips (snd (pic_unmask_irq 12 bios_machine))) 12"
  using pic_unmask_opens_line [OF bios_device bios_ready, of 12] by simp

text \<open>Masking all closes every line, and an acknowledgement reaches exactly the chips that raised the
  interrupt: the master for every line, the slave as well from line 8 on, and neither for a number
  above 15; it changes no mask.\<close>

theorem pic_mask_all_and_eoi:
  assumes "pic_ready (pic_state chips m)"
  shows "\<not> irq_open (pic_state chips (pic_mask_all m)) i \<and>
     pic_state chips (pic_send_eoi irq m) =
       map_prod (\<lambda>a. a\<lparr>chip_eois := chip_eois a + (if unat irq < 16 then 1 else 0)\<rparr>)
         (\<lambda>b. b\<lparr>chip_eois := chip_eois b + (if 8 \<le> unat irq \<and> unat irq < 16 then 1 else 0)\<rparr>) (pic_state chips m)"
proof -
  have ones: "bit (0xFF :: u8) j \<longleftrightarrow> j < 8" for j
  proof -
    have "(0xFF :: u8) = mask 8" by (simp add: mask_eq_exp_minus_1)
    then show ?thesis by (simp only: bit_mask_iff possible_bit_word) simp
  qed
  have "\<not> irq_open (pic_state chips (pic_mask_all m)) i"
  proof -
    have "chip_mask (fst (pic_state chips (pic_mask_all m))) = 0xFF"
      "chip_mask (snd (pic_state chips (pic_mask_all m))) = 0xFF"
      using mask_all_step [OF assms] by (cases "pic_state chips m"; simp add: pic_step_def)+
    then show ?thesis unfolding irq_open_def by (simp only: ones) auto
  qed
  moreover have "pic_state chips (pic_send_eoi irq m) =
       map_prod (\<lambda>a. a\<lparr>chip_eois := chip_eois a + (if unat irq < 16 then 1 else 0)\<rparr>)
         (\<lambda>b. b\<lparr>chip_eois := chip_eois b + (if 8 \<le> unat irq \<and> unat irq < 16 then 1 else 0)\<rparr>) (pic_state chips m)"
  proof (cases "unat irq < 16")
    case True
    then show ?thesis using eoi_step [OF True, of chips m]
      by (cases "pic_state chips m") (auto simp: pic_step_def)
  next
    case False
    then show ?thesis by (cases "pic_state chips m") (simp add: pic_send_eoi_def irq_number)
  qed
  ultimately show ?thesis by blast
qed

lemma pic_mask_all_and_eoi_witness: "\<not> irq_open (pic_state bios_chips (pic_mask_all bios_machine)) 1"
  using pic_mask_all_and_eoi [OF bios_ready] by blast

end
