(* ===== verification/Pit.thy ===== *)
theory Pit
  imports Format Serial
begin

text \<open>
  \<^verbatim>\<open>src/drivers/pit.c\<close> and \<^verbatim>\<open>src/kernel/time.c\<close>: the interval timer behind IRQ 0.  Its one
  variable is the tick count, which wraps at \<open>2 ^ 32\<close>.
\<close>

section \<open>Operations\<close>

definition PIT_BASE_FREQUENCY :: u32 where "PIT_BASE_FREQUENCY = 1193182"
definition PIT_CHANNEL0_PORT :: u16 where "PIT_CHANNEL0_PORT = 0x40"
definition PIT_COMMAND_PORT :: u16 where "PIT_COMMAND_PORT = 0x43"
definition PIT_COMMAND_CHANNEL0 :: u8 where "PIT_COMMAND_CHANNEL0 = 0x00"
definition PIT_COMMAND_ACCESS_LOHI :: u8 where "PIT_COMMAND_ACCESS_LOHI = 0x30"
definition PIT_COMMAND_MODE3 :: u8 where "PIT_COMMAND_MODE3 = 0x06"
definition PIT_COMMAND_BINARY :: u8 where "PIT_COMMAND_BINARY = 0x00"
definition PIT_MAX_DIVISOR :: u32 where "PIT_MAX_DIVISOR = 65535"

definition PIT_MIN_FREQUENCY_HZ :: u32 where
  "PIT_MIN_FREQUENCY_HZ = (PIT_BASE_FREQUENCY + PIT_MAX_DIVISOR - 1) div PIT_MAX_DIVISOR"

definition PIT_MAX_FREQUENCY_HZ :: u32 where "PIT_MAX_FREQUENCY_HZ = PIT_BASE_FREQUENCY"

record pit =
  pit_ticks :: u32

definition pit_static :: pit where "pit_static = \<lparr>pit_ticks = 0\<rparr>"

definition pit_initialize :: "u32 \<Rightarrow> pit \<Rightarrow> 'a machine_scheme \<Rightarrow> bool \<times> pit \<times> 'a machine_scheme" where
  "pit_initialize frequency_hz t m =
     (if frequency_hz < PIT_MIN_FREQUENCY_HZ \<or> frequency_hz > PIT_MAX_FREQUENCY_HZ then (False, t, m)
      else
        let divisor = PIT_BASE_FREQUENCY div frequency_hz in
        if divisor = 0 \<or> divisor > PIT_MAX_DIVISOR then (False, t, m)
        else
          let m1 = outb PIT_COMMAND_PORT (PIT_COMMAND_CHANNEL0 OR PIT_COMMAND_ACCESS_LOHI OR
                     PIT_COMMAND_MODE3 OR PIT_COMMAND_BINARY) m;
              m2 = outb PIT_CHANNEL0_PORT (ucast (divisor AND 0xFF)) m1;
              m3 = outb PIT_CHANNEL0_PORT (ucast (drop_bit 8 divisor AND 0xFF)) m2
          in (True, t\<lparr>pit_ticks := 0\<rparr>, m3))"

definition pit_handle_interrupt :: "pit \<Rightarrow> 'a serial_scheme \<Rightarrow> pit \<times> 'a serial_scheme" where
  "pit_handle_interrupt t s =
     (let t1 = t\<lparr>pit_ticks := pit_ticks t + 1\<rparr> in
      if pit_ticks t1 mod 100 = 0 then
        let s1 = serial_writestring ''[wigOSX] PIT tick: '' s in
        (t1,
         if pit_ticks t1 = 100 then serial_writestring (''100'' @ [CHR 0x0A]) s1
         else if pit_ticks t1 = 200 then serial_writestring (''200'' @ [CHR 0x0A]) s1
         else if pit_ticks t1 = 300 then serial_writestring (''300'' @ [CHR 0x0A]) s1
         else serial_writestring (''another second passed'' @ [CHR 0x0A]) s1)
      else (t1, s))"

definition pit_get_ticks :: "pit \<Rightarrow> u32" where "pit_get_ticks t = pit_ticks t"

definition ktime_get_ticks :: "pit \<Rightarrow> u32" where "ktime_get_ticks t = pit_get_ticks t"

section \<open>Facts\<close>

lemma min_frequency: "PIT_MIN_FREQUENCY_HZ = 19"
  by (simp add: PIT_MIN_FREQUENCY_HZ_def PIT_BASE_FREQUENCY_def PIT_MAX_DIVISOR_def)

lemma divisor_range:
  fixes f :: u32
  assumes "19 \<le> unat f" "unat f \<le> 1193182"
  shows "0 < unat (PIT_BASE_FREQUENCY div f)" "unat (PIT_BASE_FREQUENCY div f) \<le> 65535"
proof -
  have d: "unat (PIT_BASE_FREQUENCY div f) = 1193182 div unat f"
    by (simp add: unat_div PIT_BASE_FREQUENCY_def)
  show "0 < unat (PIT_BASE_FREQUENCY div f)" unfolding d using assms by (simp add: div_greater_zero_iff)
  have "1193182 div unat f \<le> 1193182 div 19" using assms by (intro div_le_mono2) simp_all
  then show "unat (PIT_BASE_FREQUENCY div f) \<le> 65535" unfolding d by simp
qed

text \<open>The reload value channel 0 takes from the two writes to its port, low byte first.\<close>

definition reload_value :: "u8 list \<Rightarrow> nat" where
  "reload_value bs = (case bs of [low, high] \<Rightarrow> unat low + 256 * unat high | _ \<Rightarrow> 0)"

lemma reload_bytes:
  assumes "unat (d :: u32) \<le> 65535"
  shows "reload_value [ucast (d AND 0xFF), ucast (drop_bit 8 d AND 0xFF)] = unat d"
proof -
  have ff: "w AND 0xFF = take_bit 8 w" for w :: u32
    by (simp add: take_bit_eq_mask mask_eq_exp_minus_1)
  have c: "unat (ucast (take_bit 8 w) :: u8) = unat w mod 256" for w :: u32
    by (simp add: unsigned_ucast_eq unsigned_take_bit_eq) (simp add: take_bit_eq_mod)
  have "unat (drop_bit 8 d) = unat d div 256" by (simp add: unat_drop_bit_div)
  moreover have "unat d div 256 < 256" using assms by simp
  ultimately show ?thesis unfolding reload_value_def ff using c by simp
qed

definition heartbeat :: "u32 \<Rightarrow> string" where
  "heartbeat n =
     (if n mod 100 = 0 then
        ''[wigOSX] PIT tick: '' @
        (if n = 100 \<or> n = 200 \<or> n = 300 then decimal_text (unat n) else ''another second passed'') @ [CHR 0x0A]
      else [])"

lemma heartbeat_texts: "decimal_text 100 = ''100''" "decimal_text 200 = ''200''" "decimal_text 300 = ''300''"
  by (simp_all add: decimal_text_def rdigits_pos char_of_def bit_0)

lemma handle_interrupt_eq:
  "\<exists>ts. snd (pit_handle_interrupt t s) = fold serial_writestring ts s \<and>
     concat (map c_text ts) = heartbeat (pit_ticks t + 1)"
  "fst (pit_handle_interrupt t s) = t\<lparr>pit_ticks := pit_ticks t + 1\<rparr>"
proof -
  let ?n = "pit_ticks t + 1"
  let ?x = "if ?n = 100 then ''100'' @ [CHR 0x0A] else if ?n = 200 then ''200'' @ [CHR 0x0A]
    else if ?n = 300 then ''300'' @ [CHR 0x0A] else ''another second passed'' @ [CHR 0x0A]"
  let ?ts = "if ?n mod 100 = 0 then [''[wigOSX] PIT tick: '', ?x] else []"
  have "snd (pit_handle_interrupt t s) = fold serial_writestring ?ts s"
    by (simp add: pit_handle_interrupt_def Let_def)
  moreover have "concat (map c_text ?ts) = heartbeat ?n"
    by (simp add: heartbeat_def c_text_no_NUL heartbeat_texts)
  ultimately show "\<exists>ts. snd (pit_handle_interrupt t s) = fold serial_writestring ts s \<and>
     concat (map c_text ts) = heartbeat (pit_ticks t + 1)" by blast
  show "fst (pit_handle_interrupt t s) = t\<lparr>pit_ticks := ?n\<rparr>" by (simp add: pit_handle_interrupt_def Let_def)
qed

section \<open>Properties\<close>

text \<open>C39. The timer accepts exactly the frequencies from 19 Hz to 1193182 Hz.  It then programs channel 0
  with the largest divisor whose frequency is not below the one requested, which always fits the
  16-bit reload register and is never zero, and restarts the tick count; a refused frequency
  touches nothing.\<close>

theorem pit_programs_divisor:
  "if 19 \<le> unat f \<and> unat f \<le> 1193182 then
     \<exists>l. pit_initialize f t m = (True, t\<lparr>pit_ticks := 0\<rparr>, m\<lparr>io_log := l @ io_log m\<rparr>) \<and>
       sent_to 0x43 l = [0x36] \<and> 0 < reload_value (sent_to 0x40 l) \<and> reload_value (sent_to 0x40 l) \<le> 65535 \<and>
       reload_value (sent_to 0x40 l) * unat f \<le> 1193182 \<and>
       1193182 < Suc (reload_value (sent_to 0x40 l)) * unat f
   else pit_initialize f t m = (False, t, m)"
proof (cases "19 \<le> unat f \<and> unat f \<le> 1193182")
  case True
  let ?d = "PIT_BASE_FREQUENCY div f"
  have range: "0 < unat ?d" "unat ?d \<le> 65535" using divisor_range True by blast+
  let ?l = "[Out 0x40 (ucast (drop_bit 8 ?d AND 0xFF)), Out 0x40 (ucast (?d AND 0xFF)), Out 0x43 0x36]"
  have run: "pit_initialize f t m = (True, t\<lparr>pit_ticks := 0\<rparr>, m\<lparr>io_log := ?l @ io_log m\<rparr>)"
    using True range
    by (auto simp: pit_initialize_def min_frequency PIT_MAX_FREQUENCY_HZ_def word_less_nat_alt Let_def outb_def
        PIT_COMMAND_PORT_def PIT_CHANNEL0_PORT_def PIT_COMMAND_CHANNEL0_def PIT_COMMAND_ACCESS_LOHI_def
        PIT_COMMAND_MODE3_def PIT_COMMAND_BINARY_def PIT_MAX_DIVISOR_def unat_eq_zero PIT_BASE_FREQUENCY_def)
  have r: "reload_value (sent_to 0x40 ?l) = unat ?d" using reload_bytes [OF range(2)] by simp
  have d: "unat ?d = 1193182 div unat f" by (simp add: unat_div PIT_BASE_FREQUENCY_def)
  have f: "0 < unat f" using True by simp
  have "1193182 div unat f * unat f \<le> 1193182" by simp
  moreover have "1193182 < Suc (1193182 div unat f) * unat f"
    using dividend_less_div_times [OF f, of 1193182] by simp
  moreover have "sent_to 0x43 ?l = [0x36]" by simp
  ultimately show ?thesis unfolding if_P [OF True] using run range
    by (intro exI [of _ ?l]) (simp only: r d simp_thms)
next
  case False
  then show ?thesis
    by (auto simp: pit_initialize_def min_frequency PIT_MAX_FREQUENCY_HZ_def PIT_BASE_FREQUENCY_def
        word_less_nat_alt)
qed

text \<open>Every timer interrupt advances the count by exactly one, modulo \<open>2 ^ 32\<close>; on every hundredth count
  it sends the heartbeat line to the serial port and on the others nothing, so with a ready port
  the line carries exactly the heartbeats.\<close>

theorem pit_tick_counts:
  assumes "serial_ok s"
  shows "ktime_get_ticks (fst (pit_handle_interrupt t s)) = ktime_get_ticks t + 1 \<and>
     serial_ok (snd (pit_handle_interrupt t s)) \<and>
     serial_sent (snd (pit_handle_interrupt t s)) =
       serial_sent s @ concat (map crlf (heartbeat (pit_ticks t + 1)))"
proof -
  have cat: "fold (\<lambda>c sent. sent @ crlf c) t y = y @ concat (map crlf t)" for t y
    by (induction t arbitrary: y) simp_all
  obtain ts where ts: "snd (pit_handle_interrupt t s) = fold serial_writestring ts s"
    "concat (map c_text ts) = heartbeat (pit_ticks t + 1)" using handle_interrupt_eq(1) by blast
  show ?thesis using serial_line.puts_all [OF assms, of ts] handle_interrupt_eq(2) [of t s]
    unfolding ts(1) ts(2) cat by (simp add: ktime_get_ticks_def pit_get_ticks_def)
qed

definition sample_serial :: serial where
  "sample_serial = \<lparr>io_device = (\<lambda>_ _. 0x20), io_log = [], reg_if = False, cpu_halted = False, reg_cr0 = 0,
     reg_cr3 = 0, reg_gdtr = (0, 0), reg_idtr = (0, 0), terminal_row = 0, terminal_column = 0,
     terminal_view_start = 0, terminal_color = 7, terminal_buffer = (\<lambda>_. 0),
     console_initialized = True, serial_initialized = True\<rparr>"

lemma pit_tick_counts_witness:
  "serial_sent (snd (pit_handle_interrupt \<lparr>pit_ticks = 98\<rparr> sample_serial)) = []"
proof -
  have "serial_ok sample_serial" by (simp add: serial_ok_def uart_ready_def sample_serial_def)
  from pit_tick_counts [OF this, of "\<lparr>pit_ticks = 98\<rparr>"] show ?thesis
    by (simp add: heartbeat_def) (simp add: serial_sent_def sample_serial_def)
qed

end
