(* ===== verification/Descriptors.thy ===== *)
theory Descriptors
  imports Layout Machine
begin

text \<open>
  \<^verbatim>\<open>arch/i386/memory/gdt.c\<close> and the table-building part of \<^verbatim>\<open>arch/i386/interrupts/idt.c\<close>: the
  packed descriptors the processor reads, and the loading of GDTR and IDTR by the assembly
  helpers.  The theorems read the descriptors back as the processor decodes them.
\<close>

section \<open>The global descriptor table\<close>

record gdt_entry =
  gdt_limit_low :: u16
  gdt_base_low :: u16
  gdt_base_middle :: u8
  gdt_access :: u8
  gdt_granularity :: u8
  gdt_base_high :: u8

definition GDT_ENTRY_COUNT :: nat where "GDT_ENTRY_COUNT = 3"
definition GDT_NULL_INDEX :: nat where "GDT_NULL_INDEX = 0"
definition GDT_KERNEL_CODE_INDEX :: nat where "GDT_KERNEL_CODE_INDEX = 1"
definition GDT_KERNEL_DATA_INDEX :: nat where "GDT_KERNEL_DATA_INDEX = 2"
definition GDT_DESCRIPTOR_SIZE :: nat where "GDT_DESCRIPTOR_SIZE = 8"
definition GDT_FLAT_BASE :: u32 where "GDT_FLAT_BASE = 0"
definition GDT_FLAT_LIMIT :: u32 where "GDT_FLAT_LIMIT = 0xFFFFF"
definition GDT_ACCESS_PRESENT :: u8 where "GDT_ACCESS_PRESENT = 0x80"
definition GDT_ACCESS_RING0 :: u8 where "GDT_ACCESS_RING0 = 0x00"
definition GDT_ACCESS_DESCRIPTOR :: u8 where "GDT_ACCESS_DESCRIPTOR = 0x10"
definition GDT_ACCESS_EXECUTABLE :: u8 where "GDT_ACCESS_EXECUTABLE = 0x08"
definition GDT_ACCESS_READABLE_WRITABLE :: u8 where "GDT_ACCESS_READABLE_WRITABLE = 0x02"

definition GDT_ACCESS_KERNEL_CODE :: u8 where
  "GDT_ACCESS_KERNEL_CODE = GDT_ACCESS_PRESENT OR GDT_ACCESS_RING0 OR GDT_ACCESS_DESCRIPTOR OR
     GDT_ACCESS_EXECUTABLE OR GDT_ACCESS_READABLE_WRITABLE"

definition GDT_ACCESS_KERNEL_DATA :: u8 where
  "GDT_ACCESS_KERNEL_DATA = GDT_ACCESS_PRESENT OR GDT_ACCESS_RING0 OR GDT_ACCESS_DESCRIPTOR OR
     GDT_ACCESS_READABLE_WRITABLE"

definition GDT_GRANULARITY_4K :: u8 where "GDT_GRANULARITY_4K = 0x80"
definition GDT_GRANULARITY_32BIT :: u8 where "GDT_GRANULARITY_32BIT = 0x40"

definition GDT_GRANULARITY_4K_32BIT :: u8 where
  "GDT_GRANULARITY_4K_32BIT = GDT_GRANULARITY_4K OR GDT_GRANULARITY_32BIT"

record gdt =
  gdt_entries :: "gdt_entry carray"
  gdt_ptr :: "u16 \<times> u32"

definition gdt_static :: gdt where
  "gdt_static = \<lparr>gdt_entries = afill GDT_ENTRY_COUNT
     \<lparr>gdt_limit_low = 0, gdt_base_low = 0, gdt_base_middle = 0, gdt_access = 0, gdt_granularity = 0, gdt_base_high = 0\<rparr>,
     gdt_ptr = (0, 0)\<rparr>"

definition gdt_make_entry :: "u32 \<Rightarrow> u32 \<Rightarrow> u8 \<Rightarrow> u8 \<Rightarrow> gdt_entry" where
  "gdt_make_entry base limit access granularity = \<lparr>
     gdt_limit_low = ucast (limit AND 0xFFFF),
     gdt_base_low = ucast (base AND 0xFFFF),
     gdt_base_middle = ucast (drop_bit 16 base AND 0xFF),
     gdt_access = access,
     gdt_granularity = ucast (drop_bit 16 limit AND 0x0F) OR (granularity AND 0xF0),
     gdt_base_high = ucast (drop_bit 24 base AND 0xFF)\<rparr>"

text \<open>The five stores of \<open>gdt_set_entry\<close> fill every field of the entry.\<close>

definition gdt_set_entry :: "nat \<Rightarrow> u32 \<Rightarrow> u32 \<Rightarrow> u8 \<Rightarrow> u8 \<Rightarrow> gdt \<Rightarrow> gdt option" where
  "gdt_set_entry index base limit access granularity g = do {
     es \<leftarrow> awrite (gdt_entries g) index (gdt_make_entry base limit access granularity);
     Some (g\<lparr>gdt_entries := es\<rparr>)
   }"

text \<open>\<open>gdt_flush\<close> and \<open>idt_flush\<close>: the processor loads the limit and the base from memory.\<close>

definition gdt_flush :: "u16 \<times> u32 \<Rightarrow> 'a machine_scheme \<Rightarrow> 'a machine_scheme" where
  "gdt_flush ptr m = m\<lparr>reg_gdtr := ptr\<rparr>"

definition idt_flush :: "u16 \<times> u32 \<Rightarrow> 'a machine_scheme \<Rightarrow> 'a machine_scheme" where
  "idt_flush ptr m = m\<lparr>reg_idtr := ptr\<rparr>"

definition gdt_initialize :: "layout \<Rightarrow> gdt \<Rightarrow> 'a machine_scheme \<Rightarrow> (gdt \<times> 'a machine_scheme) option" where
  "gdt_initialize L g m = do {
     let g0 = g\<lparr>gdt_ptr := (of_nat (8 * GDT_ENTRY_COUNT - 1), gdt_entries_addr L)\<rparr>;
     g1 \<leftarrow> gdt_set_entry GDT_NULL_INDEX 0 0 0 0 g0;
     g2 \<leftarrow> gdt_set_entry GDT_KERNEL_CODE_INDEX GDT_FLAT_BASE GDT_FLAT_LIMIT
            GDT_ACCESS_KERNEL_CODE GDT_GRANULARITY_4K_32BIT g1;
     g3 \<leftarrow> gdt_set_entry GDT_KERNEL_DATA_INDEX GDT_FLAT_BASE GDT_FLAT_LIMIT
            GDT_ACCESS_KERNEL_DATA GDT_GRANULARITY_4K_32BIT g2;
     Some (g3, gdt_flush (gdt_ptr g3) m)
   }"

section \<open>The interrupt descriptor table\<close>

record idt_entry =
  idt_base_low :: u16
  idt_selector :: u16
  idt_zero :: u8
  idt_flags :: u8
  idt_base_high :: u16

definition IDT_ENTRY_COUNT :: nat where "IDT_ENTRY_COUNT = 256"
definition IDT_KERNEL_CODE_SELECTOR :: u16 where "IDT_KERNEL_CODE_SELECTOR = 0x08"
definition IDT_INTERRUPT_GATE_RING0 :: u8 where "IDT_INTERRUPT_GATE_RING0 = 0x8E"

record idt =
  idt_entries :: "idt_entry carray"
  idt_ptr :: "u16 \<times> u32"

definition idt_static :: idt where
  "idt_static = \<lparr>idt_entries = afill IDT_ENTRY_COUNT
     \<lparr>idt_base_low = 0, idt_selector = 0, idt_zero = 0, idt_flags = 0, idt_base_high = 0\<rparr>,
     idt_ptr = (0, 0)\<rparr>"

definition idt_make_gate :: "u32 \<Rightarrow> u16 \<Rightarrow> u8 \<Rightarrow> idt_entry" where
  "idt_make_gate handler_address selector flags = \<lparr>
     idt_base_low = ucast (handler_address AND 0xFFFF),
     idt_selector = selector,
     idt_zero = 0,
     idt_flags = flags,
     idt_base_high = ucast (drop_bit 16 handler_address AND 0xFFFF)\<rparr>"

definition idt_set_gate :: "nat \<Rightarrow> u32 \<Rightarrow> u16 \<Rightarrow> u8 \<Rightarrow> idt \<Rightarrow> idt option" where
  "idt_set_gate index handler_address selector flags t = do {
     es \<leftarrow> awrite (idt_entries t) index (idt_make_gate handler_address selector flags);
     Some (t\<lparr>idt_entries := es\<rparr>)
   }"

text \<open>The C code has one call per stub, in the order of the vectors.\<close>

definition idt_install_cpu_exceptions :: "layout \<Rightarrow> idt \<Rightarrow> idt option" where
  "idt_install_cpu_exceptions L t =
     for_range 0 32 (\<lambda>i. idt_set_gate i (isr_stub_addr L i) IDT_KERNEL_CODE_SELECTOR IDT_INTERRUPT_GATE_RING0) t"

definition idt_install_hardware_interrupts :: "layout \<Rightarrow> idt \<Rightarrow> idt option" where
  "idt_install_hardware_interrupts L t =
     for_range 32 48 (\<lambda>i. idt_set_gate i (irq_stub_addr L (i - 32)) IDT_KERNEL_CODE_SELECTOR IDT_INTERRUPT_GATE_RING0) t"

definition idt_initialize :: "layout \<Rightarrow> idt \<Rightarrow> 'a machine_scheme \<Rightarrow> (idt \<times> 'a machine_scheme) option" where
  "idt_initialize L t m = do {
     let t0 = t\<lparr>idt_ptr := (of_nat (8 * IDT_ENTRY_COUNT - 1), idt_entries_addr L)\<rparr>;
     t1 \<leftarrow> for_range 0 IDT_ENTRY_COUNT (\<lambda>i. idt_set_gate i 0 0 0) t0;
     t2 \<leftarrow> idt_install_cpu_exceptions L t1;
     t3 \<leftarrow> idt_install_hardware_interrupts L t2;
     Some (t3, idt_flush (idt_ptr t3) m)
   }"

section \<open>How the processor reads them\<close>

definition gate_offset :: "idt_entry \<Rightarrow> u32" where
  "gate_offset e = push_bit 16 (ucast (idt_base_high e)) OR ucast (idt_base_low e)"

definition gate_present :: "idt_entry \<Rightarrow> bool" where
  "gate_present e \<longleftrightarrow> bit (idt_flags e) 7"

definition descriptor_base :: "gdt_entry \<Rightarrow> u32" where
  "descriptor_base e = push_bit 24 (ucast (gdt_base_high e)) OR push_bit 16 (ucast (gdt_base_middle e)) OR
     ucast (gdt_base_low e)"

definition descriptor_limit :: "gdt_entry \<Rightarrow> u32" where
  "descriptor_limit e = push_bit 16 (ucast (gdt_granularity e AND 0x0F)) OR ucast (gdt_limit_low e)"

text \<open>The last byte offset of a segment: with page granularity the limit counts pages.\<close>

definition segment_last :: "gdt_entry \<Rightarrow> nat" where
  "segment_last e =
     (if bit (gdt_granularity e) 7 then 4096 * Suc (unat (descriptor_limit e)) - 1 else unat (descriptor_limit e))"

section \<open>Facts\<close>

lemma low_masks:
  "w AND 0xFFFF = take_bit 16 w" "w AND 0xFF = take_bit 8 w" "w AND 0x0F = take_bit 4 w" for w :: u32
  by (simp_all add: take_bit_eq_mask mask_eq_exp_minus_1)

lemma low_mask_u8: "w AND 0x0F = take_bit 4 w" for w :: u8
  by (simp add: take_bit_eq_mask mask_eq_exp_minus_1)

lemma high_mask_u8: "w AND 0xF0 = push_bit 4 (drop_bit 4 w)" for w :: u8
proof -
  have "(0xF0 :: u8) = NOT (mask 4)" by (simp add: mask_eq_exp_minus_1)
  then have "w AND 0xF0 = w AND NOT (mask 4)" by simp
  also have "\<dots> = push_bit 4 (drop_bit 4 w)" by (auto simp: bit_eq_iff bit_simps not_le)
  finally show ?thesis .
qed

lemma gate_offset_make: "gate_offset (idt_make_gate a sel fl) = a"
  unfolding gate_offset_def idt_make_gate_def low_masks
  by (rule bit_word_eqI) (auto simp: bit_simps)

lemma descriptor_base_make: "descriptor_base (gdt_make_entry b l a g) = b"
proof (rule bit_word_eqI)
  fix n assume n: "n < LENGTH(32)"
  show "bit (descriptor_base (gdt_make_entry b l a g)) n \<longleftrightarrow> bit b n"
  proof (cases "n < 24")
    case True
    then show ?thesis
      unfolding descriptor_base_def gdt_make_entry_def low_masks by (auto simp: bit_simps)
  next
    case False
    then have "24 + (n - 24) = n" by simp
    with False n show ?thesis
      unfolding descriptor_base_def gdt_make_entry_def low_masks by (auto simp: bit_simps)
  qed
qed

lemma descriptor_limit_make: "descriptor_limit (gdt_make_entry b l a g) = take_bit 20 l"
  unfolding descriptor_limit_def gdt_make_entry_def low_masks low_mask_u8 high_mask_u8
  by (rule bit_word_eqI) (auto simp: bit_simps)

lemma gdt_set_entry_in: "i < alen (gdt_entries g) \<Longrightarrow> gdt_set_entry i b l a gr g =
    Some (g\<lparr>gdt_entries := CArray (alen (gdt_entries g)) ((acell (gdt_entries g))(i := gdt_make_entry b l a gr))\<rparr>)"
  by (simp add: gdt_set_entry_def)

text \<open>\<open>gdt_initialize\<close>, in closed form.\<close>

lemma gdt_initialize_eq:
  assumes "alen (gdt_entries g) = 3"
  shows "gdt_initialize L g m = Some
     (\<lparr>gdt_entries = CArray 3 ((acell (gdt_entries g))
          (0 := gdt_make_entry 0 0 0 0,
           1 := gdt_make_entry 0 0xFFFFF 0x9A 0xC0,
           2 := gdt_make_entry 0 0xFFFFF 0x92 0xC0)),
       gdt_ptr = (23, gdt_entries_addr L)\<rparr>,
      m\<lparr>reg_gdtr := (23, gdt_entries_addr L)\<rparr>)"
  using assms
  by (cases g) (simp add: gdt_initialize_def gdt_set_entry_in gdt_flush_def GDT_ENTRY_COUNT_def
      GDT_NULL_INDEX_def GDT_KERNEL_CODE_INDEX_def GDT_KERNEL_DATA_INDEX_def GDT_FLAT_BASE_def
      GDT_FLAT_LIMIT_def GDT_ACCESS_KERNEL_CODE_def GDT_ACCESS_KERNEL_DATA_def GDT_ACCESS_PRESENT_def
      GDT_ACCESS_RING0_def GDT_ACCESS_DESCRIPTOR_def GDT_ACCESS_EXECUTABLE_def
      GDT_ACCESS_READABLE_WRITABLE_def GDT_GRANULARITY_4K_32BIT_def GDT_GRANULARITY_4K_def
      GDT_GRANULARITY_32BIT_def)

text \<open>A run of gates fills exactly its vectors.\<close>

lemma set_gates:
  assumes "a \<le> b" "b \<le> alen (idt_entries t)"
  shows "for_range a b (\<lambda>i. idt_set_gate i (h i) sel fl) t =
     Some (t\<lparr>idt_entries := CArray (alen (idt_entries t))
       (\<lambda>i. if a \<le> i \<and> i < b then idt_make_gate (h i) sel fl else acell (idt_entries t) i)\<rparr>)"
proof -
  define upto where "upto n = t\<lparr>idt_entries := CArray (alen (idt_entries t))
       (\<lambda>i. if a \<le> i \<and> i < n then idt_make_gate (h i) sel fl else acell (idt_entries t) i)\<rparr>" for n
  have "\<exists>s'. for_range a b (\<lambda>i. idt_set_gate i (h i) sel fl) t = Some s' \<and> s' = upto b"
  proof (rule for_range_inv [where P = "\<lambda>i s. s = upto i"])
    fix i s assume "a \<le> i" "i < b" "s = upto i"
    then show "\<exists>s'. idt_set_gate i (h i) sel fl s = Some s' \<and> s' = upto (Suc i)"
      using assms by (auto simp: idt_set_gate_def upto_def fun_eq_iff)
  next
    have "(\<lambda>i. if a \<le> i \<and> i < a then idt_make_gate (h i) sel fl else acell (idt_entries t) i)
        = acell (idt_entries t)" by (auto simp: fun_eq_iff)
    then show "t = upto a" by (simp add: upto_def)
  qed (rule assms)
  then show ?thesis by (simp add: upto_def)
qed

lemma idt_initialize_eq:
  assumes "alen (idt_entries t) = 256"
  shows "idt_initialize L t m = Some
     (\<lparr>idt_entries = CArray 256 (\<lambda>i.
          if i < 32 then idt_make_gate (isr_stub_addr L i) 8 0x8E
          else if i < 48 then idt_make_gate (irq_stub_addr L (i - 32)) 8 0x8E
          else if i < 256 then idt_make_gate 0 0 0
          else acell (idt_entries t) i),
       idt_ptr = (2047, idt_entries_addr L)\<rparr>,
      m\<lparr>reg_idtr := (2047, idt_entries_addr L)\<rparr>)"
  using assms
  by (cases t) (auto simp: idt_initialize_def idt_install_cpu_exceptions_def
      idt_install_hardware_interrupts_def set_gates idt_flush_def IDT_ENTRY_COUNT_def
      IDT_KERNEL_CODE_SELECTOR_def IDT_INTERRUPT_GATE_RING0_def fun_eq_iff)

text \<open>What the tables hold once they are built.\<close>

definition flat_gdt :: "gdt \<Rightarrow> bool" where
  "flat_gdt g \<longleftrightarrow> alen (gdt_entries g) = 3 \<and> acell (gdt_entries g) 0 = gdt_make_entry 0 0 0 0 \<and>
     acell (gdt_entries g) 1 = gdt_make_entry 0 0xFFFFF 0x9A 0xC0 \<and>
     acell (gdt_entries g) 2 = gdt_make_entry 0 0xFFFFF 0x92 0xC0"

definition vector_address :: "layout \<Rightarrow> nat \<Rightarrow> u32" where
  "vector_address L v = (if v < 32 then isr_stub_addr L v else irq_stub_addr L (v - 32))"

definition routed_idt :: "layout \<Rightarrow> idt \<Rightarrow> bool" where
  "routed_idt L t \<longleftrightarrow> alen (idt_entries t) = 256 \<and>
     (\<forall>v < 256. acell (idt_entries t) v =
        (if v < 48 then idt_make_gate (vector_address L v) 8 0x8E else idt_make_gate 0 0 0))"

lemma gdt_initialize_flat:
  assumes "alen (gdt_entries g) = 3"
  shows "\<exists>g'. (\<forall>m. gdt_initialize L g m = Some (g', m\<lparr>reg_gdtr := (23, gdt_entries_addr L)\<rparr>)) \<and> flat_gdt g'"
  by (rule exI, rule conjI, rule allI, rule gdt_initialize_eq [OF assms]) (simp add: flat_gdt_def)

lemma idt_initialize_routed:
  assumes "alen (idt_entries t) = 256"
  shows "\<exists>t'. (\<forall>m. idt_initialize L t m = Some (t', m\<lparr>reg_idtr := (2047, idt_entries_addr L)\<rparr>)) \<and> routed_idt L t'"
  by (rule exI, rule conjI, rule allI, rule idt_initialize_eq [OF assms]) (simp add: routed_idt_def vector_address_def)

section \<open>Properties\<close>

text \<open>
  \<open>gdt_initialize\<close> loads a table of three descriptors whose limit covers exactly the
  table.  The first is the null descriptor; the second and third, read back as the processor
  decodes them, are present ring-0 segments that start at address 0 and end at the last byte
  of the 4 GiB address space, with 32-bit operands: one executable, the other writable data.
\<close>

theorem gdt_loads_flat_segments:
  assumes "alen (gdt_entries g) = GDT_ENTRY_COUNT"
  shows "\<exists>g'. gdt_initialize L g m = Some (g', m\<lparr>reg_gdtr := (of_nat (8 * GDT_ENTRY_COUNT) - 1, gdt_entries_addr L)\<rparr>) \<and>
     alen (gdt_entries g') = GDT_ENTRY_COUNT \<and>
     gdt_access (acell (gdt_entries g') 0) = 0 \<and> segment_last (acell (gdt_entries g') 0) = 0 \<and>
     (\<forall>i \<in> {1, 2}. let e = acell (gdt_entries g') i in
        descriptor_base e = 0 \<and> segment_last e = 2 ^ 32 - 1 \<and>
        bit (gdt_access e) 7 \<and> \<not> bit (gdt_access e) 6 \<and> \<not> bit (gdt_access e) 5 \<and>
        bit (gdt_access e) 4 \<and> bit (gdt_access e) 3 = (i = 1) \<and> bit (gdt_access e) 1 \<and>
        bit (gdt_granularity e) 6)"
proof -
  have bits: "bit (0x9A :: u8) 7" "\<not> bit (0x9A :: u8) 6" "\<not> bit (0x9A :: u8) 5" "bit (0x9A :: u8) 4"
    "bit (0x9A :: u8) 3" "bit (0x9A :: u8) 1" "bit (0x92 :: u8) 7" "\<not> bit (0x92 :: u8) 6"
    "\<not> bit (0x92 :: u8) 5" "bit (0x92 :: u8) 4" "\<not> bit (0x92 :: u8) 3" "bit (0x92 :: u8) 1"
    by simp_all
  have gran: "gdt_granularity (gdt_make_entry 0 0xFFFFF a 0xC0) = 0xCF" for a
    by (simp add: gdt_make_entry_def)
  show ?thesis
    using assms bits
    by (simp add: gdt_initialize_eq GDT_ENTRY_COUNT_def Let_def segment_last_def descriptor_base_make
        descriptor_limit_make gran) (simp add: gdt_make_entry_def)
qed

lemma gdt_loads_flat_segments_witness:
  "\<exists>g'. gdt_initialize sample_layout gdt_static (undefined :: machine) =
       Some (g', undefined\<lparr>reg_gdtr := (of_nat (8 * GDT_ENTRY_COUNT) - 1, 0x270000)\<rparr>)"
  using gdt_loads_flat_segments [of gdt_static sample_layout "undefined :: machine"]
  by (auto simp: gdt_static_def sample_layout_def)

text \<open>
  \<open>idt_initialize\<close> loads a table of 256 gates whose limit covers exactly the table.  Vectors
  0 to 31 enter the exception stubs and 32 to 47 the hardware-interrupt stubs, each at the
  stub's own address, through the kernel code segment, as ring-0 interrupt gates; every other
  vector is not present.
\<close>

theorem idt_routes_vectors:
  assumes "alen (idt_entries t) = IDT_ENTRY_COUNT"
  shows "\<exists>t'. idt_initialize L t m = Some (t', m\<lparr>reg_idtr := (of_nat (8 * IDT_ENTRY_COUNT) - 1, idt_entries_addr L)\<rparr>) \<and>
     alen (idt_entries t') = IDT_ENTRY_COUNT \<and>
     (\<forall>v < 256. let e = acell (idt_entries t') v in
        gate_present e = (v < 48) \<and>
        gate_offset e =
          (if v < 32 then isr_stub_addr L v else if v < 48 then irq_stub_addr L (v - 32) else 0) \<and>
        idt_selector e = (if v < 48 then 8 else 0) \<and> idt_flags e = (if v < 48 then 0x8E else 0) \<and>
        idt_zero e = 0)"
proof -
  have flags: "idt_flags (idt_make_gate a sel fl) = fl" "idt_selector (idt_make_gate a sel fl) = sel"
    "idt_zero (idt_make_gate a sel fl) = 0" for a sel fl
    by (simp_all add: idt_make_gate_def)
  have bits: "bit (0x8E :: u8) 7" by simp
  show ?thesis
    using assms bits
    by (auto simp: idt_initialize_eq IDT_ENTRY_COUNT_def Let_def gate_present_def gate_offset_make flags)
qed

lemma idt_routes_vectors_witness:
  "\<exists>t'. idt_initialize sample_layout idt_static (undefined :: machine) =
       Some (t', undefined\<lparr>reg_idtr := (of_nat (8 * IDT_ENTRY_COUNT) - 1, 0x271000)\<rparr>) \<and>
     gate_offset (acell (idt_entries t') 33) = 0x200410"
proof -
  have "alen (idt_entries idt_static) = IDT_ENTRY_COUNT" by (simp add: idt_static_def)
  from idt_routes_vectors [OF this, of sample_layout "undefined :: machine"] obtain t' where
    t: "idt_initialize sample_layout idt_static (undefined :: machine) =
       Some (t', undefined\<lparr>reg_idtr := (of_nat (8 * IDT_ENTRY_COUNT) - 1, idt_entries_addr sample_layout)\<rparr>)"
    and g: "\<forall>v < 256. gate_offset (acell (idt_entries t') v) =
          (if v < 32 then isr_stub_addr sample_layout v
           else if v < 48 then irq_stub_addr sample_layout (v - 32) else 0)"
    unfolding Let_def by auto
  show ?thesis using t g [rule_format, of 33] by (auto simp: sample_layout_def)
qed

end
