(* ===== verification/Kernel_State.thy ===== *)
theory Kernel_State
  imports Report Paging Heap Keyboard Interrupts Pic Pit Descriptors
begin

text \<open>
  The state of the whole kernel, the interrupt handlers it registers and \<^verbatim>\<open>src/kernel/panic.c\<close>.

  The record \<open>kernel\<close> extends the log's (processor, ports, terminal, serial port) with the
  static variables of every other module.  A function that may panic returns an \<open>outcome\<close>: it
  \<open>Returned\<close>, or it \<open>Stopped\<close> in the halt loop of \<open>kernel_panic\<close>, which never returns.
  \<open>None\<close> around it still is an access outside an array.
\<close>

section \<open>State\<close>

record shell =
  shell_buffer :: "char carray"
  shell_buffer_length :: u32

text \<open>The two handlers \<open>kernel_main\<close> registers.\<close>

datatype irq_handler = Pit_handle_interrupt | Input_handle_keyboard_interrupt

record kernel = klog +
  k_memory :: memory
  k_pmm :: pmm
  k_paging :: paging
  k_vmm :: vmm
  k_heap :: heap
  k_gdt :: gdt
  k_idt :: idt
  k_interrupts :: "irq_handler interrupts"
  k_input :: input
  k_keyboard :: keyboard
  k_pit :: pit
  k_shell :: shell

section \<open>Returning and stopping\<close>

datatype outcome = Returned kernel | Stopped kernel

text \<open>One function after another.\<close>

definition after :: "outcome option \<Rightarrow> (kernel \<Rightarrow> outcome option) \<Rightarrow> outcome option" where
  "after r f = (case r of None \<Rightarrow> None | Some (Returned k) \<Rightarrow> f k | Some (Stopped k) \<Rightarrow> Some (Stopped k))"

fun run_all :: "(kernel \<Rightarrow> outcome option) list \<Rightarrow> kernel \<Rightarrow> outcome option" where
  "run_all [] k = Some (Returned k)"
| "run_all (f # fs) k = after (f k) (run_all fs)"

definition returning :: "(kernel \<Rightarrow> kernel option) \<Rightarrow> kernel \<Rightarrow> outcome option" where
  "returning f k = map_option Returned (f k)"

lemma after_simps [simp]:
  "after (Some (Returned k)) f = f k" "after (Some (Stopped k)) f = Some (Stopped k)" "after None f = None"
  by (simp_all add: after_def)

lemma returning_Some [simp]: "f k = Some k' \<Longrightarrow> returning f k = Some (Returned k')"
  by (simp add: returning_def)

section \<open>panic.c\<close>

text \<open>
  The loop \<open>while (1) cpu_halt ();\<close> runs with interrupts off, which no interrupt ends: the state
  after its first instruction is the last one.
\<close>

definition kernel_panic :: "cstring option \<Rightarrow> kernel \<Rightarrow> kernel" where
  "kernel_panic message k =
     (let k1 = cpu_disable_interrupts k;
          k2 = klog_writestring (Some ([CHR 0x0A] @ ''[KERNEL PANIC] '')) k1;
          k3 = (case message of
                  Some m \<Rightarrow> klog_writestring (Some m) k2
                | None \<Rightarrow> klog_writestring (Some ''Unspecified fatal error'') k2);
          k4 = klog_putchar (CHR 0x0A) k3;
          k5 = klog_writestring (Some (''System halted.'' @ [CHR 0x0A])) k4
      in cpu_halt k5)"

abbreviation panics :: "cstring \<Rightarrow> kernel \<Rightarrow> outcome option" where
  "panics message \<equiv> (\<lambda>k. Some (Stopped (kernel_panic (Some message) k)))"

definition panic_text :: "cstring option \<Rightarrow> string" where
  "panic_text message = [CHR 0x0A] @ ''[KERNEL PANIC] '' @
     (case message of Some m \<Rightarrow> c_text m | None \<Rightarrow> ''Unspecified fatal error'') @ [CHR 0x0A] @
     ''System halted.'' @ [CHR 0x0A]"

text \<open>The machine's own fields play no part in what the log shows.\<close>

lemma console_ok_if [simp]: "console_ok (k\<lparr>reg_if := b\<rparr>) = console_ok k"
  "console_ok (k\<lparr>cpu_halted := b\<rparr>) = console_ok k"
  by (simp_all add: console_ok_def vga_ok_def)

lemma screen_if [simp]: "screen (k\<lparr>reg_if := b\<rparr>) = screen k" "screen (k\<lparr>cpu_halted := b\<rparr>) = screen k"
  by (simp_all add: screen_def cong: if_cong)

lemma console_ok_kernel [simp]:
  "console_ok (k\<lparr>k_memory := a\<rparr>) = console_ok k" "console_ok (k\<lparr>k_pmm := b\<rparr>) = console_ok k"
  "console_ok (k\<lparr>k_interrupts := d\<rparr>) = console_ok k" "console_ok (k\<lparr>k_input := e\<rparr>) = console_ok k"
  "console_ok (k\<lparr>k_keyboard := f\<rparr>) = console_ok k" "console_ok (k\<lparr>k_pit := g\<rparr>) = console_ok k"
  "console_ok (k\<lparr>k_shell := h\<rparr>) = console_ok k"
  by (simp_all add: console_ok_def vga_ok_def)

lemma screen_kernel [simp]:
  "screen (k\<lparr>k_memory := a\<rparr>) = screen k" "screen (k\<lparr>k_pmm := b\<rparr>) = screen k"
  "screen (k\<lparr>k_interrupts := d\<rparr>) = screen k" "screen (k\<lparr>k_input := e\<rparr>) = screen k"
  "screen (k\<lparr>k_keyboard := f\<rparr>) = screen k" "screen (k\<lparr>k_pit := g\<rparr>) = screen k"
  "screen (k\<lparr>k_shell := h\<rparr>) = screen k"
  by (simp_all add: screen_def cong: if_cong)

lemma kernel_panic_spec:
  assumes "console_ok k"
  shows "\<exists>k'. kernel_panic message k = k'\<lparr>cpu_halted := True\<rparr> \<and> console_ok k' \<and>
     screen k' = fold ts_putchar (panic_text message) (screen k) \<and> klog_frame (k\<lparr>reg_if := False\<rparr>) k'"
proof -
  let ?m = "case message of Some m \<Rightarrow> m | None \<Rightarrow> ''Unspecified fatal error''"
  let ?fs = "[log_puts ([CHR 0x0A] @ ''[KERNEL PANIC] ''), log_puts ?m, log_putc (CHR 0x0A),
     log_puts (''System halted.'' @ [CHR 0x0A])]"
  have shown: "log_prints (run_steps ?fs) (concat [[CHR 0x0A] @ ''[KERNEL PANIC] '', c_text ?m, [CHR 0x0A],
     ''System halted.'' @ [CHR 0x0A]])"
    by (intro log_prints_all) (simp_all add: c_text_no_NUL)
  have same: "concat [[CHR 0x0A] @ ''[KERNEL PANIC] '', c_text ?m, [CHR 0x0A], ''System halted.'' @ [CHR 0x0A]] =
      panic_text message"
    by (simp add: panic_text_def c_text_no_NUL split: option.split)
  have "console_ok (k\<lparr>reg_if := False\<rparr>)" using assms by simp
  from prints_onD [OF shown [unfolded same] this] obtain k' where
    k': "run_steps ?fs (k\<lparr>reg_if := False\<rparr>) = Some k'" "console_ok k'"
      "screen k' = fold ts_putchar (panic_text message) (screen k)" "klog_frame (k\<lparr>reg_if := False\<rparr>) k'"
    unfolding screen_if by blast
  have "kernel_panic message k = k'\<lparr>cpu_halted := True\<rparr>"
    using k'(1) by (simp add: kernel_panic_def cpu_disable_interrupts_def cpu_halt_def Let_def split: option.splits)
  with k'(2-4) show ?thesis by blast
qed

section \<open>What a log operation leaves alone in the kernel\<close>

lemma frame_kernel:
  fixes k k' :: kernel
  assumes "klog_frame k k'"
  shows "k_memory k' = k_memory k" "k_pmm k' = k_pmm k" "k_paging k' = k_paging k" "k_vmm k' = k_vmm k"
    "k_heap k' = k_heap k" "k_gdt k' = k_gdt k" "k_idt k' = k_idt k" "k_interrupts k' = k_interrupts k"
    "k_input k' = k_input k" "k_keyboard k' = k_keyboard k" "k_pit k' = k_pit k" "k_shell k' = k_shell k"
    "reg_if k' = reg_if k" "cpu_halted k' = cpu_halted k" "reg_cr0 k' = reg_cr0 k" "reg_cr3 k' = reg_cr3 k"
    "reg_gdtr k' = reg_gdtr k" "reg_idtr k' = reg_idtr k" "io_device k' = io_device k"
  using assms by (cases k; cases k'; simp add: klog_frame_def)+

section \<open>The state at power-on\<close>

text \<open>The static variables as the boot loader leaves them, with a device.\<close>

definition kernel_static :: "(io_event list \<Rightarrow> u16 \<Rightarrow> u8) \<Rightarrow> kernel" where
  "kernel_static dev = \<lparr>io_device = dev, io_log = [], reg_if = False, cpu_halted = False, reg_cr0 = 0x11,
     reg_cr3 = 0, reg_gdtr = (0, 0), reg_idtr = (0, 0), terminal_row = 0, terminal_column = 0,
     terminal_view_start = 0, terminal_color = 0, terminal_buffer = (\<lambda>_. 0),
     console_initialized = False, serial_initialized = False, klog_serial_available = False,
     k_memory = memory_static, k_pmm = pmm_static, k_paging = paging_static, k_vmm = vmm_static,
     k_heap = heap_static, k_gdt = gdt_static, k_idt = idt_static, k_interrupts = interrupts_static,
     k_input = input_static, k_keyboard = keyboard_static, k_pit = pit_static,
     k_shell = \<lparr>shell_buffer = afill 64 NUL, shell_buffer_length = 0\<rparr>\<rparr>"

lemma kernel_static_console: "console_ok ((kernel_static dev)\<lparr>console_initialized := True\<rparr>)"
  by (simp add: console_ok_def vga_ok_def crtc_start_def kernel_static_def)

section \<open>Properties\<close>

text \<open>
  A panic shows its message, or the default one for NULL, between the fixed lines, on the
  screen whatever the serial device does, and leaves the processor halted with interrupts off: no
  device can start it again.  Nothing else of the kernel's state changes.
\<close>

theorem kernel_panic_reports_and_halts:
  assumes "console_ok k"
  shows "screen (kernel_panic message k) = fold ts_putchar (panic_text message) (screen k) \<and>
     cpu_halted (kernel_panic message k) \<and> \<not> reg_if (kernel_panic message k) \<and>
     console_ok (kernel_panic message k) \<and> k_pmm (kernel_panic message k) = k_pmm k \<and>
     k_interrupts (kernel_panic message k) = k_interrupts k \<and> k_input (kernel_panic message k) = k_input k"
proof -
  from kernel_panic_spec [OF assms, of message] obtain k' where
    k': "kernel_panic message k = k'\<lparr>cpu_halted := True\<rparr>" "console_ok k'"
      "screen k' = fold ts_putchar (panic_text message) (screen k)" "klog_frame (k\<lparr>reg_if := False\<rparr>) k'"
    by blast
  show ?thesis using k'(2,3) frame_kernel [OF k'(4)] unfolding k'(1) by simp
qed

lemma kernel_panic_reports_and_halts_witness:
  "cpu_halted (kernel_panic None ((kernel_static (\<lambda>_ _. 0))\<lparr>console_initialized := True\<rparr>))"
  using kernel_panic_reports_and_halts [OF kernel_static_console, of None "\<lambda>_ _. 0"] by blast

end
