(* ===== verification/Shell.thy ===== *)
theory Shell
  imports Kernel_State
begin

text \<open>
  \<^verbatim>\<open>src/kernel/shell.c\<close>: line editing and the built-in commands.  The abstract view of the shell
  is the line typed so far (\<open>shell_line\<close>); the lemmas give, for every command, the text that
  appears, and for every character the new line and what is echoed.
\<close>

section \<open>Operations\<close>

definition SHELL_BUFFER_SIZE :: u32 where "SHELL_BUFFER_SIZE = 64"
definition SHELL_PROMPT :: cstring where "SHELL_PROMPT = ''wigOSX> ''"

text \<open>Statements that print on the console alone.\<close>

abbreviation con_puts :: "cstring \<Rightarrow> 'a console_scheme \<Rightarrow> 'a console_scheme option" where
  "con_puts t \<equiv> (\<lambda>s. Some (console_writestring (Some t) s))"

abbreviation con_putc :: "char \<Rightarrow> 'a console_scheme \<Rightarrow> 'a console_scheme option" where
  "con_putc c \<equiv> (\<lambda>s. Some (console_putchar c s))"

abbreviation con_line :: "cstring \<Rightarrow> 'a console_scheme \<Rightarrow> 'a console_scheme option" where
  "con_line t \<equiv> con_puts (t @ [CHR 0x0A])"

definition shell_print_prompt :: "kernel \<Rightarrow> kernel option" where
  "shell_print_prompt = con_puts SHELL_PROMPT"

text \<open>The end of a list of bytes is the terminating NUL.\<close>

definition c_head :: "cstring \<Rightarrow> char" where
  "c_head s = (case s of [] \<Rightarrow> NUL | c # _ \<Rightarrow> c)"

function shell_strings_equal :: "cstring \<Rightarrow> cstring \<Rightarrow> bool" where
  "shell_strings_equal left right =
     (if c_head left \<noteq> NUL \<and> c_head right \<noteq> NUL then
        if c_head left \<noteq> c_head right then False
        else shell_strings_equal (tl left) (tl right)
      else c_head left = NUL \<and> c_head right = NUL)"
  by pat_completeness auto
termination
  by (relation "measure (\<lambda>(l, r). length l)") (auto simp: c_head_def split: list.splits)

definition shell_command_is_empty :: "cstring \<Rightarrow> bool" where
  "shell_command_is_empty command \<longleftrightarrow> c_head command = NUL"

definition shell_print_uint32 :: "u32 \<Rightarrow> kernel \<Rightarrow> kernel option" where
  "shell_print_uint32 value k = do {
     (ok, buffer) \<leftarrow> kformat_uint32_decimal value (Some (afill 11 NUL)) 11;
     Some (if ok then console_writestring (map_option acells buffer) k else k)
   }"

definition shell_command_help :: "kernel \<Rightarrow> kernel option" where
  "shell_command_help = run_steps [
     con_line ''wigOSX commands:'',
     con_line ''  help     - show this help text'',
     con_line ''  clear    - clear the screen'',
     con_line ''  version  - show kernel version'',
     con_line ''  ticks    - show PIT tick count'',
     con_line ''  irq      - show interrupt-context and IRQ diagnostics'',
     con_line ''  input    - show queued and dropped input counts'',
     con_line ''  mem      - show detected memory summary'',
     con_line ''  pmm      - show physical memory manager summary'',
     con_line ''  pmm_test - run a basic PMM allocation/free self-test'',
     con_line ''  paging   - show paging and identity-map summary'',
     con_line ''  heap     - show kernel heap backing-region summary'',
     con_line ''  about    - describe the current stage'',
     con_line ''  scroll   - print lines to test terminal scrolling'']"

definition shell_command_version :: "kernel \<Rightarrow> kernel option" where
  "shell_command_version = run_steps [
     con_puts ''wigOSX '', con_puts WIGOSX_VERSION_STRING, con_putc (CHR 0x0A)]"

definition shell_command_ticks :: "kernel \<Rightarrow> kernel option" where
  "shell_command_ticks = run_steps [
     con_puts ''PIT ticks since initialization: '',
     (\<lambda>k. shell_print_uint32 (ktime_get_ticks (k_pit k)) k),
     con_putc (CHR 0x0A)]"

definition shell_command_about :: "kernel \<Rightarrow> kernel option" where
  "shell_command_about = run_steps [
     con_puts WIGOSX_STAGE_LABEL,
     con_line ''.'',
     con_line ''Kernel services now use explicit console, logging, panic, input, and interrupt boundaries.'',
     con_line ''Identity paging remains active for the first 16 MiB.'']"

definition shell_command_input :: "kernel \<Rightarrow> kernel option" where
  "shell_command_input = run_steps [
     con_puts ''Queued input characters: '',
     (\<lambda>k. shell_print_uint32 (input_get_pending_character_count (k_input k)) k),
     con_putc (CHR 0x0A),
     con_puts ''Dropped input characters: '',
     (\<lambda>k. shell_print_uint32 (input_get_dropped_character_count (k_input k)) k),
     con_putc (CHR 0x0A)]"

definition shell_command_scrolltest :: "kernel \<Rightarrow> kernel option" where
  "shell_command_scrolltest = for_range 0 40 (\<lambda>i. run_steps [
     con_puts ''scroll test line '', shell_print_uint32 (of_nat i), con_putc (CHR 0x0A)])"

definition shell_command_irq :: "kernel \<Rightarrow> kernel option" where
  "shell_command_irq = run_steps [
     con_puts ''Interrupt context depth: '',
     (\<lambda>k. shell_print_uint32 (interrupts_get_context_depth (k_interrupts k)) k),
     con_putc (CHR 0x0A),
     con_puts ''PIT IRQ0 dispatches: '',
     (\<lambda>k. do { n \<leftarrow> interrupts_get_irq_count 0 (k_interrupts k); shell_print_uint32 n k }),
     con_putc (CHR 0x0A),
     con_puts ''Keyboard IRQ1 dispatches: '',
     (\<lambda>k. do { n \<leftarrow> interrupts_get_irq_count 1 (k_interrupts k); shell_print_uint32 n k }),
     con_putc (CHR 0x0A),
     con_puts ''Unhandled IRQ dispatches: '',
     (\<lambda>k. shell_print_uint32 (interrupts_get_unhandled_irq_count (k_interrupts k)) k),
     con_putc (CHR 0x0A),
     con_puts ''Invalid IRQ dispatches: '',
     (\<lambda>k. shell_print_uint32 (interrupts_get_invalid_irq_count (k_interrupts k)) k),
     con_putc (CHR 0x0A)]"

definition shell_command_heap :: "kernel \<Rightarrow> kernel option" where
  "shell_command_heap = run_steps [
     con_puts ''Heap initialized: '',
     (\<lambda>k. con_puts ((if heap_is_initialized (k_heap k) then ''yes'' else ''no'') @ [CHR 0x0A]) k),
     con_puts ''Heap capacity bytes: '',
     (\<lambda>k. shell_print_uint32 (heap_get_capacity (k_heap k)) k),
     con_putc (CHR 0x0A),
     con_line ''Allocator available: no'']"

definition shell_command_pmm_test :: "kernel \<Rightarrow> kernel option" where
  "shell_command_pmm_test k = do {
     (passed, p) \<leftarrow> pmm_run_basic_self_test (k_pmm k);
     let k1 = k\<lparr>k_pmm := p\<rparr>;
     if passed then con_line ''PMM self-test passed.'' k1 else con_line ''PMM self-test failed.'' k1
   }"

definition shell_execute_command :: "cstring \<Rightarrow> kernel \<Rightarrow> kernel option" where
  "shell_execute_command command k =
     (if shell_command_is_empty command then Some k
      else if shell_strings_equal command ''help'' then shell_command_help k
      else if shell_strings_equal command ''clear'' then Some (console_clear k)
      else if shell_strings_equal command ''version'' then shell_command_version k
      else if shell_strings_equal command ''ticks'' then shell_command_ticks k
      else if shell_strings_equal command ''irq'' then shell_command_irq k
      else if shell_strings_equal command ''input'' then shell_command_input k
      else if shell_strings_equal command ''mem'' then memory_print_summary (k_memory k) k
      else if shell_strings_equal command ''pmm'' then pmm_print_summary (k_pmm k) k
      else if shell_strings_equal command ''pmm_test'' then shell_command_pmm_test k
      else if shell_strings_equal command ''heap'' then shell_command_heap k
      else if shell_strings_equal command ''paging'' then vmm_print_summary (k_paging k) (k_vmm k) k
      else if shell_strings_equal command ''about'' then shell_command_about k
      else if shell_strings_equal command ''scroll'' then shell_command_scrolltest k
      else run_steps [
        con_puts ''Unknown command: '', con_puts command, con_putc (CHR 0x0A),
        con_line ''Type 'help' for available commands.''] k)"

definition shell_reset_buffer :: "shell \<Rightarrow> shell option" where
  "shell_reset_buffer sh = do {
     sh1 \<leftarrow> for_range 0 (unat SHELL_BUFFER_SIZE) (\<lambda>i sh. do {
       b \<leftarrow> awrite (shell_buffer sh) i NUL;
       Some (sh\<lparr>shell_buffer := b\<rparr>)
     }) sh;
     Some (sh1\<lparr>shell_buffer_length := 0\<rparr>)
   }"

text \<open>Functions of the shell's variables, run on the kernel.\<close>

definition on_shell :: "(shell \<Rightarrow> shell option) \<Rightarrow> kernel \<Rightarrow> kernel option" where
  "on_shell f k = do { sh \<leftarrow> f (k_shell k); Some (k\<lparr>k_shell := sh\<rparr>) }"

definition shell_initialize :: "kernel \<Rightarrow> kernel option" where
  "shell_initialize = run_steps [
     on_shell shell_reset_buffer,
     con_puts WIGOSX_STAGE_LABEL,
     con_line '' shell ready.'',
     con_line ''Type 'help' for commands.'',
     shell_print_prompt]"

definition shell_store :: "u32 \<Rightarrow> char \<Rightarrow> shell \<Rightarrow> shell option" where
  "shell_store i c sh = do {
     b \<leftarrow> awrite (shell_buffer sh) (unat i) c;
     Some (sh\<lparr>shell_buffer := b\<rparr>)
   }"

definition shell_handle_character :: "char \<Rightarrow> kernel \<Rightarrow> outcome option" where
  "shell_handle_character ascii k =
     (if interrupts_is_in_context (k_interrupts k)
      then panics ''Shell invoked from interrupt context'' k
      else if ascii = CHR 0x0A then
        returning (run_steps [
          con_putc (CHR 0x0A),
          (\<lambda>k. on_shell (shell_store (shell_buffer_length (k_shell k)) NUL) k),
          (\<lambda>k. shell_execute_command (acells (shell_buffer (k_shell k))) k),
          on_shell shell_reset_buffer,
          shell_print_prompt]) k
      else if ascii = CHR 0x08 then
        (if shell_buffer_length (k_shell k) > 0 then
           returning (run_steps [
             on_shell (\<lambda>sh. Some (sh\<lparr>shell_buffer_length := shell_buffer_length sh - 1\<rparr>)),
             on_shell (\<lambda>sh. shell_store (shell_buffer_length sh) NUL sh),
             con_putc (CHR 0x08)]) k
         else Some (Returned k))
      else if ascii = CHR 0x09 then Some (Returned k)
      else if shell_buffer_length (k_shell k) \<ge> SHELL_BUFFER_SIZE - 1 then
        returning (run_steps [
          log_puts ([CHR 0x0A] @ ''[WARNING] Shell input buffer full.'' @ [CHR 0x0A]),
          shell_print_prompt]) k
      else
        returning (run_steps [
          on_shell (\<lambda>sh. shell_store (shell_buffer_length sh) ascii sh),
          on_shell (\<lambda>sh. Some (sh\<lparr>shell_buffer_length := shell_buffer_length sh + 1\<rparr>)),
          con_putc ascii]) k)"

section \<open>String comparison\<close>

lemma c_text_step: "c_text s = (if c_head s = NUL then [] else c_head s # c_text (tl s))"
  by (cases s) (simp_all add: c_head_def c_text_def)

declare shell_strings_equal.simps [simp del]

lemma shell_strings_equal_iff: "shell_strings_equal l r \<longleftrightarrow> c_text l = c_text r"
proof (induction l r rule: shell_strings_equal.induct)
  case (1 l r)
  show ?case
    using 1 c_text_step [of l] c_text_step [of r] by (subst shell_strings_equal.simps) auto
qed

lemma shell_command_is_empty_iff: "shell_command_is_empty l \<longleftrightarrow> c_text l = []"
  using c_text_step [of l] by (simp add: shell_command_is_empty_def split: if_splits)

section \<open>Printing while the kernel's variables stay as they are\<close>

text \<open>
  \<open>prints_since k0 f t\<close>: run in any state that differs from \<open>k0\<close> by output only, \<open>f\<close> does not
  fault and shows \<open>t\<close>.  A statement may then read a variable of the kernel: it has its value in
  \<open>k0\<close>.
\<close>

abbreviation prints_since :: "kernel \<Rightarrow> (kernel \<Rightarrow> kernel option) \<Rightarrow> string \<Rightarrow> bool" where
  "prints_since k0 \<equiv> prints_on (\<lambda>k. console_ok k \<and> klog_frame k0 k) screen ts_putchar klog_frame"

lemma since_device: "char_device (\<lambda>k. console_ok k \<and> klog_frame k0 k) screen ts_putchar klog_frame klog_putchar"
  by unfold_locales (use klog.putc in \<open>auto intro: klog_frame_refl klog_frame_trans\<close>)

lemmas since_steps = char_device.prints_steps [OF since_device]
lemmas since_range = char_device.prints_for_range [OF since_device]

lemma since_log: "log_prints f t \<Longrightarrow> prints_since k0 f t"
  unfolding prints_on_def by (blast intro: klog_frame_trans)

lemma since_read:
  assumes "\<And>k. klog_frame k0 k \<Longrightarrow> f k = g k" "log_prints g t"
  shows "prints_since k0 f t"
  using assms since_log [OF assms(2), of k0] unfolding prints_on_def by (metis (no_types, lifting))

lemma since_start: "prints_since k f t \<Longrightarrow> console_ok k \<Longrightarrow>
    \<exists>k'. f k = Some k' \<and> console_ok k' \<and> screen k' = fold ts_putchar t (screen k) \<and> klog_frame k k'"
  unfolding prints_on_def using klog_frame_refl by blast

lemma con_prints_puts: "c_text s = t \<Longrightarrow> log_prints (con_puts s) t"
  using console.puts vga_frame_klog(1) unfolding prints_on_def by blast

lemma con_prints_putc: "log_prints (con_putc c) [c]"
  using console.putc vga_frame_klog(1) unfolding prints_on_def by simp blast

lemma con_prints_line: "NUL \<notin> set t \<Longrightarrow> log_prints (con_line t) (t @ [CHR 0x0A])"
  by (rule con_prints_puts) (simp add: c_text_no_NUL)

lemma con_prints_uint32: "log_prints (shell_print_uint32 v) (decimal_text (unat v))"
proof -
  have len: "length (decimal_text (unat v)) \<le> 10" by (rule decimal_text_u32)
  let ?buf = "acells (ablit (afill 11 NUL) 0 (decimal_text (unat v) @ [NUL]))"
  have "kformat_uint32_decimal v (Some (afill 11 NUL)) 11 =
      Some (True, Some (ablit (afill 11 NUL) 0 (decimal_text (unat v) @ [NUL])))"
    using len kformat_decimal_eq [of v 10 11 "afill 11 NUL"]
    by (simp add: kformat_uint32_decimal_def)
  then have eq: "shell_print_uint32 v = con_puts ?buf" by (simp add: shell_print_uint32_def fun_eq_iff)
  show ?thesis unfolding eq
    by (rule con_prints_puts) (use len in \<open>simp add: c_text_ablit decimal_text_no_NUL\<close>)
qed

lemma con_prints_clear: "log_prints (\<lambda>k. Some (console_clear k)) [CHR 0x0C]"
proof -
  have "console_clear k = console_putchar (CHR 0x0C) k" for k :: "'a klog_scheme"
    by (simp add: console_clear_def console_putchar_def terminal_putchar_def terminal_form_feed_def)
  then show ?thesis using con_prints_putc by simp
qed

lemmas con_prints = con_prints_putc con_prints_line con_prints_uint32 con_prints_puts

section \<open>What every command shows\<close>

definition counter_line :: "string \<Rightarrow> nat \<Rightarrow> string" where
  "counter_line label n = label @ decimal_text n @ [CHR 0x0A]"

definition help_text :: string where
  "help_text = concat (map (\<lambda>t. t @ [CHR 0x0A]) [
     ''wigOSX commands:'',
     ''  help     - show this help text'',
     ''  clear    - clear the screen'',
     ''  version  - show kernel version'',
     ''  ticks    - show PIT tick count'',
     ''  irq      - show interrupt-context and IRQ diagnostics'',
     ''  input    - show queued and dropped input counts'',
     ''  mem      - show detected memory summary'',
     ''  pmm      - show physical memory manager summary'',
     ''  pmm_test - run a basic PMM allocation/free self-test'',
     ''  paging   - show paging and identity-map summary'',
     ''  heap     - show kernel heap backing-region summary'',
     ''  about    - describe the current stage'',
     ''  scroll   - print lines to test terminal scrolling''])"

definition about_text :: string where
  "about_text = WIGOSX_STAGE_LABEL @ ''.'' @ [CHR 0x0A] @
     ''Kernel services now use explicit console, logging, panic, input, and interrupt boundaries.'' @ [CHR 0x0A] @
     ''Identity paging remains active for the first 16 MiB.'' @ [CHR 0x0A]"

definition irq_text :: "irq_handler interrupts \<Rightarrow> string" where
  "irq_text st =
     counter_line ''Interrupt context depth: '' (unat (interrupt_context_depth st)) @
     counter_line ''PIT IRQ0 dispatches: '' (count_of st 0) @
     counter_line ''Keyboard IRQ1 dispatches: '' (count_of st 1) @
     counter_line ''Unhandled IRQ dispatches: '' (unat (unhandled_irq_count st)) @
     counter_line ''Invalid IRQ dispatches: '' (unat (invalid_irq_count st))"

text \<open>The text of every command the shell knows.\<close>

definition command_table :: "kernel \<Rightarrow> (string \<times> string) list" where
  "command_table k = [
     (''help'', help_text),
     (''clear'', [CHR 0x0C]),
     (''version'', ''wigOSX '' @ WIGOSX_VERSION_STRING @ [CHR 0x0A]),
     (''ticks'', counter_line ''PIT ticks since initialization: '' (unat (pit_ticks (k_pit k)))),
     (''irq'', irq_text (k_interrupts k)),
     (''input'',
        counter_line ''Queued input characters: '' (length (queue_contents (k_input k))) @
        counter_line ''Dropped input characters: '' (unat (input_dropped_character_count (k_input k)))),
     (''mem'', memory_summary_text (k_memory k)),
     (''pmm'', pmm_summary_text (k_pmm k)),
     (''pmm_test'',
        (if free_set (k_pmm k) \<noteq> {} then ''PMM self-test passed.'' else ''PMM self-test failed.'') @ [CHR 0x0A]),
     (''heap'',
        ''Heap initialized: '' @ (if heap_initialized (k_heap k) then ''yes'' else ''no'') @ [CHR 0x0A] @
        counter_line ''Heap capacity bytes: '' (unat (heap_get_capacity (k_heap k))) @
        ''Allocator available: no'' @ [CHR 0x0A]),
     (''paging'', vmm_summary_text (vmm_is_enabled (k_vmm k) k) (vmm_get_identity_mapped_bytes (k_paging k))),
     (''about'', about_text),
     (''scroll'', concat (map (counter_line ''scroll test line '') [0..<40]))]"

definition command_output :: "string \<Rightarrow> kernel \<Rightarrow> string" where
  "command_output line k =
     (if line = [] then []
      else case map_of (command_table k) line of
        Some t \<Rightarrow> t
      | None \<Rightarrow> ''Unknown command: '' @ line @ [CHR 0x0A] @ ''Type 'help' for available commands.'' @ [CHR 0x0A])"

lemma since_eq: "prints_since k f t \<Longrightarrow> t = u \<Longrightarrow> prints_since k f u"
  by simp

lemma version_prints: "log_prints shell_command_version (''wigOSX '' @ WIGOSX_VERSION_STRING @ [CHR 0x0A])"
proof -
  have "log_prints shell_command_version (concat [''wigOSX '', WIGOSX_VERSION_STRING, [CHR 0x0A]])"
    unfolding shell_command_version_def
    by (intro klog.prints_steps list.rel_intros con_prints) (simp_all add: c_text_no_NUL stage_label_no_NUL)
  then show ?thesis by (rule log_prints_eq) simp
qed

lemma help_prints: "log_prints shell_command_help help_text"
  unfolding shell_command_help_def help_text_def list.map
  by (intro klog.prints_steps list.rel_intros con_prints_line) simp_all

lemma about_prints: "log_prints shell_command_about about_text"
proof -
  have "log_prints shell_command_about (concat [WIGOSX_STAGE_LABEL, ''.'' @ [CHR 0x0A],
     ''Kernel services now use explicit console, logging, panic, input, and interrupt boundaries.'' @ [CHR 0x0A],
     ''Identity paging remains active for the first 16 MiB.'' @ [CHR 0x0A]])"
    unfolding shell_command_about_def
    by (intro klog.prints_steps list.rel_intros con_prints_line con_prints_puts)
       (simp_all add: c_text_no_NUL stage_label_no_NUL)
  then show ?thesis by (rule log_prints_eq) (simp add: about_text_def)
qed

lemma scroll_prints: "log_prints shell_command_scrolltest (concat (map (counter_line ''scroll test line '') [0..<40]))"
  unfolding shell_command_scrolltest_def
proof (rule klog.prints_for_range)
  fix i :: nat assume "i < 40"
  then have i: "unat (of_nat i :: u32) = i" by (intro unat_of_nat_u32) simp
  have shown: "log_prints (run_steps [con_puts ''scroll test line '', shell_print_uint32 (of_nat i), con_putc (CHR 0x0A)])
      (concat [''scroll test line '', decimal_text (unat (of_nat i :: u32)), [CHR 0x0A]])"
    by (intro klog.prints_steps list.rel_intros con_prints) (simp add: c_text_no_NUL)
  show "log_prints (run_steps [con_puts ''scroll test line '', shell_print_uint32 (of_nat i), con_putc (CHR 0x0A)])
      (counter_line ''scroll test line '' i)"
    by (rule log_prints_eq [OF shown]) (simp add: counter_line_def i)
qed

text \<open>Commands that read variables.\<close>

lemma since_uint32:
  "(\<And>k. klog_frame k0 k \<Longrightarrow> g k = g k0) \<Longrightarrow> t = decimal_text (unat (g k0)) \<Longrightarrow>
     prints_since k0 (\<lambda>k. shell_print_uint32 (g k) k) t"
  using con_prints_uint32 [of "g k0"] by (intro since_read [where g = "shell_print_uint32 (g k0)"]) simp_all

lemma since_puts: "c_text s = t \<Longrightarrow> prints_since k0 (con_puts s) t"
  by (rule since_log) (rule con_prints_puts)

lemma since_putc: "prints_since k0 (con_putc c) [c]"
  by (rule since_log) (rule con_prints_putc)

lemma ticks_prints: "prints_since k shell_command_ticks
    (counter_line ''PIT ticks since initialization: '' (unat (pit_ticks (k_pit k))))"
proof -
  have shown: "prints_since k shell_command_ticks (concat [''PIT ticks since initialization: '',
      decimal_text (unat (ktime_get_ticks (k_pit k))), [CHR 0x0A]])"
    unfolding shell_command_ticks_def
    by (intro since_steps list.rel_intros since_putc since_uint32 since_puts)
       (simp_all add: c_text_no_NUL frame_kernel)
  show ?thesis by (rule since_eq [OF shown]) (simp add: counter_line_def ktime_get_ticks_def pit_get_ticks_def)
qed

lemma input_prints: "prints_since k shell_command_input
    (counter_line ''Queued input characters: '' (length (queue_contents (k_input k))) @
     counter_line ''Dropped input characters: '' (unat (input_dropped_character_count (k_input k))))"
proof -
  have shown: "prints_since k shell_command_input (concat [''Queued input characters: '',
      decimal_text (unat (input_get_pending_character_count (k_input k))), [CHR 0x0A], ''Dropped input characters: '',
      decimal_text (unat (input_get_dropped_character_count (k_input k))), [CHR 0x0A]])"
    unfolding shell_command_input_def
    by (intro since_steps list.rel_intros since_putc since_uint32 since_puts)
       (simp_all add: c_text_no_NUL frame_kernel)
  show ?thesis
    by (rule since_eq [OF shown])
       (simp add: counter_line_def input_get_pending_character_count_def input_get_dropped_character_count_def queue_length_def)
qed

lemma irq_prints:
  assumes "interrupts_wf (k_interrupts k)"
  shows "prints_since k shell_command_irq (irq_text (k_interrupts k))"
proof -
  let ?st = "k_interrupts k"
  have count: "\<exists>v. interrupts_get_irq_count i ?st = Some v \<and> unat v = count_of ?st (unat i)" if "unat i < 16" for i
    using assms that by (simp add: interrupts_get_irq_count_def irq_in_range interrupts_wf_def count_of_def)
  from count [of 0] count [of 1] obtain v0 v1 where
    v: "interrupts_get_irq_count 0 ?st = Some v0" "unat v0 = count_of ?st 0"
       "interrupts_get_irq_count 1 ?st = Some v1" "unat v1 = count_of ?st 1" by auto
  have c: "prints_since k (\<lambda>s. do { n \<leftarrow> interrupts_get_irq_count i (k_interrupts s); shell_print_uint32 n s })
      (decimal_text (unat w))" if "interrupts_get_irq_count i ?st = Some w" for i w
    using that by (intro since_read [where g = "shell_print_uint32 w"]) (simp_all add: frame_kernel con_prints_uint32)
  have shown: "prints_since k shell_command_irq (concat [
      ''Interrupt context depth: '', decimal_text (unat (interrupts_get_context_depth ?st)), [CHR 0x0A],
      ''PIT IRQ0 dispatches: '', decimal_text (unat v0), [CHR 0x0A],
      ''Keyboard IRQ1 dispatches: '', decimal_text (unat v1), [CHR 0x0A],
      ''Unhandled IRQ dispatches: '', decimal_text (unat (interrupts_get_unhandled_irq_count ?st)), [CHR 0x0A],
      ''Invalid IRQ dispatches: '', decimal_text (unat (interrupts_get_invalid_irq_count ?st)), [CHR 0x0A]])"
    unfolding shell_command_irq_def
    by (intro since_steps list.rel_intros since_putc since_uint32 since_puts c v)
       (simp_all add: c_text_no_NUL frame_kernel)
  show ?thesis
    by (rule since_eq [OF shown])
       (simp add: irq_text_def counter_line_def v interrupts_get_context_depth_def
         interrupts_get_unhandled_irq_count_def interrupts_get_invalid_irq_count_def)
qed

lemma heap_prints: "prints_since k shell_command_heap
    (''Heap initialized: '' @ (if heap_initialized (k_heap k) then ''yes'' else ''no'') @ [CHR 0x0A] @
     counter_line ''Heap capacity bytes: '' (unat (heap_get_capacity (k_heap k))) @
     ''Allocator available: no'' @ [CHR 0x0A])"
proof -
  let ?v = "(if heap_is_initialized (k_heap k) then ''yes'' else ''no'') @ [CHR 0x0A]"
  have y: "prints_since k (\<lambda>k. con_puts ((if heap_is_initialized (k_heap k) then ''yes'' else ''no'') @ [CHR 0x0A]) k) ?v"
    by (intro since_read [where g = "con_puts ?v"] con_prints_puts) (simp_all add: frame_kernel c_text_no_NUL)
  have shown: "prints_since k shell_command_heap (concat [''Heap initialized: '', ?v, ''Heap capacity bytes: '',
      decimal_text (unat (heap_get_capacity (k_heap k))), [CHR 0x0A], ''Allocator available: no'' @ [CHR 0x0A]])"
    unfolding shell_command_heap_def
    by (intro since_steps list.rel_intros since_putc since_uint32 y since_puts)
       (simp_all add: c_text_no_NUL frame_kernel)
  show ?thesis by (rule since_eq [OF shown]) (simp add: counter_line_def heap_is_initialized_def)
qed

section \<open>Executing a command\<close>

definition same_frames :: "pmm \<Rightarrow> pmm \<Rightarrow> bool" where
  "same_frames p p' \<longleftrightarrow> pmm_running p' \<and> free_set p' = free_set p \<and> alloc_set p' = alloc_set p \<and>
     pmm_free_frames p' = pmm_free_frames p \<and> pmm_used_frames p' = pmm_used_frames p \<and> same_but_search p p'"

definition shell_ok :: "shell \<Rightarrow> bool" where
  "shell_ok sh \<longleftrightarrow> alen (shell_buffer sh) = 64 \<and> unat (shell_buffer_length sh) \<le> 63 \<and>
     (\<forall>i < 64. unat (shell_buffer_length sh) \<le> i \<longrightarrow> acell (shell_buffer sh) i = NUL)"

text \<open>The invariant of the running kernel.\<close>

definition kernel_ok :: "kernel \<Rightarrow> bool" where
  "kernel_ok k \<longleftrightarrow> console_ok k \<and> memory_inv (k_memory k) \<and> pmm_running (k_pmm k) \<and>
     interrupts_wf (k_interrupts k) \<and> input_ok (k_input k) \<and> shell_ok (k_shell k)"

lemma mem_prints:
  "memory_inv (k_memory k) \<Longrightarrow> log_prints (memory_print_summary (k_memory k)) (memory_summary_text (k_memory k))"
  by (rule memory_print_summary_prints) (simp add: memory_inv_def)

lemma paging_prints: "console_ok k \<Longrightarrow>
    \<exists>k'. vmm_print_summary (k_paging k) (k_vmm k) k = Some k' \<and> console_ok k' \<and>
      screen k' = fold ts_putchar (vmm_summary_text (vmm_is_enabled (k_vmm k) k)
        (vmm_get_identity_mapped_bytes (k_paging k))) (screen k) \<and> klog_frame k k'"
  by (rule vmm_print_summary_spec)

lemma unknown_prints:
  "log_prints (run_steps [con_puts ''Unknown command: '', con_puts command, con_putc (CHR 0x0A),
     con_line ''Type 'help' for available commands.''])
   (''Unknown command: '' @ c_text command @ [CHR 0x0A] @ ''Type 'help' for available commands.'' @ [CHR 0x0A])"
proof -
  have shown: "log_prints (run_steps [con_puts ''Unknown command: '', con_puts command, con_putc (CHR 0x0A),
     con_line ''Type 'help' for available commands.''])
     (concat [''Unknown command: '', c_text command, [CHR 0x0A],
        ''Type 'help' for available commands.'' @ [CHR 0x0A]])"
    by (intro klog.prints_steps list.rel_intros con_prints_putc con_prints_line con_prints_puts)
       (simp_all add: c_text_no_NUL)
  show ?thesis by (rule log_prints_eq [OF shown]) simp
qed

text \<open>
  What a command does, as the difference between two kernels; the search position of the frame
  allocator may move only if \<open>b\<close> allows it.
\<close>

definition shows_moving :: "bool \<Rightarrow> kernel \<Rightarrow> kernel option \<Rightarrow> string \<Rightarrow> bool" where
  "shows_moving b k r t \<longleftrightarrow> (\<exists>k' p. r = Some k' \<and> console_ok k' \<and> screen k' = fold ts_putchar t (screen k) \<and>
     klog_frame (k\<lparr>k_pmm := p\<rparr>) k' \<and> same_frames (k_pmm k) p \<and> (\<not> b \<longrightarrow> p = k_pmm k))"

abbreviation shows_text :: "kernel \<Rightarrow> kernel option \<Rightarrow> string \<Rightarrow> bool" where
  "shows_text \<equiv> shows_moving True"

lemma shows_textI:
  assumes "\<exists>k'. r = Some k' \<and> console_ok k' \<and> screen k' = fold ts_putchar t (screen k) \<and> klog_frame k k'"
    and "pmm_running (k_pmm k)"
  shows "shows_moving b k r t"
proof -
  from assms(1) obtain k' where k': "r = Some k'" "console_ok k'" "screen k' = fold ts_putchar t (screen k)"
    "klog_frame k k'" by (elim exE conjE)
  have "same_frames (k_pmm k) (k_pmm k)" using assms(2) by (simp add: same_frames_def same_but_search_def)
  moreover have "k\<lparr>k_pmm := k_pmm k\<rparr> = k" by simp
  ultimately show ?thesis unfolding shows_moving_def using k'
    by (intro exI [of _ k'] exI [of _ "k_pmm k"] conjI impI) (simp_all only:)
qed

lemma kernel_ok_prints: "kernel_ok k \<Longrightarrow> console_ok k" "kernel_ok k \<Longrightarrow> pmm_running (k_pmm k)"
  by (simp_all add: kernel_ok_def)

lemma shows_log: "log_prints f t \<Longrightarrow> kernel_ok k \<Longrightarrow> shows_moving b k (f k) t"
  by (rule shows_textI, erule prints_onD, erule kernel_ok_prints, erule kernel_ok_prints)

lemma shows_since: "prints_since k f t \<Longrightarrow> kernel_ok k \<Longrightarrow> shows_moving b k (f k) t"
  by (rule shows_textI, erule since_start, erule kernel_ok_prints, erule kernel_ok_prints)

lemma shows_if:
  "(c \<Longrightarrow> shows_moving b k r t) \<Longrightarrow> shows_moving b k r' t' \<Longrightarrow> shows_moving b k (if c then r else r') (if c then t else t')"
  by simp

lemma pmm_test_shows:
  assumes "kernel_ok k"
  shows "shows_text k (shell_command_pmm_test k)
     ((if free_set (k_pmm k) \<noteq> {} then ''PMM self-test passed.'' else ''PMM self-test failed.'') @ [CHR 0x0A])"
proof -
  have run: "pmm_running (k_pmm k)" and con: "console_ok k" using assms by (simp_all add: kernel_ok_def)
  from self_test_spec [OF run] obtain p where
    p: "pmm_run_basic_self_test (k_pmm k) = Some (free_set (k_pmm k) \<noteq> {}, p)" "same_frames (k_pmm k) p"
    unfolding same_frames_def by blast
  let ?t = "(if free_set (k_pmm k) \<noteq> {} then ''PMM self-test passed.'' else ''PMM self-test failed.'')"
  have con': "console_ok (k\<lparr>k_pmm := p\<rparr>)" using con by simp
  have line: "log_prints (con_line ?t) (?t @ [CHR 0x0A])" by (rule con_prints_line) simp
  from prints_onD [OF line con'] obtain k' where
    k': "con_line ?t (k\<lparr>k_pmm := p\<rparr>) = Some k'" "console_ok k'"
      "screen k' = fold ts_putchar (?t @ [CHR 0x0A]) (screen (k\<lparr>k_pmm := p\<rparr>))" "klog_frame (k\<lparr>k_pmm := p\<rparr>) k'"
    by (elim exE conjE)
  have "shell_command_pmm_test k = Some k'"
    using p(1) k'(1) by (simp add: shell_command_pmm_test_def split: if_splits)
  then show ?thesis using k'(2-4) p(2) unfolding shows_moving_def screen_kernel by blast
qed

text \<open>Both cascades of comparisons, side by side.\<close>

lemma command_output_cases:
  "command_output t k =
     (if t = [] then []
      else if t = ''help'' then help_text
      else if t = ''clear'' then [CHR 0x0C]
      else if t = ''version'' then ''wigOSX '' @ WIGOSX_VERSION_STRING @ [CHR 0x0A]
      else if t = ''ticks'' then counter_line ''PIT ticks since initialization: '' (unat (pit_ticks (k_pit k)))
      else if t = ''irq'' then irq_text (k_interrupts k)
      else if t = ''input'' then
        counter_line ''Queued input characters: '' (length (queue_contents (k_input k))) @
        counter_line ''Dropped input characters: '' (unat (input_dropped_character_count (k_input k)))
      else if t = ''mem'' then memory_summary_text (k_memory k)
      else if t = ''pmm'' then pmm_summary_text (k_pmm k)
      else if t = ''pmm_test'' then
        (if free_set (k_pmm k) \<noteq> {} then ''PMM self-test passed.'' else ''PMM self-test failed.'') @ [CHR 0x0A]
      else if t = ''heap'' then
        ''Heap initialized: '' @ (if heap_initialized (k_heap k) then ''yes'' else ''no'') @ [CHR 0x0A] @
        counter_line ''Heap capacity bytes: '' (unat (heap_get_capacity (k_heap k))) @
        ''Allocator available: no'' @ [CHR 0x0A]
      else if t = ''paging'' then
        vmm_summary_text (vmm_is_enabled (k_vmm k) k) (vmm_get_identity_mapped_bytes (k_paging k))
      else if t = ''about'' then about_text
      else if t = ''scroll'' then concat (map (counter_line ''scroll test line '') [0..<40])
      else ''Unknown command: '' @ t @ [CHR 0x0A] @ ''Type 'help' for available commands.'' @ [CHR 0x0A])"
  by (simp only: command_output_def command_table_def map_of.simps fst_conv snd_conv fun_upd_apply option.case
      if_distrib [of "case_option _ _"] list.distinct refl if_True if_False eq_commute [of _ t] empty_def
      split: if_split cong: if_cong)

lemma execute_command_shows:
  assumes k: "kernel_ok k"
  shows "shows_moving (c_text line = ''pmm_test'') k (shell_execute_command line k) (command_output (c_text line) k)"
proof -
  have wf: "interrupts_wf (k_interrupts k)" and mem: "memory_inv (k_memory k)" and con: "console_ok k"
    and pmm: "pmm_running (k_pmm k)" using k by (simp_all add: kernel_ok_def)
  note logs = shows_log [OF help_prints k] shows_log [OF version_prints k] shows_log [OF about_prints k]
    shows_log [OF scroll_prints k] shows_log [OF con_prints_clear k] shows_log [OF pmm_print_summary_prints k]
    shows_log [OF mem_prints [OF mem] k] shows_log [OF unknown_prints k]
  note reads = shows_since [OF ticks_prints k] shows_since [OF input_prints k] shows_since [OF irq_prints [OF wf] k]
    shows_since [OF heap_prints k]
  have none: "shows_moving b k (Some k) []" for b
    by (rule shows_textI [OF _ pmm]) (use con klog_frame_refl [of k] in simp)
  have names: "c_text ''help'' = ''help''" "c_text ''clear'' = ''clear''" "c_text ''version'' = ''version''"
    "c_text ''ticks'' = ''ticks''" "c_text ''irq'' = ''irq''" "c_text ''input'' = ''input''" "c_text ''mem'' = ''mem''"
    "c_text ''pmm'' = ''pmm''" "c_text ''pmm_test'' = ''pmm_test''" "c_text ''heap'' = ''heap''"
    "c_text ''paging'' = ''paging''" "c_text ''about'' = ''about''" "c_text ''scroll'' = ''scroll''"
    by (simp_all add: c_text_no_NUL)
  have test: "shows_moving b k (shell_command_pmm_test k)
     ((if free_set (k_pmm k) \<noteq> {} then ''PMM self-test passed.'' else ''PMM self-test failed.'') @ [CHR 0x0A])" if b for b
    using pmm_test_shows [OF k] that by simp
  show ?thesis
    unfolding command_output_cases shell_execute_command_def shell_command_is_empty_iff shell_strings_equal_iff names
    by (intro shows_if none test shows_textI [OF paging_prints [OF con] pmm] logs reads) assumption
qed

lemma execute_command_text: "kernel_ok k \<Longrightarrow> shows_text k (shell_execute_command line k) (command_output (c_text line) k)"
  using execute_command_shows [of k line] by (fastforce simp only: shows_moving_def)

end
