(* ===== verification/Shell_Line.thy ===== *)
theory Shell_Line
  imports Shell
begin

text \<open>
  The shell's line editor: what \<open>shell_handle_character\<close> does to the line typed so far and what
  it shows, for every character, and the initialization.
\<close>

section \<open>A change of the kernel by shell statements\<close>

text \<open>
  From \<open>k\<close> to \<open>k'\<close> the text \<open>t\<close> was shown and the shell's variables became \<open>sh\<close>; nothing else
  changed but the search position of the frame allocator.
\<close>

definition shell_step :: "kernel \<Rightarrow> kernel \<Rightarrow> string \<Rightarrow> shell \<Rightarrow> bool" where
  "shell_step k k' t sh \<longleftrightarrow> console_ok k' \<and> screen k' = fold ts_putchar t (screen k) \<and>
     (\<exists>p. klog_frame (k\<lparr>k_pmm := p, k_shell := sh\<rparr>) k' \<and> same_frames (k_pmm k) p)"

lemma klog_frame_update:
  fixes a b :: kernel
  shows "klog_frame a b \<Longrightarrow> klog_frame (a\<lparr>k_pmm := p, k_shell := sh\<rparr>) (b\<lparr>k_pmm := p, k_shell := sh\<rparr>)"
  by (cases a; cases b) (simp add: klog_frame_def)

lemma shell_step_fields:
  assumes "shell_step k k' t sh"
  shows "k_shell k' = sh" "same_frames (k_pmm k) (k_pmm k')" "k_memory k' = k_memory k" "k_paging k' = k_paging k"
    "k_vmm k' = k_vmm k" "k_heap k' = k_heap k" "k_interrupts k' = k_interrupts k" "k_input k' = k_input k"
    "k_keyboard k' = k_keyboard k" "k_pit k' = k_pit k" "reg_if k' = reg_if k" "cpu_halted k' = cpu_halted k"
    "reg_cr0 k' = reg_cr0 k" "io_device k' = io_device k" "k_gdt k' = k_gdt k" "k_idt k' = k_idt k"
    "reg_cr3 k' = reg_cr3 k" "reg_gdtr k' = reg_gdtr k" "reg_idtr k' = reg_idtr k"
proof -
  from assms obtain p where f: "klog_frame (k\<lparr>k_pmm := p, k_shell := sh\<rparr>) k'" and p: "same_frames (k_pmm k) p"
    unfolding shell_step_def by blast
  note fr = frame_kernel [OF f]
  show "k_shell k' = sh" "same_frames (k_pmm k) (k_pmm k')" "k_memory k' = k_memory k" "k_paging k' = k_paging k"
    "k_vmm k' = k_vmm k" "k_heap k' = k_heap k" "k_interrupts k' = k_interrupts k" "k_input k' = k_input k"
    "k_keyboard k' = k_keyboard k" "k_pit k' = k_pit k" "reg_if k' = reg_if k" "cpu_halted k' = cpu_halted k"
    "reg_cr0 k' = reg_cr0 k" "io_device k' = io_device k" "k_gdt k' = k_gdt k" "k_idt k' = k_idt k"
    "reg_cr3 k' = reg_cr3 k" "reg_gdtr k' = reg_gdtr k" "reg_idtr k' = reg_idtr k"
    using fr p by simp_all
qed

lemma same_frames_trans: "same_frames a b \<Longrightarrow> same_frames b c \<Longrightarrow> same_frames a c"
  by (simp add: same_frames_def same_but_search_def)

lemma shell_step_trans:
  assumes "shell_step k k1 t sh1" "shell_step k1 k2 u sh2"
  shows "shell_step k k2 (t @ u) sh2"
proof -
  from assms(1) obtain p where 1: "klog_frame (k\<lparr>k_pmm := p, k_shell := sh1\<rparr>) k1" "same_frames (k_pmm k) p"
    "screen k1 = fold ts_putchar t (screen k)" unfolding shell_step_def by blast
  from assms(2) obtain q where 2: "klog_frame (k1\<lparr>k_pmm := q, k_shell := sh2\<rparr>) k2" "same_frames (k_pmm k1) q"
    "screen k2 = fold ts_putchar u (screen k1)" "console_ok k2" unfolding shell_step_def by blast
  have "klog_frame (k\<lparr>k_pmm := q, k_shell := sh2\<rparr>) k2"
    using klog_frame_trans [OF klog_frame_update [OF 1(1)] 2(1)] by simp
  moreover have "same_frames (k_pmm k) q"
    using 1(2) 2(2) frame_kernel(2) [OF 1(1)] by (auto intro: same_frames_trans)
  ultimately show ?thesis unfolding shell_step_def fold_append o_apply using 1(3) 2(3,4) by auto
qed

lemma kernel_ok_step:
  assumes "kernel_ok k" "shell_step k k' t sh" "shell_ok sh"
  shows "kernel_ok k'"
proof -
  have "console_ok k'" using assms(2) by (simp add: shell_step_def)
  then show ?thesis using assms(1,3) shell_step_fields [OF assms(2)]
    by (simp add: kernel_ok_def same_frames_def)
qed

lemma step_shows: "shows_text k r t \<Longrightarrow> \<exists>k'. r = Some k' \<and> shell_step k k' t (k_shell k)"
proof -
  assume "shows_text k r t"
  then obtain k' p where k': "r = Some k'" "console_ok k'" "screen k' = fold ts_putchar t (screen k)"
    "klog_frame (k\<lparr>k_pmm := p\<rparr>) k'" "same_frames (k_pmm k) p" unfolding shows_moving_def by blast
  have "k\<lparr>k_pmm := p, k_shell := k_shell k\<rparr> = k\<lparr>k_pmm := p\<rparr>" by simp
  with k' show ?thesis unfolding shell_step_def by metis
qed

lemma step_prints: "log_prints f t \<Longrightarrow> kernel_ok k \<Longrightarrow> \<exists>k'. f k = Some k' \<and> shell_step k k' t (k_shell k)"
  by (rule step_shows) (rule shows_log)

lemma step_shell:
  assumes "kernel_ok k" "f (k_shell k) = Some sh"
  shows "on_shell f k = Some (k\<lparr>k_shell := sh\<rparr>)" "shell_step k (k\<lparr>k_shell := sh\<rparr>) [] sh"
proof -
  show "on_shell f k = Some (k\<lparr>k_shell := sh\<rparr>)" using assms(2) by (simp add: on_shell_def)
  have "k\<lparr>k_pmm := k_pmm k, k_shell := sh\<rparr> = k\<lparr>k_shell := sh\<rparr>" by simp
  moreover have "same_frames (k_pmm k) (k_pmm k)" using assms(1) by (simp add: same_frames_def same_but_search_def kernel_ok_def)
  ultimately show "shell_step k (k\<lparr>k_shell := sh\<rparr>) [] sh"
    unfolding shell_step_def using assms(1) klog_frame_refl [of "k\<lparr>k_shell := sh\<rparr>"]
    by (intro conjI exI [of _ "k_pmm k"]) (simp_all add: kernel_ok_def)
qed

section \<open>The line\<close>

definition shell_line :: "shell \<Rightarrow> string" where
  "shell_line sh = map (acell (shell_buffer sh)) [0..<unat (shell_buffer_length sh)]"

lemma length_shell_line [simp]: "length (shell_line sh) = unat (shell_buffer_length sh)"
  by (simp add: shell_line_def)

lemma shell_text: "shell_ok sh \<Longrightarrow> c_text (acells (shell_buffer sh)) = c_text (shell_line sh)"
proof -
  assume ok: "shell_ok sh"
  let ?n = "unat (shell_buffer_length sh)"
  have "acells (shell_buffer sh) = shell_line sh @ NUL # replicate (63 - ?n) NUL"
    using ok by (intro nth_equalityI)
      (auto simp: shell_ok_def shell_line_def acells_def nth_append nth_Cons split: nat.split)
  moreover have "c_text (s @ NUL # r) = c_text s" for s r
    by (induction s) (simp_all add: c_text_def)
  ultimately show ?thesis by simp
qed

lemma shell_store_spec:
  assumes "shell_ok sh" "unat i < 64"
  shows "shell_store i c sh = Some (sh\<lparr>shell_buffer := CArray 64 ((acell (shell_buffer sh))(unat i := c))\<rparr>)"
  using assms by (simp add: shell_store_def shell_ok_def)

definition empty_shell :: shell where
  "empty_shell = \<lparr>shell_buffer = CArray 64 (\<lambda>_. NUL), shell_buffer_length = 0\<rparr>"

lemma reset_buffer_spec:
  assumes "alen (shell_buffer sh) = 64"
  shows "\<exists>sh'. shell_reset_buffer sh = Some sh' \<and> shell_ok sh' \<and> shell_line sh' = []"
proof -
  let ?P = "\<lambda>n s. alen (shell_buffer s) = 64 \<and> (\<forall>i < n. acell (shell_buffer s) i = NUL)"
  have "\<exists>s. for_range 0 64 (\<lambda>i sh. do {
       b \<leftarrow> awrite (shell_buffer sh) i NUL;
       Some (sh\<lparr>shell_buffer := b\<rparr>)
     }) sh = Some s \<and> ?P 64 s"
    by (rule for_range_inv [where P = ?P]) (use assms in \<open>auto simp: less_Suc_eq\<close>)
  then show ?thesis
    by (auto simp: shell_reset_buffer_def SHELL_BUFFER_SIZE_def shell_ok_def shell_line_def)
qed

text \<open>Appending and removing the last character.\<close>

lemma append_char:
  fixes c :: char
  assumes ok: "shell_ok sh" and room: "unat (shell_buffer_length sh) < 63"
  defines "b \<equiv> CArray 64 ((acell (shell_buffer sh))(unat (shell_buffer_length sh) := c))"
  shows "shell_ok \<lparr>shell_buffer = b, shell_buffer_length = shell_buffer_length sh + 1\<rparr>"
    "shell_line \<lparr>shell_buffer = b, shell_buffer_length = shell_buffer_length sh + 1\<rparr> = shell_line sh @ [c]"
proof -
  have n: "unat (shell_buffer_length sh + 1) = Suc (unat (shell_buffer_length sh))"
    using room by (subst unat_add_u32) simp_all
  show "shell_ok \<lparr>shell_buffer = b, shell_buffer_length = shell_buffer_length sh + 1\<rparr>"
    using ok room by (simp add: shell_ok_def n b_def)
  show "shell_line \<lparr>shell_buffer = b, shell_buffer_length = shell_buffer_length sh + 1\<rparr> = shell_line sh @ [c]"
    by (auto simp: shell_line_def n b_def)
qed

lemma remove_char:
  assumes ok: "shell_ok sh" and some: "0 < unat (shell_buffer_length sh)"
  defines "b \<equiv> CArray 64 ((acell (shell_buffer sh))(unat (shell_buffer_length sh - 1) := NUL))"
  shows "shell_ok \<lparr>shell_buffer = b, shell_buffer_length = shell_buffer_length sh - 1\<rparr>"
    "shell_line \<lparr>shell_buffer = b, shell_buffer_length = shell_buffer_length sh - 1\<rparr> = butlast (shell_line sh)"
proof -
  have n: "unat (shell_buffer_length sh - 1) = unat (shell_buffer_length sh) - 1"
    using some by (rule unat_pred_pos)
  show "shell_ok \<lparr>shell_buffer = b, shell_buffer_length = shell_buffer_length sh - 1\<rparr>"
    using ok some by (auto simp: shell_ok_def n b_def)
  show "shell_line \<lparr>shell_buffer = b, shell_buffer_length = shell_buffer_length sh - 1\<rparr> = butlast (shell_line sh)"
    using some by (intro nth_equalityI) (simp_all add: shell_line_def n b_def nth_butlast)
qed

section \<open>Every character\<close>

text \<open>The new line, and what is shown.\<close>

definition line_after :: "char \<Rightarrow> string \<Rightarrow> string" where
  "line_after c line =
     (if c = CHR 0x0A then []
      else if c = CHR 0x08 then butlast line
      else if c = CHR 0x09 then line
      else if length line < 63 then line @ [c] else line)"

definition line_echo :: "char \<Rightarrow> string \<Rightarrow> kernel \<Rightarrow> string" where
  "line_echo c line k =
     (if c = CHR 0x0A then [CHR 0x0A] @ command_output (c_text line) k @ SHELL_PROMPT
      else if c = CHR 0x08 then (if line = [] then [] else [CHR 0x08])
      else if c = CHR 0x09 then []
      else if length line < 63 then [c]
      else [CHR 0x0A] @ ''[WARNING] Shell input buffer full.'' @ [CHR 0x0A] @ SHELL_PROMPT)"

lemma command_output_step: "shell_step k k' t sh \<Longrightarrow> k_pmm k' = k_pmm k \<Longrightarrow> command_output l k' = command_output l k"
  unfolding command_output_cases
  by (simp only: shell_step_fields vmm_is_enabled_def i386_paging_is_enabled_def i386_read_cr0_def)

lemma prompt_prints: "log_prints shell_print_prompt SHELL_PROMPT"
  unfolding shell_print_prompt_def by (rule con_prints_puts) (simp add: SHELL_PROMPT_def c_text_no_NUL)

lemma handle_newline:
  assumes k: "kernel_ok k"
  shows "\<exists>k' sh. run_steps [
          con_putc (CHR 0x0A),
          (\<lambda>k. on_shell (shell_store (shell_buffer_length (k_shell k)) NUL) k),
          (\<lambda>k. shell_execute_command (acells (shell_buffer (k_shell k))) k),
          on_shell shell_reset_buffer,
          shell_print_prompt] k = Some k' \<and>
     shell_step k k' ([CHR 0x0A] @ command_output (c_text (shell_line (k_shell k))) k @ SHELL_PROMPT) sh \<and>
     shell_ok sh \<and> shell_line sh = []"
proof -
  let ?sh = "k_shell k"
  have sh: "shell_ok ?sh" using k by (simp add: kernel_ok_def)
  have last: "unat (shell_buffer_length ?sh) < 64" using sh by (simp add: shell_ok_def)
  from step_prints [OF con_prints_putc k] obtain k1 where
    1: "con_putc (CHR 0x0A) k = Some k1" "shell_step k k1 [CHR 0x0A] ?sh" by blast
  have pmm1: "k_pmm k1 = k_pmm k"
    using console.putc [of k "CHR 0x0A"] k 1(1) frame_kernel(2) [OF vga_frame_klog(1)] by (auto simp: kernel_ok_def)
  have k1: "kernel_ok k1" by (rule kernel_ok_step [OF k 1(2) sh])
  have sh1: "k_shell k1 = ?sh" using shell_step_fields [OF 1(2)] by simp
  let ?sh2 = "?sh\<lparr>shell_buffer := CArray 64 ((acell (shell_buffer ?sh))(unat (shell_buffer_length ?sh) := NUL))\<rparr>"
  have "(acell (shell_buffer ?sh))(unat (shell_buffer_length ?sh) := NUL) = acell (shell_buffer ?sh)"
    using sh last by (auto simp: shell_ok_def)
  then have same: "?sh2 = ?sh" using sh by (cases "shell_buffer ?sh") (simp add: shell_ok_def)
  have store: "shell_store (shell_buffer_length ?sh) NUL (k_shell k1) = Some ?sh"
    unfolding sh1 using shell_store_spec [OF sh last, of NUL] same by simp
  note 2 = step_shell [where f = "shell_store (shell_buffer_length ?sh) NUL", OF k1 store]
  have e: "k1\<lparr>k_shell := ?sh\<rparr> = k1" using sh1 by simp
  from step_shows [OF execute_command_text [OF k1, of "acells (shell_buffer ?sh)"]] obtain k3 where
    3: "shell_execute_command (acells (shell_buffer ?sh)) k1 = Some k3"
       "shell_step k1 k3 (command_output (c_text (shell_line ?sh)) k) ?sh"
    unfolding shell_text [OF sh] command_output_step [OF 1(2) pmm1] sh1 by blast
  have k3: "kernel_ok k3" by (rule kernel_ok_step [OF k1 3(2) sh])
  have sh3: "k_shell k3 = ?sh" using shell_step_fields [OF 3(2)] by simp
  from reset_buffer_spec [of ?sh] sh obtain sh4 where
    4: "shell_reset_buffer ?sh = Some sh4" "shell_ok sh4" "shell_line sh4 = []" by (auto simp: shell_ok_def)
  note 5 = step_shell [where f = shell_reset_buffer, OF k3 4(1) [folded sh3]]
  have k5: "kernel_ok (k3\<lparr>k_shell := sh4\<rparr>)" by (rule kernel_ok_step [OF k3 5(2) 4(2)])
  from step_prints [OF prompt_prints k5] obtain k6 where
    6: "shell_print_prompt (k3\<lparr>k_shell := sh4\<rparr>) = Some k6" "shell_step (k3\<lparr>k_shell := sh4\<rparr>) k6 SHELL_PROMPT sh4" by auto
  have "shell_step k k6 (([CHR 0x0A] @ command_output (c_text (shell_line ?sh)) k) @ [] @ SHELL_PROMPT) sh4"
    by (rule shell_step_trans [OF shell_step_trans [OF 1(2) 3(2)] shell_step_trans [OF 5(2) 6(2)]])
  moreover have "run_steps [
          con_putc (CHR 0x0A),
          (\<lambda>k. on_shell (shell_store (shell_buffer_length (k_shell k)) NUL) k),
          (\<lambda>k. shell_execute_command (acells (shell_buffer (k_shell k))) k),
          on_shell shell_reset_buffer,
          shell_print_prompt] k = Some k6"
    using 1(1) 2(1) 3(1) 5(1) 6(1) by (simp add: sh1 e)
  ultimately show ?thesis using 4(2,3) by auto
qed

text \<open>A change of the shell's variables followed by output.\<close>

lemma step_edit:
  assumes k: "kernel_ok k" and e: "f (k_shell k) = Some sh1" "g sh1 = Some sh2" and ok: "shell_ok sh2"
    and p: "log_prints h t"
  shows "\<exists>k'. run_steps [on_shell f, on_shell g, h] k = Some k' \<and> shell_step k k' t sh2"
proof -
  have fg: "(\<lambda>sh. Option.bind (f sh) g) (k_shell k) = Some sh2" using e by simp
  note st = step_shell [where f = "\<lambda>sh. Option.bind (f sh) g", OF k fg]
  have k2: "kernel_ok (k\<lparr>k_shell := sh2\<rparr>)" by (rule kernel_ok_step [OF k st(2) ok])
  from step_prints [OF p k2] obtain k' where
    k': "h (k\<lparr>k_shell := sh2\<rparr>) = Some k'" "shell_step (k\<lparr>k_shell := sh2\<rparr>) k' t sh2" by auto
  have "run_steps [on_shell f, on_shell g, h] k = Some k'" using e k'(1) by (simp add: on_shell_def)
  then show ?thesis using shell_step_trans [OF st(2) k'(2)] by auto
qed

lemma warning_prints:
  "log_prints (run_steps [log_puts ([CHR 0x0A] @ ''[WARNING] Shell input buffer full.'' @ [CHR 0x0A]), shell_print_prompt])
     ([CHR 0x0A] @ ''[WARNING] Shell input buffer full.'' @ [CHR 0x0A] @ SHELL_PROMPT)"
proof -
  have "log_prints (run_steps [log_puts ([CHR 0x0A] @ ''[WARNING] Shell input buffer full.'' @ [CHR 0x0A]), shell_print_prompt])
     (concat [[CHR 0x0A] @ ''[WARNING] Shell input buffer full.'' @ [CHR 0x0A], SHELL_PROMPT])"
    by (intro klog.prints_steps list.rel_intros prompt_prints log_prints_puts) (simp add: c_text_no_NUL)
  then show ?thesis by (rule log_prints_eq) simp
qed

lemma step_none: "kernel_ok k \<Longrightarrow> shell_step k k [] (k_shell k)"
  using step_shell(2) [of k Some "k_shell k"] by simp

lemma character_returns:
  assumes "r = Some k'" "shell_step k k' t sh" "shell_ok sh" "shell_line sh = l"
    and "h = map_option Returned r" "t = t'" "l = l'"
  shows "\<exists>k' sh. h = Some (Returned k') \<and> shell_step k k' t' sh \<and> shell_ok sh \<and> shell_line sh = l'"
  using assms by auto

lemma character_ignored:
  assumes "kernel_ok k" "h = Some (Returned k)" "t = []" "l = shell_line (k_shell k)"
  shows "\<exists>k' sh. h = Some (Returned k') \<and> shell_step k k' t sh \<and> shell_ok sh \<and> shell_line sh = l"
  using assms step_none [OF assms(1)] by (auto simp: kernel_ok_def)

lemma handle_character_spec:
  assumes k: "kernel_ok k" and ctx: "interrupt_context_depth (k_interrupts k) = 0"
  shows "\<exists>k' sh. shell_handle_character c k = Some (Returned k') \<and>
     shell_step k k' (line_echo c (shell_line (k_shell k)) k) sh \<and> shell_ok sh \<and>
     shell_line sh = line_after c (shell_line (k_shell k))"
proof -
  let ?sh = "k_shell k" and ?n = "shell_buffer_length (k_shell k)"
  have sh: "shell_ok ?sh" using k by (simp add: kernel_ok_def)
  have n: "unat ?n \<le> 63" and len: "alen (shell_buffer ?sh) = 64" using sh by (simp_all add: shell_ok_def)
  have not_in: "interrupts_is_in_context (k_interrupts k) = False" using ctx by (simp add: interrupts_is_in_context_def)
  have full: "?n \<ge> SHELL_BUFFER_SIZE - 1 \<longleftrightarrow> \<not> unat ?n < 63"
    by (simp add: SHELL_BUFFER_SIZE_def word_le_nat_alt not_less)
  have some: "?n > 0 \<longleftrightarrow> 0 < unat ?n" by (simp add: word_less_nat_alt)
  have empty: "shell_line ?sh = [] \<longleftrightarrow> \<not> 0 < unat ?n" by (simp add: shell_line_def)
  have char_eqs: "CHR 0x08 = CHR 0x0A \<longleftrightarrow> False" "CHR 0x09 = CHR 0x0A \<longleftrightarrow> False" "CHR 0x09 = CHR 0x08 \<longleftrightarrow> False"
    by simp_all
  note code = shell_handle_character_def returning_def not_in full some if_False
  note spec = line_echo_def line_after_def length_shell_line empty
  consider (newline) "c = CHR 0x0A" | (erase) "c = CHR 0x08" "0 < unat ?n"
    | (erase_nothing) "c = CHR 0x08" "\<not> 0 < unat ?n" | (tab) "c = CHR 0x09"
    | (too_long) "c \<noteq> CHR 0x0A" "c \<noteq> CHR 0x08" "c \<noteq> CHR 0x09" "\<not> unat ?n < 63"
    | (room) "c \<noteq> CHR 0x0A" "c \<noteq> CHR 0x08" "c \<noteq> CHR 0x09" "unat ?n < 63"
    by blast
  then show ?thesis
  proof cases
    case newline
    from handle_newline [OF k] show ?thesis
      by - (elim exE conjE, rule character_returns, assumption, assumption, assumption, assumption,
         simp_all only: code spec newline if_True refl simp_thms)
  next
    case erase
    let ?sh2 = "\<lparr>shell_buffer = CArray 64 ((acell (shell_buffer ?sh))(unat (?n - 1) := NUL)), shell_buffer_length = ?n - 1\<rparr>"
    have "unat (?n - 1) < 64" using erase(2) n by (simp add: unat_pred_pos)
    then have e: "shell_store (shell_buffer_length (?sh\<lparr>shell_buffer_length := ?n - 1\<rparr>)) NUL
        (?sh\<lparr>shell_buffer_length := ?n - 1\<rparr>) = Some ?sh2"
      using len by (simp add: shell_store_def)
    from step_edit [where f = "\<lambda>sh. Some (sh\<lparr>shell_buffer_length := shell_buffer_length sh - 1\<rparr>)"
        and g = "\<lambda>sh. shell_store (shell_buffer_length sh) NUL sh",
        OF k refl e remove_char(1) [OF sh erase(2)] con_prints_putc [of "CHR 0x08"]]
    show ?thesis
      by - (elim exE conjE, rule character_returns [OF _ _ remove_char [OF sh erase(2)]], assumption, assumption,
         simp_all only: code spec erase if_True if_False simp_thms char_eqs)
  next
    case erase_nothing
    show ?thesis
      by (rule character_ignored [OF k], simp_all only: code spec erase_nothing if_True if_False simp_thms char_eqs)
         (use erase_nothing(2) in \<open>simp add: shell_line_def\<close>)
  next
    case tab
    show ?thesis
      by (rule character_ignored [OF k], simp_all only: code spec tab if_True if_False simp_thms char_eqs)
  next
    case too_long
    from step_prints [OF warning_prints k] show ?thesis
      by - (elim exE conjE, rule character_returns [OF _ _ sh refl], assumption, assumption,
         simp_all only: code spec too_long if_True if_False simp_thms)
  next
    case room
    let ?sh2 = "\<lparr>shell_buffer = CArray 64 ((acell (shell_buffer ?sh))(unat ?n := c)), shell_buffer_length = ?n + 1\<rparr>"
    have e: "shell_store ?n c ?sh = Some (?sh\<lparr>shell_buffer := CArray 64 ((acell (shell_buffer ?sh))(unat ?n := c))\<rparr>)"
      using shell_store_spec [OF sh, of ?n c] room(4) by simp
    have e2: "Some ((?sh\<lparr>shell_buffer := CArray 64 ((acell (shell_buffer ?sh))(unat ?n := c))\<rparr>)
        \<lparr>shell_buffer_length := shell_buffer_length
          (?sh\<lparr>shell_buffer := CArray 64 ((acell (shell_buffer ?sh))(unat ?n := c))\<rparr>) + 1\<rparr>) = Some ?sh2"
      by simp
    from step_edit [where f = "\<lambda>sh. shell_store (shell_buffer_length sh) c sh"
        and g = "\<lambda>sh. Some (sh\<lparr>shell_buffer_length := shell_buffer_length sh + 1\<rparr>)",
        OF k e e2 append_char(1) [OF sh room(4)] con_prints_putc [of c]]
    show ?thesis
      by - (elim exE conjE, rule character_returns [OF _ _ append_char [OF sh room(4)]], assumption, assumption,
         simp_all only: code spec room if_False if_True simp_thms)
  qed
qed

section \<open>Initialization\<close>

definition shell_banner :: string where
  "shell_banner = WIGOSX_STAGE_LABEL @ '' shell ready.'' @ [CHR 0x0A] @ ''Type 'help' for commands.'' @ [CHR 0x0A] @
     SHELL_PROMPT"

lemma banner_prints:
  "log_prints (run_steps [con_puts WIGOSX_STAGE_LABEL, con_line '' shell ready.'', con_line ''Type 'help' for commands.'',
     shell_print_prompt]) shell_banner"
proof -
  have shown: "log_prints (run_steps [con_puts WIGOSX_STAGE_LABEL, con_line '' shell ready.'', con_line ''Type 'help' for commands.'',
     shell_print_prompt]) (concat [WIGOSX_STAGE_LABEL, '' shell ready.'' @ [CHR 0x0A],
       ''Type 'help' for commands.'' @ [CHR 0x0A], SHELL_PROMPT])"
    by (intro klog.prints_steps list.rel_intros prompt_prints con_prints_line con_prints_puts)
       (simp_all add: c_text_no_NUL stage_label_no_NUL)
  show ?thesis by (rule log_prints_eq [OF shown]) (simp add: shell_banner_def)
qed

lemma shell_initialize_spec:
  assumes k: "kernel_ok k"
  shows "\<exists>k' sh. shell_initialize k = Some k' \<and> shell_step k k' shell_banner sh \<and> shell_ok sh \<and> shell_line sh = []"
proof -
  from reset_buffer_spec [of "k_shell k"] k obtain sh where
    1: "shell_reset_buffer (k_shell k) = Some sh" "shell_ok sh" "shell_line sh = []"
    by (auto simp: kernel_ok_def shell_ok_def)
  note st = step_shell [where f = shell_reset_buffer, OF k 1(1)]
  have k2: "kernel_ok (k\<lparr>k_shell := sh\<rparr>)" by (rule kernel_ok_step [OF k st(2) 1(2)])
  from step_prints [OF banner_prints k2] obtain k' where
    2: "run_steps [con_puts WIGOSX_STAGE_LABEL, con_line '' shell ready.'', con_line ''Type 'help' for commands.'',
      shell_print_prompt] (k\<lparr>k_shell := sh\<rparr>) = Some k'" "shell_step (k\<lparr>k_shell := sh\<rparr>) k' shell_banner sh" by auto
  have "shell_initialize k = Some k'"
    unfolding shell_initialize_def run_steps.simps(2) [of "on_shell shell_reset_buffer"] st(1) using 2(1) by simp
  then show ?thesis using shell_step_trans [OF st(2) 2(2)] 1(2,3) by auto
qed

section \<open>Properties\<close>

text \<open>A kernel as it is after initialization: an empty line, the frames 1 and 2 free.\<close>

definition ready_kernel :: kernel where
  "ready_kernel = (kernel_static (\<lambda>_ _. 0x20))\<lparr>console_initialized := True, k_pmm := sample_pmm\<rparr>"

lemma ready_kernel_ok: "kernel_ok ready_kernel"
proof -
  have "console_ok ready_kernel"
    using kernel_static_console [of "\<lambda>_ _. 0x20"] by (simp add: ready_kernel_def)
  moreover have "memory_inv memory_static"
    by (simp add: memory_inv_def stored_regions_def) (simp add: memory_static_def)
  moreover have "input_ok input_static" using static_alen by (simp add: input_ok_def queue_length_def) (simp add: input_static_def)
  moreover have "shell_ok (k_shell ready_kernel)" by (simp add: shell_ok_def ready_kernel_def kernel_static_def)
  ultimately show ?thesis
    unfolding kernel_ok_def using sample_running interrupts_static_wf [where 'a = irq_handler]
    by (simp add: ready_kernel_def kernel_static_def)
qed

text \<open>C36. The shell compares words exactly: its character loop ends and answers yes if and only if the two C
  strings are equal up to their terminators, whatever bytes lie behind them.\<close>

theorem shell_strings_equal_exact: "shell_strings_equal l r \<longleftrightarrow> c_text l = c_text r"
  by (rule shell_strings_equal_iff)

text \<open>What is left of the kernel by a frame of the log and a frame of the allocator.\<close>

lemma klog_frame_kernel:
  fixes k k' :: kernel
  assumes "klog_frame (k\<lparr>k_pmm := p\<rparr>) k'" "same_but_search (k_pmm k) p"
  shows "k' = k\<lparr>io_log := io_log k', terminal_row := terminal_row k', terminal_column := terminal_column k',
       terminal_view_start := terminal_view_start k', terminal_color := terminal_color k',
       terminal_buffer := terminal_buffer k', serial_initialized := serial_initialized k',
       k_pmm := (k_pmm k)\<lparr>pmm_next_search_frame := pmm_next_search_frame (k_pmm k')\<rparr>\<rparr>"
proof -
  have "p = (k_pmm k)\<lparr>pmm_next_search_frame := pmm_next_search_frame p\<rparr>" by (rule same_but_search_eq [OF assms(2)])
  moreover have "k_pmm k' = p" using frame_kernel(2) [OF assms(1)] by simp
  ultimately have "k_pmm k' = (k_pmm k)\<lparr>pmm_next_search_frame := pmm_next_search_frame (k_pmm k')\<rparr>" by simp
  then show ?thesis using assms(1) by (cases k; cases k') (simp add: klog_frame_def)
qed

text \<open>C22. In a sound kernel every command line, known, unknown or empty, executes without a fault,
  leaves a sound kernel and shows exactly the text the command table gives for it (for \<open>version\<close>
  and \<open>about\<close> the strings of \<open>version.h\<close>, \<open>0.016.1\<close> and \<open>Stage 16.1\<close>; the README shows those of
  an earlier stage).  What a command may change is listed in full: the terminal (text memory, cursor,
  viewport and color), the log of port accesses, there only those to the ports of the display
  controller and of the serial line, the flag that the serial line works (a time-out clears it), and,
  for the self-test \<open>pmm_test\<close> alone, the search position of the frame allocator, which allocates
  and frees a frame: bitmaps and counters are as before.  Every other variable of the kernel,
  every register of the processor and every cell outside the text memory is unchanged.\<close>

theorem shell_command_shows_output:
  assumes "kernel_ok k"
  shows "\<exists>k'. shell_execute_command line k = Some k' \<and> kernel_ok k' \<and>
     screen k' = fold ts_putchar (command_output (c_text line) k) (screen k) \<and>
     k' = k\<lparr>io_log := io_log k', terminal_row := terminal_row k', terminal_column := terminal_column k',
       terminal_view_start := terminal_view_start k', terminal_color := terminal_color k',
       terminal_buffer := terminal_buffer k', serial_initialized := serial_initialized k',
       k_pmm := (k_pmm k)\<lparr>pmm_next_search_frame := pmm_next_search_frame (k_pmm k')\<rparr>\<rparr> \<and>
     (\<forall>i\<ge>16384. terminal_buffer k' i = terminal_buffer k i) \<and>
     other_events log_ports (io_log k') = other_events log_ports (io_log k) \<and>
     (c_text line \<noteq> ''pmm_test'' \<longrightarrow> k_pmm k' = k_pmm k) \<and> same_frames (k_pmm k) (k_pmm k')"
proof -
  from execute_command_shows [OF assms, of line] obtain k' p where
    k': "shell_execute_command line k = Some k'" "screen k' = fold ts_putchar (command_output (c_text line) k) (screen k)"
      "klog_frame (k\<lparr>k_pmm := p\<rparr>) k'" "same_frames (k_pmm k) p" "c_text line \<noteq> ''pmm_test'' \<longrightarrow> p = k_pmm k"
    unfolding shows_moving_def by blast
  from step_shows [OF execute_command_text [OF assms], of line] k'(1)
  have step: "shell_step k k' (command_output (c_text line) k) (k_shell k)" by simp
  have sh: "shell_ok (k_shell k)" using assms by (simp add: kernel_ok_def)
  have pmm: "k_pmm k' = p" using frame_kernel(2) [OF k'(3)] by simp
  have "same_but_search (k_pmm k) p" using k'(4) by (simp add: same_frames_def)
  note frame = klog_frame_kernel [OF k'(3) this]
  have rest: "(\<forall>i\<ge>16384. terminal_buffer k' i = terminal_buffer k i) \<and>
      other_events log_ports (io_log k') = other_events log_ports (io_log k)"
    using k'(3) by (simp add: klog_frame_def)
  show ?thesis
    by (intro exI [of _ k'] conjI k'(1,2) frame rest [THEN conjunct1] rest [THEN conjunct2] kernel_ok_step [OF assms step sh])
       (use pmm k'(4,5) in simp_all)
qed

lemma shell_command_shows_output_witness:
  "\<exists>k'. shell_execute_command ''ticks'' ready_kernel = Some k' \<and> k_pmm k' = k_pmm ready_kernel \<and>
     screen k' = fold ts_putchar (command_output (c_text ''ticks'') ready_kernel) (screen ready_kernel)"
proof -
  have "c_text ''ticks'' \<noteq> ''pmm_test''" by (simp add: c_text_no_NUL)
  then show ?thesis using shell_command_shows_output [OF ready_kernel_ok, of "''ticks''"] by blast
qed

text \<open>C13. The line editor implements its abstract line for every character: newline runs the line as a
  command and empties it, backspace removes the last character if there is one, tab is ignored,
  any other character is appended while fewer than 63 are held and refused with a warning when
  not.  Exactly the stated echo appears on the screen, the terminating NUL stays inside the
  64-byte buffer, the kernel stays sound, and the call returns.\<close>

theorem shell_line_editing:
  assumes "kernel_ok k" "interrupt_context_depth (k_interrupts k) = 0"
  shows "\<exists>k'. shell_handle_character c k = Some (Returned k') \<and> kernel_ok k' \<and>
     shell_line (k_shell k') = line_after c (shell_line (k_shell k)) \<and>
     screen k' = fold ts_putchar (line_echo c (shell_line (k_shell k)) k) (screen k)"
proof -
  from handle_character_spec [OF assms, of c] obtain k' sh where
    k': "shell_handle_character c k = Some (Returned k')"
      "shell_step k k' (line_echo c (shell_line (k_shell k)) k) sh" "shell_ok sh"
      "shell_line sh = line_after c (shell_line (k_shell k))" by blast
  show ?thesis
    using k' shell_step_fields(1) [OF k'(2)] kernel_ok_step [OF assms(1) k'(2,3)] by (simp add: shell_step_def)
qed

lemma ready_kernel_depth: "interrupt_context_depth (k_interrupts ready_kernel) = 0"
  by (simp add: ready_kernel_def kernel_static_def interrupts_static_def)

lemma shell_line_editing_witness:
  "\<exists>k'. shell_handle_character CHR ''h'' ready_kernel = Some (Returned k') \<and> shell_line (k_shell k') = ''h''"
proof -
  have "shell_line (k_shell ready_kernel) = []"
    by (simp add: shell_line_def ready_kernel_def kernel_static_def)
  then show ?thesis using shell_line_editing [OF ready_kernel_ok ready_kernel_depth, of "CHR ''h''"]
    by (auto simp: line_after_def)
qed

end
