(* ===== verification/Kernel.thy ===== *)
theory Kernel
  imports Shell_Line
begin

text \<open>
  The C handlers at the end of \<^verbatim>\<open>arch/i386/interrupts/idt.c\<close> and the foreground step of
  \<^verbatim>\<open>src/kernel/work.c\<close>, which join the interrupt services, the input queue, the timer, the
  interrupt controllers and the shell.
\<close>

section \<open>Operations\<close>

record interrupt_frame =
  frame_ds :: u32
  frame_edi :: u32
  frame_esi :: u32
  frame_ebp :: u32
  frame_esp :: u32
  frame_ebx :: u32
  frame_edx :: u32
  frame_ecx :: u32
  frame_eax :: u32
  frame_interrupt_number :: u32
  frame_error_code :: u32
  frame_eip :: u32
  frame_cs :: u32
  frame_eflags :: u32

text \<open>The call through a registered function pointer.\<close>

definition call_irq_handler :: "irq_handler \<Rightarrow> kernel \<Rightarrow> kernel option" where
  "call_irq_handler h k =
     (case h of
        Pit_handle_interrupt \<Rightarrow>
          let (t, k1) = pit_handle_interrupt (k_pit k) k in Some (k1\<lparr>k_pit := t\<rparr>)
      | Input_handle_keyboard_interrupt \<Rightarrow> do {
          (q, kb, k1) \<leftarrow> input_handle_keyboard_interrupt (k_input k) (k_keyboard k) k;
          Some (k1\<lparr>k_input := q, k_keyboard := kb\<rparr>)
        })"

definition kernel_dispatch_irq :: "u8 \<Rightarrow> kernel \<Rightarrow> kernel option" where
  "kernel_dispatch_irq irq k = do {
     (handler, st) \<leftarrow> interrupts_dispatch_irq irq (k_interrupts k);
     let k1 = k\<lparr>k_interrupts := st\<rparr>;
     case handler of None \<Rightarrow> Some k1 | Some h \<Rightarrow> call_irq_handler h k1
   }"

text \<open>The frame pointer is \<open>None\<close> for NULL.\<close>

definition isr_handler :: "interrupt_frame option \<Rightarrow> kernel \<Rightarrow> outcome option" where
  "isr_handler frame k =
     (case frame of
        None \<Rightarrow> panics ''CPU exception arrived without an interrupt frame'' k
      | Some f \<Rightarrow> run_all [
          returning (log_puts ''Exception vector: ''),
          returning (klog_write_uint32 (frame_interrupt_number f)),
          returning (log_putc (CHR 0x0A)),
          returning (log_puts ''Exception error code: ''),
          returning (klog_write_hex32 (frame_error_code f)),
          returning (log_putc (CHR 0x0A)),
          panics ''Unhandled CPU exception''] k)"

definition irq_handler :: "interrupt_frame option \<Rightarrow> kernel \<Rightarrow> outcome option" where
  "irq_handler frame k =
     (case frame of
        None \<Rightarrow> panics ''Hardware interrupt arrived without an interrupt frame'' k
      | Some f \<Rightarrow>
          if frame_interrupt_number f < 32 \<or> frame_interrupt_number f > 47
          then panics ''Invalid hardware interrupt vector'' k
          else
            let irq = ucast (frame_interrupt_number f - 32) :: u8;
                (entered, st) = interrupts_context_enter (k_interrupts k);
                k1 = k\<lparr>k_interrupts := st\<rparr>
            in
            if \<not> entered then panics ''Hardware interrupt-context depth overflow'' k1
            else do {
              k2 \<leftarrow> kernel_dispatch_irq irq k1;
              let k3 = pic_send_eoi irq k2;
              let (left, st') = interrupts_context_exit (k_interrupts k3);
              let k4 = k3\<lparr>k_interrupts := st'\<rparr>;
              if \<not> left then panics ''Hardware interrupt-context depth underflow'' k4
              else Some (Returned k4)
            })"

text \<open>
  The part of \<open>kernel_work_run_once\<close> between its check of the context and its call of the shell:
  with interrupts off it takes a character or finds none; either way it ends with interrupts on,
  in the second case halted.
\<close>

definition kernel_work_poll :: "kernel \<Rightarrow> (char option \<times> kernel) option" where
  "kernel_work_poll k =
     (let k1 = cpu_disable_interrupts k in do {
        (got, ascii, q) \<leftarrow> input_try_read_character (Some NUL) (k_input k1);
        let k2 = k1\<lparr>k_input := q\<rparr>;
        if got then Some (ascii, cpu_enable_interrupts k2)
        else Some (None, cpu_enable_interrupts_and_halt k2)
      })"

definition kernel_work_run_once :: "kernel \<Rightarrow> outcome option" where
  "kernel_work_run_once k =
     (if interrupts_is_in_context (k_interrupts k)
      then panics ''Foreground work invoked from interrupt context'' k
      else do {
        (taken, k1) \<leftarrow> kernel_work_poll k;
        case taken of Some ascii \<Rightarrow> shell_handle_character ascii k1 | None \<Rightarrow> Some (Returned k1)
      })"

section \<open>One hardware interrupt\<close>

text \<open>What the handler of a line does to the timer, the keyboard and the queue.\<close>

definition pit_after :: "irq_handler option \<Rightarrow> kernel \<Rightarrow> pit" where
  "pit_after h k =
     (if h = Some Pit_handle_interrupt then (k_pit k)\<lparr>pit_ticks := pit_ticks (k_pit k) + 1\<rparr> else k_pit k)"

definition keyboard_after :: "irq_handler option \<Rightarrow> kernel \<Rightarrow> keyboard" where
  "keyboard_after h k =
     (if h = Some Input_handle_keyboard_interrupt
      then snd (snd (keyboard_process_scancode (next_scancode k) (k_keyboard k))) else k_keyboard k)"

definition typed_char :: "irq_handler option \<Rightarrow> kernel \<Rightarrow> string" where
  "typed_char h k =
     (if h = Some Input_handle_keyboard_interrupt then
        (case keyboard_process_scancode (next_scancode k) (k_keyboard k) of (produced, c, _) \<Rightarrow>
           if produced \<and> length (queue_contents (k_input k)) < 64 then [c] else [])
      else [])"

text \<open>The port accesses other than output, newest first.\<close>

definition scancode_read :: "irq_handler option \<Rightarrow> kernel \<Rightarrow> io_event list" where
  "scancode_read h k =
     (if h = Some Input_handle_keyboard_interrupt then [In KEYBOARD_DATA_PORT (next_scancode k)] else [])"

definition eoi_events :: "nat \<Rightarrow> io_event list" where
  "eoi_events irq = Out 0x20 0x20 # (if irq < 8 then [] else [Out 0xA0 0x20])"

text \<open>Accesses to ports other than the screen's and the log's do not show.\<close>

lemma crtc_other:
  "\<forall>e \<in> set l. event_port e \<notin> log_ports \<Longrightarrow> crtc_registers (l @ l') = crtc_registers l'"
proof (induction l)
  case (Cons e l)
  then show ?case by (cases e) (auto simp: log_ports_def Let_def case_prod_beta)
qed simp

lemma ports_quiet:
  fixes k :: kernel
  assumes "\<forall>e \<in> set l. event_port e \<notin> log_ports"
  shows "console_ok (k\<lparr>io_log := l @ io_log k\<rparr>) = console_ok k"
    and "screen (k\<lparr>io_log := l @ io_log k\<rparr>) = screen k"
  using crtc_other [OF assms, of "io_log k"]
  by (simp_all add: console_ok_def vga_ok_def crtc_start_def screen_def cong: if_cong)

lemma frame_ports:
  fixes a b :: kernel
  assumes "klog_frame a b"
  shows "klog_frame (a\<lparr>io_log := l @ io_log a\<rparr>) (b\<lparr>io_log := l @ io_log b\<rparr>)"
  using assms by (cases a; cases b) (simp add: klog_frame_def)

lemma frame_devices:
  fixes a b :: kernel
  assumes "klog_frame a b"
  shows "klog_frame (a\<lparr>k_interrupts := st, k_input := q, k_keyboard := kb, k_pit := t\<rparr>)
     (b\<lparr>k_interrupts := st, k_input := q, k_keyboard := kb, k_pit := t\<rparr>)"
  using assms by (cases a; cases b) (simp add: klog_frame_def)

text \<open>The handlers themselves.\<close>

lemma call_pit_spec:
  assumes "console_ok k"
  shows "\<exists>k1. call_irq_handler Pit_handle_interrupt k = Some (k1\<lparr>k_pit := pit_after (Some Pit_handle_interrupt) k\<rparr>) \<and>
     console_ok k1 \<and> screen k1 = screen k \<and> klog_frame k k1"
proof -
  from handle_interrupt_eq(1) [of "k_pit k" k] obtain ts where
    ts: "snd (pit_handle_interrupt (k_pit k) k) = fold serial_writestring ts k" by blast
  have "serial_frame k (fold serial_writestring ts k)" using uart.puts_all [OF TrueI] by simp
  from serial_frame_klog [OF this] assms show ?thesis
    by (intro exI [of _ "fold serial_writestring ts k"])
       (simp add: call_irq_handler_def case_prod_beta Let_def handle_interrupt_eq(2) ts pit_after_def)
qed

lemma call_keyboard_spec:
  assumes "input_ok (k_input k)"
  shows "\<exists>q. call_irq_handler Input_handle_keyboard_interrupt k =
       Some (k\<lparr>io_log := scancode_read (Some Input_handle_keyboard_interrupt) k @ io_log k, k_input := q,
          k_keyboard := keyboard_after (Some Input_handle_keyboard_interrupt) k\<rparr>) \<and>
     input_ok q \<and> queue_contents q = queue_contents (k_input k) @ typed_char (Some Input_handle_keyboard_interrupt) k"
  using input_irq_spec [OF assms, of "k_keyboard k" k]
  by (auto simp: call_irq_handler_def scancode_read_def keyboard_after_def typed_char_def)

text \<open>The state after a dispatch: that before it, except for the interrupt's own effect.\<close>

definition irq_effect :: "irq_handler option \<Rightarrow> io_event list \<Rightarrow> irq_handler interrupts \<Rightarrow> kernel \<Rightarrow> kernel \<Rightarrow> bool" where
  "irq_effect h l st k k' \<longleftrightarrow> (\<exists>q. console_ok k' \<and> screen k' = screen k \<and>
     klog_frame (k\<lparr>k_interrupts := st, k_input := q, k_keyboard := keyboard_after h k, k_pit := pit_after h k,
        io_log := l @ scancode_read h k @ io_log k\<rparr>) k' \<and>
     input_ok q \<and> queue_contents q = queue_contents (k_input k) @ typed_char h k)"

lemma call_handler_effect:
  assumes "console_ok k" "input_ok (k_input k)"
  shows "\<exists>k'. call_irq_handler h k = Some k' \<and> irq_effect (Some h) [] (k_interrupts k) k k'"
proof (cases h)
  case Pit_handle_interrupt
  from call_pit_spec [OF assms(1)] obtain k1 where
    k1: "call_irq_handler Pit_handle_interrupt k = Some (k1\<lparr>k_pit := pit_after (Some Pit_handle_interrupt) k\<rparr>)"
      "console_ok k1" "screen k1 = screen k" "klog_frame k k1" by blast
  let ?t = "pit_after (Some Pit_handle_interrupt) k"
  have "klog_frame (k\<lparr>k_interrupts := k_interrupts k, k_input := k_input k, k_keyboard := k_keyboard k, k_pit := ?t\<rparr>)
      (k1\<lparr>k_interrupts := k_interrupts k, k_input := k_input k, k_keyboard := k_keyboard k, k_pit := ?t\<rparr>)"
    by (rule frame_devices [OF k1(4)])
  moreover have "k1\<lparr>k_interrupts := k_interrupts k, k_input := k_input k, k_keyboard := k_keyboard k, k_pit := ?t\<rparr> =
      k1\<lparr>k_pit := ?t\<rparr>" using frame_kernel [OF k1(4)] by simp
  moreover have "keyboard_after (Some Pit_handle_interrupt) k = k_keyboard k"
    "scancode_read (Some Pit_handle_interrupt) k = []" "typed_char (Some Pit_handle_interrupt) k = []"
    by (simp_all add: keyboard_after_def scancode_read_def typed_char_def)
  ultimately show ?thesis using k1(1-3) assms(2) Pit_handle_interrupt
    by (auto simp: irq_effect_def intro!: exI [of _ "k_input k"])
next
  case Input_handle_keyboard_interrupt
  let ?h = "Some Input_handle_keyboard_interrupt"
  from call_keyboard_spec [OF assms(2)] obtain q where
    q: "call_irq_handler Input_handle_keyboard_interrupt k =
       Some (k\<lparr>io_log := scancode_read ?h k @ io_log k, k_input := q, k_keyboard := keyboard_after ?h k\<rparr>)"
      "input_ok q" "queue_contents q = queue_contents (k_input k) @ typed_char ?h k" by blast
  have quiet: "\<forall>e \<in> set (scancode_read ?h k). event_port e \<notin> log_ports"
    by (simp add: scancode_read_def KEYBOARD_DATA_PORT_def log_ports_def)
  let ?k = "k\<lparr>io_log := scancode_read ?h k @ io_log k, k_input := q, k_keyboard := keyboard_after ?h k\<rparr>"
  have "k\<lparr>k_interrupts := k_interrupts k, k_input := q, k_keyboard := keyboard_after ?h k, k_pit := pit_after ?h k,
      io_log := [] @ scancode_read ?h k @ io_log k\<rparr> = ?k" by (simp add: pit_after_def)
  moreover have "console_ok ?k" "screen ?k = screen k" using assms(1) ports_quiet [OF quiet, of k] by simp_all
  ultimately have "irq_effect ?h [] (k_interrupts k) k ?k"
    unfolding irq_effect_def using q(2,3) klog_frame_refl [of ?k] by (intro exI [of _ q]) simp
  then show ?thesis using q(1) Input_handle_keyboard_interrupt by blast
qed

lemma after_interrupts [simp]:
  "pit_after h (k\<lparr>k_interrupts := st\<rparr>) = pit_after h k"
  "keyboard_after h (k\<lparr>k_interrupts := st\<rparr>) = keyboard_after h k"
  "typed_char h (k\<lparr>k_interrupts := st\<rparr>) = typed_char h k"
  "scancode_read h (k\<lparr>k_interrupts := st\<rparr>) = scancode_read h k"
  by (simp_all add: pit_after_def keyboard_after_def typed_char_def scancode_read_def next_scancode_def)

lemma after_nothing [simp]:
  "pit_after None k = k_pit k" "keyboard_after None k = k_keyboard k" "typed_char None k = []" "scancode_read None k = []"
  by (simp_all add: pit_after_def keyboard_after_def typed_char_def scancode_read_def)

lemma irq_effect_start: "irq_effect h l st (k\<lparr>k_interrupts := st0\<rparr>) k' = irq_effect h l st k k'"
  by (simp add: irq_effect_def)

lemma irq_effect_none: "console_ok k \<Longrightarrow> input_ok (k_input k) \<Longrightarrow> irq_effect None [] st k (k\<lparr>k_interrupts := st\<rparr>)"
  using klog_frame_refl [of "k\<lparr>k_interrupts := st\<rparr>"]
  by (auto simp: irq_effect_def intro!: exI [of _ "k_input k"])

lemma irq_effect_ports:
  assumes "irq_effect h [] st k k'" "\<forall>e \<in> set l. event_port e \<notin> log_ports"
  shows "irq_effect h l st k (k'\<lparr>io_log := l @ io_log k'\<rparr>)"
  using assms(1) ports_quiet [OF assms(2), of k'] frame_ports [of _ k' l] unfolding irq_effect_def
  by (elim exE) (rule_tac x = q in exI, force)

lemma irq_effect_interrupts:
  assumes "irq_effect h l st k k'"
  shows "irq_effect h l st' k (k'\<lparr>k_interrupts := st'\<rparr>)" and "k_interrupts k' = st"
proof -
  from assms obtain q where q: "console_ok k'" "screen k' = screen k" "input_ok q"
    "queue_contents q = queue_contents (k_input k) @ typed_char h k"
    "klog_frame (k\<lparr>k_interrupts := st, k_input := q, k_keyboard := keyboard_after h k, k_pit := pit_after h k,
        io_log := l @ scancode_read h k @ io_log k\<rparr>) k'" unfolding irq_effect_def by blast
  note fr = frame_kernel [OF q(5)]
  show "k_interrupts k' = st" using fr by simp
  have same: "k'\<lparr>k_interrupts := st', k_input := q, k_keyboard := keyboard_after h k, k_pit := pit_after h k\<rparr> =
      k'\<lparr>k_interrupts := st'\<rparr>" using fr by simp
  let ?x = "l @ scancode_read h k @ io_log k"
  have order: "k\<lparr>k_interrupts := st, k_input := q, k_keyboard := keyboard_after h k, k_pit := pit_after h k, io_log := ?x\<rparr>
        \<lparr>k_interrupts := st', k_input := q, k_keyboard := keyboard_after h k, k_pit := pit_after h k\<rparr> =
      k\<lparr>k_interrupts := st', k_input := q, k_keyboard := keyboard_after h k, k_pit := pit_after h k, io_log := ?x\<rparr>"
    by (cases k) simp
  note f = frame_devices [OF q(5), of "pit_after h k" "keyboard_after h k" q st', unfolded same order]
  have "console_ok (k'\<lparr>k_interrupts := st'\<rparr>)" "screen (k'\<lparr>k_interrupts := st'\<rparr>) = screen k" using q(1,2) by simp_all
  then show "irq_effect h l st' k (k'\<lparr>k_interrupts := st'\<rparr>)"
    unfolding irq_effect_def using q(3,4) f by blast
qed

text \<open>What a dispatch leaves in the interrupt services.\<close>

definition dispatched :: "u8 \<Rightarrow> 'h interrupts \<Rightarrow> 'h interrupts \<Rightarrow> bool" where
  "dispatched irq st st' \<longleftrightarrow> interrupts_wf st' \<and> handler_of st' = handler_of st \<and>
     interrupt_context_depth st' = interrupt_context_depth st \<and>
     count_of st' = (count_of st)(unat irq := saturating (Suc (count_of st (unat irq)))) \<and>
     unat (unhandled_irq_count st') = (if handler_of st (unat irq) = None
       then saturating (Suc (unat (unhandled_irq_count st))) else unat (unhandled_irq_count st)) \<and>
     invalid_irq_count st' = invalid_irq_count st"

lemma dispatch_effect:
  assumes "console_ok k" "input_ok (k_input k)" "interrupts_wf (k_interrupts k)" "unat irq < 16"
  shows "\<exists>k' st. kernel_dispatch_irq irq k = Some k' \<and> dispatched irq (k_interrupts k) st \<and>
     irq_effect (handler_of (k_interrupts k) (unat irq)) [] st k k'"
proof -
  from dispatch_spec [OF assms(3), of irq] assms(4) obtain st where
    st: "interrupts_dispatch_irq irq (k_interrupts k) = Some (handler_of (k_interrupts k) (unat irq), st)"
      "dispatched irq (k_interrupts k) st" by (auto simp: dispatched_def word_unat_eq_iff)
  show ?thesis
  proof (cases "handler_of (k_interrupts k) (unat irq)")
    case None
    then show ?thesis using st irq_effect_none [OF assms(1,2), of st]
      by (intro exI [of _ "k\<lparr>k_interrupts := st\<rparr>"] exI [of _ st]) (simp add: kernel_dispatch_irq_def)
  next
    case (Some h)
    from call_handler_effect [of "k\<lparr>k_interrupts := st\<rparr>" h] assms(1,2) obtain k' where
      "call_irq_handler h (k\<lparr>k_interrupts := st\<rparr>) = Some k'" "irq_effect (Some h) [] st k k'"
      by (auto simp: irq_effect_start)
    then show ?thesis using st Some by (auto simp: kernel_dispatch_irq_def)
  qed
qed

text \<open>The vector of a frame and its line.\<close>

definition frame_irq :: "interrupt_frame \<Rightarrow> nat" where
  "frame_irq f = unat (frame_interrupt_number f) - 32"

definition hardware_frame :: "interrupt_frame \<Rightarrow> bool" where
  "hardware_frame f \<longleftrightarrow> 32 \<le> unat (frame_interrupt_number f) \<and> unat (frame_interrupt_number f) \<le> 47"

lemma irq_handler_spec:
  assumes con: "console_ok k" and inp: "input_ok (k_input k)" and wf: "interrupts_wf (k_interrupts k)"
    and depth: "interrupt_context_depth (k_interrupts k) \<noteq> UINT32_MAX" and f: "hardware_frame f"
  shows "\<exists>k' st. irq_handler (Some f) k = Some (Returned k') \<and>
     dispatched (of_nat (frame_irq f)) (k_interrupts k) st \<and>
     irq_effect (handler_of (k_interrupts k) (frame_irq f)) (eoi_events (frame_irq f)) st k k'"
proof -
  let ?n = "frame_interrupt_number f"
  let ?irq = "ucast (?n - 32) :: u8"
  have n: "32 \<le> unat ?n" "unat ?n \<le> 47" using f by (simp_all add: hardware_frame_def)
  have valid: "\<not> (?n < 32 \<or> ?n > 47)" using n by (simp add: word_less_nat_alt)
  have "unat (?n - 32) = unat ?n - 32" using n(1) by (subst unat_sub_word) (simp_all add: word_le_nat_alt)
  then have irq: "unat ?irq = frame_irq f" "frame_irq f < 16"
    using n by (simp_all add: frame_irq_def unsigned_ucast_eq unsigned_take_bit_eq take_bit_eq_mod)
  have of_irq: "of_nat (frame_irq f) = ?irq" using irq by (simp add: word_unat_eq_iff unat_of_nat)
  let ?st1 = "(k_interrupts k)\<lparr>interrupt_context_depth := interrupt_context_depth (k_interrupts k) + 1\<rparr>"
  have enter: "interrupts_context_enter (k_interrupts k) = (True, ?st1)"
    using depth by (simp add: interrupts_context_enter_def)
  have st1: "interrupts_wf ?st1" "handler_of ?st1 = handler_of (k_interrupts k)" "count_of ?st1 = count_of (k_interrupts k)"
    using wf by (auto simp: interrupts_wf_def handler_of_def count_of_def fun_eq_iff)
  from dispatch_effect [of "k\<lparr>k_interrupts := ?st1\<rparr>" ?irq] con inp st1 irq obtain k2 st2 where
    2: "kernel_dispatch_irq ?irq (k\<lparr>k_interrupts := ?st1\<rparr>) = Some k2" "dispatched ?irq ?st1 st2"
      "irq_effect (handler_of (k_interrupts k) (frame_irq f)) [] st2 k k2"
    by (auto simp: irq_effect_start)
  have eoi: "pic_send_eoi ?irq k2 = k2\<lparr>io_log := eoi_events (frame_irq f) @ io_log k2\<rparr>"
    using irq by (simp add: pic_send_eoi_def irq_number outb_def pic_ports pic_words Let_def eoi_events_def)
  have quiet: "\<forall>e \<in> set (eoi_events (frame_irq f)). event_port e \<notin> log_ports"
    by (simp add: eoi_events_def log_ports_def)
  let ?k3 = "k2\<lparr>io_log := eoi_events (frame_irq f) @ io_log k2\<rparr>"
  note 3 = irq_effect_ports [OF 2(3) quiet]
  have st2: "interrupt_context_depth st2 = interrupt_context_depth ?st1" using 2(2) by (simp add: dispatched_def)
  have "interrupt_context_depth st2 \<noteq> 0"
  proof -
    have "interrupt_context_depth (k_interrupts k) + 1 \<noteq> 0" using unat_Suc_u32 [OF depth] by auto
    then show ?thesis using st2 by simp
  qed
  let ?st3 = "st2\<lparr>interrupt_context_depth := interrupt_context_depth st2 - 1\<rparr>"
  have exit: "interrupts_context_exit st2 = (True, ?st3)"
    using \<open>interrupt_context_depth st2 \<noteq> 0\<close> by (simp add: interrupts_context_exit_def)
  have "dispatched ?irq (k_interrupts k) ?st3"
    using 2(2) st1 st2 by (auto simp: dispatched_def interrupts_wf_def handler_of_def count_of_def fun_eq_iff split: if_splits)
  moreover have "irq_handler (Some f) k = Some (Returned (?k3\<lparr>k_interrupts := ?st3\<rparr>))"
    using valid enter 2(1) eoi exit irq_effect_interrupts(2) [OF 3]
    by (simp add: irq_handler_def Let_def)
  ultimately show ?thesis using irq_effect_interrupts(1) [OF 3, of ?st3] unfolding of_irq by blast
qed

lemma irq_effect_fields:
  assumes "irq_effect h l st k k'"
  shows "console_ok k'" "screen k' = screen k" "k_interrupts k' = st" "k_pit k' = pit_after h k"
    "k_keyboard k' = keyboard_after h k" "input_ok (k_input k')"
    "queue_contents (k_input k') = queue_contents (k_input k) @ typed_char h k"
    "k_memory k' = k_memory k" "k_pmm k' = k_pmm k" "k_shell k' = k_shell k" "k_heap k' = k_heap k"
    "k_paging k' = k_paging k" "k_vmm k' = k_vmm k" "k_gdt k' = k_gdt k" "k_idt k' = k_idt k"
    "reg_if k' = reg_if k" "cpu_halted k' = cpu_halted k"
    "other_events log_ports (io_log k') = other_events log_ports (l @ scancode_read h k @ io_log k)"
    "reg_cr0 k' = reg_cr0 k" "reg_cr3 k' = reg_cr3 k" "reg_gdtr k' = reg_gdtr k" "reg_idtr k' = reg_idtr k"
    "io_device k' = io_device k"
proof -
  from assms obtain q where q: "console_ok k'" "screen k' = screen k" "input_ok q"
    "queue_contents q = queue_contents (k_input k) @ typed_char h k"
    "klog_frame (k\<lparr>k_interrupts := st, k_input := q, k_keyboard := keyboard_after h k, k_pit := pit_after h k,
        io_log := l @ scancode_read h k @ io_log k\<rparr>) k'" unfolding irq_effect_def by blast
  note fr = frame_kernel [OF q(5)]
  show "console_ok k'" "screen k' = screen k" "k_interrupts k' = st" "k_pit k' = pit_after h k"
    "k_keyboard k' = keyboard_after h k" "input_ok (k_input k')"
    "queue_contents (k_input k') = queue_contents (k_input k) @ typed_char h k"
    "k_memory k' = k_memory k" "k_pmm k' = k_pmm k" "k_shell k' = k_shell k" "k_heap k' = k_heap k"
    "k_paging k' = k_paging k" "k_vmm k' = k_vmm k" "k_gdt k' = k_gdt k" "k_idt k' = k_idt k"
    "reg_if k' = reg_if k" "cpu_halted k' = cpu_halted k"
    "reg_cr0 k' = reg_cr0 k" "reg_cr3 k' = reg_cr3 k" "reg_gdtr k' = reg_gdtr k" "reg_idtr k' = reg_idtr k"
    "io_device k' = io_device k"
    using q(1-4) fr by simp_all
  show "other_events log_ports (io_log k') = other_events log_ports (l @ scancode_read h k @ io_log k)"
    using q(5) by (simp add: klog_frame_def)
qed

lemma kernel_ok_irq:
  assumes "kernel_ok k" "irq_effect h l st k k'" "interrupts_wf st"
  shows "kernel_ok k'"
  using assms(1,3) irq_effect_fields [OF assms(2)] by (simp add: kernel_ok_def)

lemma sent_frame:
  assumes "other_events log_ports l = other_events log_ports l'" "p \<notin> log_ports"
  shows "sent_to p l = sent_to p l'"
  using assms sent_to_other [of p log_ports l] sent_to_other [of p log_ports l'] by simp

section \<open>Interrupts that end in a panic\<close>

definition exception_text :: "interrupt_frame \<Rightarrow> string" where
  "exception_text f = ''Exception vector: '' @ decimal_text (unat (frame_interrupt_number f)) @ [CHR 0x0A] @
     ''Exception error code: '' @ hex_text (frame_error_code f) @ [CHR 0x0A]"

lemma run_all_returning:
  "run_all (map returning fs @ gs) k = after (map_option Returned (run_steps fs k)) (run_all gs)"
proof (induction fs arbitrary: k)
  case (Cons f fs)
  then show ?case by (cases "f k") (simp_all add: returning_def)
qed simp

lemma isr_handler_spec:
  assumes "console_ok k"
  shows "\<exists>k1. isr_handler (Some f) k = Some (Stopped (kernel_panic (Some ''Unhandled CPU exception'') k1)) \<and>
     console_ok k1 \<and> screen k1 = fold ts_putchar (exception_text f) (screen k) \<and> klog_frame k k1"
proof -
  let ?fs = "[log_puts ''Exception vector: '', klog_write_uint32 (frame_interrupt_number f), log_putc (CHR 0x0A),
     log_puts ''Exception error code: '', klog_write_hex32 (frame_error_code f), log_putc (CHR 0x0A)]"
  have shown: "log_prints (run_steps ?fs) (concat [''Exception vector: '',
      decimal_text (unat (frame_interrupt_number f)), [CHR 0x0A],
      ''Exception error code: '', hex_text (frame_error_code f), [CHR 0x0A]])"
    by (intro log_prints_all) (simp_all add: c_text_no_NUL)
  have "log_prints (run_steps ?fs) (exception_text f)"
    by (rule log_prints_eq [OF shown]) (simp add: exception_text_def)
  from prints_onD [OF this assms] obtain k1 where
    k1: "run_steps ?fs k = Some k1" "console_ok k1" "screen k1 = fold ts_putchar (exception_text f) (screen k)"
      "klog_frame k k1" by (elim exE conjE)
  have "isr_handler (Some f) k = run_all (map returning ?fs @ [panics ''Unhandled CPU exception'']) k"
    by (simp add: isr_handler_def)
  also have "\<dots> = Some (Stopped (kernel_panic (Some ''Unhandled CPU exception'') k1))"
    unfolding run_all_returning k1(1) by simp
  finally show ?thesis using k1(2-4) by blast
qed

text \<open>Halted for good, with this text as the last one shown.\<close>

definition stopped_after :: "kernel \<Rightarrow> string \<Rightarrow> outcome option \<Rightarrow> bool" where
  "stopped_after k t r \<longleftrightarrow> (\<exists>k'. r = Some (Stopped k') \<and> console_ok k' \<and> screen k' = fold ts_putchar t (screen k) \<and>
     cpu_halted k' \<and> \<not> reg_if k' \<and> k_pmm k' = k_pmm k \<and> k_shell k' = k_shell k)"

lemma panic_stops:
  assumes "console_ok k1" "screen k1 = fold ts_putchar t (screen k)" "k_pmm k1 = k_pmm k" "k_shell k1 = k_shell k"
  shows "stopped_after k (t @ panic_text m) (Some (Stopped (kernel_panic m k1)))"
proof -
  from kernel_panic_spec [OF assms(1), of m] obtain k' where
    k': "kernel_panic m k1 = k'\<lparr>cpu_halted := True\<rparr>" "console_ok k'"
      "screen k' = fold ts_putchar (panic_text m) (screen k1)" "klog_frame (k1\<lparr>reg_if := False\<rparr>) k'" by blast
  show ?thesis unfolding stopped_after_def k'(1)
    using k'(2,3) frame_kernel [OF k'(4)] assms(2-4) by simp
qed

lemma panic_stops_now: "console_ok k \<Longrightarrow> stopped_after k (panic_text m) (Some (Stopped (kernel_panic m k)))"
  using panic_stops [of k "[]" k m] by simp

section \<open>Properties\<close>

text \<open>C10. A hardware interrupt on any of the 16 lines is handled completely: the handler registered for the
  line runs, and only it (the tick count, the keyboard state and the input queue change exactly as
  their driver says), the line is counted once, the master controller is acknowledged once and the
  slave exactly for lines 8 to 15, the context depth is what it was before, the kernel stays sound,
  nothing appears on the screen, and the C handler returns.\<close>

theorem irq_handled_completely:
  assumes "kernel_ok k" "interrupt_context_depth (k_interrupts k) \<noteq> UINT32_MAX" "hardware_frame f"
  shows "\<exists>k'. irq_handler (Some f) k = Some (Returned k') \<and> kernel_ok k' \<and>
     dispatched (of_nat (frame_irq f)) (k_interrupts k) (k_interrupts k') \<and>
     k_pit k' = pit_after (handler_of (k_interrupts k) (frame_irq f)) k \<and>
     k_keyboard k' = keyboard_after (handler_of (k_interrupts k) (frame_irq f)) k \<and>
     queue_contents (k_input k') =
       queue_contents (k_input k) @ typed_char (handler_of (k_interrupts k) (frame_irq f)) k \<and>
     sent_to 0x20 (io_log k') = sent_to 0x20 (io_log k) @ [0x20] \<and>
     sent_to 0xA0 (io_log k') = sent_to 0xA0 (io_log k) @ (if frame_irq f < 8 then [] else [0x20]) \<and>
     screen k' = screen k \<and> k_shell k' = k_shell k \<and> k_pmm k' = k_pmm k \<and> reg_if k' = reg_if k"
proof -
  have ok: "console_ok k" "input_ok (k_input k)" "interrupts_wf (k_interrupts k)" using assms(1) by (simp_all add: kernel_ok_def)
  let ?h = "handler_of (k_interrupts k) (frame_irq f)"
  from irq_handler_spec [OF ok assms(2,3)] obtain k' st where
    k': "irq_handler (Some f) k = Some (Returned k')" "dispatched (of_nat (frame_irq f)) (k_interrupts k) st"
      "irq_effect ?h (eoi_events (frame_irq f)) st k k'" by blast
  note fields = irq_effect_fields [OF k'(3)]
  have wf: "interrupts_wf st" using k'(2) by (simp add: dispatched_def)
  have "sent_to p (io_log k') = sent_to p (eoi_events (frame_irq f) @ scancode_read ?h k @ io_log k)"
    if "p \<notin> log_ports" for p
    by (rule sent_frame [OF fields(18) that])
  then have "sent_to 0x20 (io_log k') = sent_to 0x20 (io_log k) @ [0x20]"
    "sent_to 0xA0 (io_log k') = sent_to 0xA0 (io_log k) @ (if frame_irq f < 8 then [] else [0x20])"
    by (simp_all add: log_ports_def eoi_events_def scancode_read_def)
  then show ?thesis using k'(1,2) fields kernel_ok_irq [OF assms(1) k'(3) wf] by simp
qed

definition sample_frame :: "u32 \<Rightarrow> interrupt_frame" where
  "sample_frame n = \<lparr>frame_ds = 0x10, frame_edi = 0, frame_esi = 0, frame_ebp = 0, frame_esp = 0, frame_ebx = 0,
     frame_edx = 0, frame_ecx = 0, frame_eax = 0, frame_interrupt_number = n, frame_error_code = 0,
     frame_eip = 0x200000, frame_cs = 8, frame_eflags = 0x202\<rparr>"

lemma irq_handled_completely_witness:
  "\<exists>k'. irq_handler (Some (sample_frame 33)) ready_kernel = Some (Returned k') \<and>
     sent_to 0x20 (io_log k') = [0x20] \<and> k_shell k' = k_shell ready_kernel"
proof -
  have "hardware_frame (sample_frame 33)" "frame_irq (sample_frame 33) = 1"
    by (simp_all add: hardware_frame_def sample_frame_def frame_irq_def)
  moreover have "io_log ready_kernel = []" by (simp add: ready_kernel_def kernel_static_def)
  ultimately show ?thesis
    using irq_handled_completely [OF ready_kernel_ok, of "sample_frame 33"] ready_kernel_depth
    by (auto simp: UINT32_MAX_def)
qed

text \<open>C25. Every interrupt the kernel cannot handle stops it visibly.  An exception of any vector shows its
  number and error code before the panic; an exception or interrupt without a frame, a vector
  outside 32 to 47 and an overflow of the context depth panic at once with their own messages.  The
  processor ends halted with interrupts off, and neither the frames nor the shell were touched.\<close>

theorem bad_interrupts_stop_the_kernel:
  assumes "console_ok k"
  shows "stopped_after k (exception_text f @ panic_text (Some ''Unhandled CPU exception'')) (isr_handler (Some f) k) \<and>
     stopped_after k (panic_text (Some ''CPU exception arrived without an interrupt frame'')) (isr_handler None k) \<and>
     stopped_after k (panic_text (Some ''Hardware interrupt arrived without an interrupt frame'')) (irq_handler None k) \<and>
     (\<not> hardware_frame f \<longrightarrow>
       stopped_after k (panic_text (Some ''Invalid hardware interrupt vector'')) (irq_handler (Some f) k)) \<and>
     (hardware_frame f \<and> interrupt_context_depth (k_interrupts k) = UINT32_MAX \<longrightarrow>
       stopped_after k (panic_text (Some ''Hardware interrupt-context depth overflow'')) (irq_handler (Some f) k))"
proof (intro conjI impI)
  from isr_handler_spec [OF assms, of f] obtain k1 where
    k1: "isr_handler (Some f) k = Some (Stopped (kernel_panic (Some ''Unhandled CPU exception'') k1))"
      "console_ok k1" "screen k1 = fold ts_putchar (exception_text f) (screen k)" "klog_frame k k1" by blast
  show "stopped_after k (exception_text f @ panic_text (Some ''Unhandled CPU exception'')) (isr_handler (Some f) k)"
    unfolding k1(1) by (rule panic_stops [OF k1(2,3)]) (use frame_kernel [OF k1(4)] in simp_all)
  show "stopped_after k (panic_text (Some ''CPU exception arrived without an interrupt frame'')) (isr_handler None k)"
    unfolding isr_handler_def option.case by (rule panic_stops_now [OF assms])
  show "stopped_after k (panic_text (Some ''Hardware interrupt arrived without an interrupt frame'')) (irq_handler None k)"
    unfolding irq_handler_def option.case by (rule panic_stops_now [OF assms])
next
  have range: "frame_interrupt_number f < 32 \<or> frame_interrupt_number f > 47 \<longleftrightarrow> \<not> hardware_frame f"
    by (auto simp: hardware_frame_def word_less_nat_alt)
  { assume "\<not> hardware_frame f"
    then show "stopped_after k (panic_text (Some ''Invalid hardware interrupt vector'')) (irq_handler (Some f) k)"
      unfolding irq_handler_def option.case range if_P [OF \<open>\<not> hardware_frame f\<close>] by (intro panic_stops_now [OF assms]) }
  { assume h: "hardware_frame f \<and> interrupt_context_depth (k_interrupts k) = UINT32_MAX"
    then have "irq_handler (Some f) k = Some (Stopped (kernel_panic (Some ''Hardware interrupt-context depth overflow'') k))"
      using range by (simp add: irq_handler_def interrupts_context_enter_def Let_def)
    then show "stopped_after k (panic_text (Some ''Hardware interrupt-context depth overflow'')) (irq_handler (Some f) k)"
      using panic_stops_now [OF assms] by simp }
qed

lemma bad_interrupts_stop_the_kernel_witness:
  "stopped_after ready_kernel (panic_text (Some ''Invalid hardware interrupt vector'')) (irq_handler (Some (sample_frame 128)) ready_kernel)"
  using bad_interrupts_stop_the_kernel [of ready_kernel "sample_frame 128"] ready_kernel_ok
  by (simp add: kernel_ok_def hardware_frame_def sample_frame_def)

end
