(* ===== verification/System.thy ===== *)
theory System
  imports Kernel
begin

text \<open>
  The running kernel: the endless foreground loop of \<open>kernel_main\<close> and the hardware interrupts
  that preempt it.

  A configuration is the kernel, the character the loop has taken from the queue and not yet
  given to the shell, and two histories: the characters the keyboard interrupt queued and those
  the shell handled.  The loop is preempted where its interrupts are on: before each round and
  between taking a character and calling the shell; a call of the shell is one step (the reader's
  own accesses to the queue are interleaved with interrupts in the theory Input).  An interrupt
  gate clears the interrupt flag, \<open>iret\<close> restores it, and any interrupt ends \<open>hlt\<close>.
\<close>

section \<open>The step relation\<close>

record system =
  sys_kernel :: kernel
  sys_taken :: "char option"
  sys_queued :: string
  sys_handled :: string

inductive foreground_step :: "system \<Rightarrow> system \<Rightarrow> bool" where
  poll:
    "\<not> cpu_halted (sys_kernel s) \<Longrightarrow> sys_taken s = None \<Longrightarrow>
     \<not> interrupts_is_in_context (k_interrupts (sys_kernel s)) \<Longrightarrow>
     kernel_work_poll (sys_kernel s) = Some (taken, k') \<Longrightarrow>
     foreground_step s (s\<lparr>sys_kernel := k', sys_taken := taken\<rparr>)"
| handle:
    "\<not> cpu_halted (sys_kernel s) \<Longrightarrow> sys_taken s = Some c \<Longrightarrow>
     shell_handle_character c (sys_kernel s) = Some (Returned k') \<Longrightarrow>
     foreground_step s (s\<lparr>sys_kernel := k', sys_taken := None, sys_handled := sys_handled s @ [c]\<rparr>)"

inductive interrupt_step :: "system \<Rightarrow> system \<Rightarrow> bool" where
  interrupt:
    "reg_if (sys_kernel s) \<Longrightarrow> hardware_frame f \<Longrightarrow>
     irq_handler (Some f) ((sys_kernel s)\<lparr>reg_if := False, cpu_halted := False\<rparr>) = Some (Returned k') \<Longrightarrow>
     interrupt_step s (s\<lparr>sys_kernel := k'\<lparr>reg_if := True\<rparr>,
       sys_queued := sys_queued s @
         typed_char (handler_of (k_interrupts (sys_kernel s)) (frame_irq f)) (sys_kernel s)\<rparr>)"

definition system_step :: "system \<Rightarrow> system \<Rightarrow> bool" where
  "system_step s s' \<longleftrightarrow> foreground_step s s' \<or> interrupt_step s s'"

inductive system_run :: "system \<Rightarrow> system \<Rightarrow> bool" where
  run_start: "system_run s s"
| run_next: "system_run s s' \<Longrightarrow> system_step s' s'' \<Longrightarrow> system_run s s''"

inductive foreground_run :: "system \<Rightarrow> nat \<Rightarrow> system \<Rightarrow> bool" where
  foreground_start: "foreground_run s 0 s"
| foreground_next: "foreground_step s s' \<Longrightarrow> foreground_run s' n s'' \<Longrightarrow> foreground_run s (Suc n) s''"

inductive_cases foreground_stepE: "foreground_step s s'"
inductive_cases interrupt_stepE: "interrupt_step s s'"

section \<open>The invariant\<close>

definition kernel_idle_ok :: "kernel \<Rightarrow> bool" where
  "kernel_idle_ok k \<longleftrightarrow> kernel_ok k \<and> interrupt_context_depth (k_interrupts k) = 0 \<and> reg_if k"

definition system_ok :: "system \<Rightarrow> bool" where
  "system_ok s \<longleftrightarrow> kernel_idle_ok (sys_kernel s) \<and>
     sys_queued s = sys_handled s @ (case sys_taken s of None \<Rightarrow> [] | Some c \<Rightarrow> [c]) @
       queue_contents (k_input (sys_kernel s)) \<and>
     (cpu_halted (sys_kernel s) \<longrightarrow> sys_taken s = None \<and> queue_contents (k_input (sys_kernel s)) = []) \<and>
     shell_line (k_shell (sys_kernel s)) = fold line_after (sys_handled s) []"

lemma kernel_ok_if [simp]:
  "kernel_ok (k\<lparr>reg_if := b\<rparr>) = kernel_ok k" "kernel_ok (k\<lparr>cpu_halted := b\<rparr>) = kernel_ok k"
  by (simp_all add: kernel_ok_def)

lemma after_if [simp]:
  "typed_char h (k\<lparr>reg_if := b\<rparr>) = typed_char h k" "typed_char h (k\<lparr>cpu_halted := b\<rparr>) = typed_char h k"
  by (simp_all add: typed_char_def next_scancode_def)

text \<open>A round of the loop.\<close>

lemma poll_empty:
  assumes "queue_contents (k_input k) = []"
  shows "kernel_work_poll k = Some (None, k\<lparr>reg_if := True, cpu_halted := True\<rparr>)"
proof -
  have "input_queue_tail (k_input k) = input_queue_head (k_input k)" using assms queue_empty_iff by blast
  then have "input_try_read_character (Some NUL) (k_input k) = Some (False, Some NUL, k_input k)"
    by (simp add: input_try_read_character_def Let_def)
  then show ?thesis
    by (cases k) (simp add: kernel_work_poll_def cpu_disable_interrupts_def cpu_enable_interrupts_and_halt_def Let_def)
qed

lemma poll_first:
  assumes "input_ok (k_input k)" "queue_contents (k_input k) = c # cs"
  shows "\<exists>q. kernel_work_poll k = Some (Some c, k\<lparr>reg_if := True, k_input := q\<rparr>) \<and> input_ok q \<and> queue_contents q = cs"
proof -
  from dequeue_first [OF assms, of NUL] obtain q where
    q: "input_try_read_character (Some NUL) (k_input k) = Some (True, Some c, q)" "input_ok q" "queue_contents q = cs"
    by blast
  then show ?thesis
    by (cases k) (simp add: kernel_work_poll_def cpu_disable_interrupts_def cpu_enable_interrupts_def Let_def)
qed

lemma kernel_ok_input: "kernel_ok k \<Longrightarrow> input_ok q \<Longrightarrow> kernel_ok (k\<lparr>reg_if := b, k_input := q\<rparr>)"
  by (simp add: kernel_ok_def)

text \<open>The whole of \<open>kernel_work_run_once\<close>: with a character, the shell handles it with interrupts on.\<close>

lemma work_run_once_spec:
  assumes "kernel_idle_ok k"
  shows "case queue_contents (k_input k) of
       [] \<Rightarrow> kernel_work_run_once k = Some (Returned (k\<lparr>reg_if := True, cpu_halted := True\<rparr>))
     | c # cs \<Rightarrow> \<exists>q. queue_contents q = cs \<and> input_ok q \<and>
         kernel_work_run_once k = shell_handle_character c (k\<lparr>reg_if := True, k_input := q\<rparr>)"
proof -
  have ctx: "\<not> interrupts_is_in_context (k_interrupts k)" and inp: "input_ok (k_input k)"
    using assms by (simp_all add: kernel_idle_ok_def interrupts_is_in_context_def kernel_ok_def)
  show ?thesis
  proof (cases "queue_contents (k_input k)")
    case Nil
    then show ?thesis using ctx poll_empty [OF Nil] by (simp add: kernel_work_run_once_def)
  next
    case (Cons c cs)
    from poll_first [OF inp Cons] ctx Cons show ?thesis by (auto simp: kernel_work_run_once_def)
  qed
qed

section \<open>Every step keeps it\<close>

lemma poll_ok:
  assumes ok: "system_ok s" and run: "\<not> cpu_halted (sys_kernel s)" "sys_taken s = None"
    and poll: "kernel_work_poll (sys_kernel s) = Some (taken, k')"
  shows "system_ok (s\<lparr>sys_kernel := k', sys_taken := taken\<rparr>)"
proof -
  let ?k = "sys_kernel s"
  have k: "kernel_ok ?k" "interrupt_context_depth (k_interrupts ?k) = 0" and inp: "input_ok (k_input ?k)"
    using ok by (simp_all add: system_ok_def kernel_idle_ok_def kernel_ok_def)
  show ?thesis
  proof (cases "queue_contents (k_input ?k)")
    case Nil
    then have "taken = None" "k' = ?k\<lparr>reg_if := True, cpu_halted := True\<rparr>" using poll poll_empty [OF Nil] by simp_all
    then show ?thesis using ok run Nil by (simp add: system_ok_def kernel_idle_ok_def)
  next
    case (Cons c cs)
    from poll_first [OF inp Cons] poll obtain q where
      q: "taken = Some c" "k' = ?k\<lparr>reg_if := True, k_input := q\<rparr>" "input_ok q" "queue_contents q = cs" by auto
    then show ?thesis using ok run Cons kernel_ok_input [OF k(1) q(3), of True]
      by (simp add: system_ok_def kernel_idle_ok_def)
  qed
qed

lemma handle_ok:
  assumes ok: "system_ok s" and run: "\<not> cpu_halted (sys_kernel s)" "sys_taken s = Some c"
    and handle: "shell_handle_character c (sys_kernel s) = Some (Returned k')"
  shows "system_ok (s\<lparr>sys_kernel := k', sys_taken := None, sys_handled := sys_handled s @ [c]\<rparr>)"
proof -
  let ?k = "sys_kernel s"
  have k: "kernel_ok ?k" "interrupt_context_depth (k_interrupts ?k) = 0"
    using ok by (simp_all add: system_ok_def kernel_idle_ok_def)
  from handle_character_spec [OF k, of c] handle obtain sh where
    sh: "shell_step ?k k' (line_echo c (shell_line (k_shell ?k)) ?k) sh" "shell_ok sh"
      "shell_line sh = line_after c (shell_line (k_shell ?k))" by auto
  note fields = shell_step_fields [OF sh(1)]
  have "kernel_ok k'" by (rule kernel_ok_step [OF k(1) sh(1,2)])
  then show ?thesis using ok run sh(3) fields by (simp add: system_ok_def kernel_idle_ok_def)
qed

lemma foreground_step_ok: "foreground_step s s' \<Longrightarrow> system_ok s \<Longrightarrow> system_ok s'"
  by (erule foreground_stepE) (simp_all add: poll_ok handle_ok)

lemma interrupt_returns:
  assumes ok: "system_ok s" and f: "hardware_frame f"
  shows "\<exists>k'. irq_handler (Some f) ((sys_kernel s)\<lparr>reg_if := False, cpu_halted := False\<rparr>) = Some (Returned k') \<and>
     system_ok (s\<lparr>sys_kernel := k'\<lparr>reg_if := True\<rparr>, sys_queued := sys_queued s @
       typed_char (handler_of (k_interrupts (sys_kernel s)) (frame_irq f)) (sys_kernel s)\<rparr>)"
proof -
  let ?k = "(sys_kernel s)\<lparr>reg_if := False, cpu_halted := False\<rparr>"
  let ?h = "handler_of (k_interrupts (sys_kernel s)) (frame_irq f)"
  have k: "kernel_ok ?k" "interrupt_context_depth (k_interrupts ?k) = 0"
    using ok by (simp_all add: system_ok_def kernel_idle_ok_def)
  then have parts: "console_ok ?k" "input_ok (k_input ?k)" "interrupts_wf (k_interrupts ?k)"
    "interrupt_context_depth (k_interrupts ?k) \<noteq> UINT32_MAX"
    by (simp_all add: kernel_ok_def UINT32_MAX_def)
  from irq_handler_spec [OF parts f] obtain k' st where
    k': "irq_handler (Some f) ?k = Some (Returned k')" "dispatched (of_nat (frame_irq f)) (k_interrupts ?k) st"
      "irq_effect (handler_of (k_interrupts ?k) (frame_irq f)) (eoi_events (frame_irq f)) st ?k k'" by blast
  note fields = irq_effect_fields [OF k'(3)]
  have st: "interrupts_wf st" "interrupt_context_depth st = 0" using k'(2) k(2) by (simp_all add: dispatched_def)
  have k1: "kernel_ok k'" by (rule kernel_ok_irq [OF k(1) k'(3) st(1)])
  have typed: "typed_char (handler_of (k_interrupts ?k) (frame_irq f)) ?k = typed_char ?h (sys_kernel s)" by simp
  have "system_ok (s\<lparr>sys_kernel := k'\<lparr>reg_if := True\<rparr>, sys_queued := sys_queued s @ typed_char ?h (sys_kernel s)\<rparr>)"
    using ok k1 st(2) fields unfolding typed
    by (auto simp: system_ok_def kernel_idle_ok_def split: option.splits)
  then show ?thesis using k'(1) by blast
qed

lemma interrupt_step_ok: "interrupt_step s s' \<Longrightarrow> system_ok s \<Longrightarrow> system_ok s'"
  using interrupt_returns by (elim interrupt_stepE) fastforce

lemma system_run_ok: "system_run s s' \<Longrightarrow> system_ok s \<Longrightarrow> system_ok s'"
  by (induction rule: system_run.induct) (auto simp: system_step_def foreground_step_ok interrupt_step_ok)

text \<open>Neither side is ever stuck.\<close>

lemma foreground_progress:
  assumes ok: "system_ok s" and run: "\<not> cpu_halted (sys_kernel s)"
  shows "\<exists>s'. foreground_step s s'"
proof (cases "sys_taken s")
  case None
  have ctx: "\<not> interrupts_is_in_context (k_interrupts (sys_kernel s))" and inp: "input_ok (k_input (sys_kernel s))"
    using ok by (simp_all add: system_ok_def kernel_idle_ok_def interrupts_is_in_context_def kernel_ok_def)
  have "\<exists>t k'. kernel_work_poll (sys_kernel s) = Some (t, k')"
    by (cases "queue_contents (k_input (sys_kernel s))") (use poll_empty poll_first [OF inp] in fastforce)+
  then show ?thesis using foreground_step.poll [OF run None ctx] by blast
next
  case (Some c)
  have k: "kernel_ok (sys_kernel s)" "interrupt_context_depth (k_interrupts (sys_kernel s)) = 0"
    using ok by (simp_all add: system_ok_def kernel_idle_ok_def)
  from handle_character_spec [OF k, of c] show ?thesis using foreground_step.handle [OF run Some] by blast
qed

text \<open>Left alone, the loop handles everything and halts.\<close>

definition rounds :: "system \<Rightarrow> nat" where
  "rounds s = (if cpu_halted (sys_kernel s) then 0
     else 2 * length (queue_contents (k_input (sys_kernel s))) + (if sys_taken s = None then 1 else 2))"

lemma foreground_step_rounds:
  assumes "foreground_step s s'" "system_ok s"
  shows "rounds s = Suc (rounds s') \<and> sys_queued s' = sys_queued s"
  using assms(1)
proof (cases rule: foreground_stepE [consumes 1, case_names poll handle])
  case (poll k' taken)
  have inp: "input_ok (k_input (sys_kernel s))" using assms(2) by (simp add: system_ok_def kernel_idle_ok_def kernel_ok_def)
  show ?thesis
    by (cases "queue_contents (k_input (sys_kernel s))")
       (use poll poll_empty poll_first [OF inp] in \<open>auto simp: rounds_def\<close>)
next
  case (handle c k')
  have k: "kernel_ok (sys_kernel s)" "interrupt_context_depth (k_interrupts (sys_kernel s)) = 0"
    using assms(2) by (simp_all add: system_ok_def kernel_idle_ok_def)
  from handle_character_spec [OF k, of c] handle obtain t sh where "shell_step (sys_kernel s) k' t sh" by auto
  then show ?thesis using handle shell_step_fields by (simp add: rounds_def)
qed

lemma foreground_drains:
  "system_ok s \<Longrightarrow> \<exists>s'. foreground_run s (rounds s) s' \<and> system_ok s' \<and> cpu_halted (sys_kernel s') \<and>
     sys_queued s' = sys_queued s"
proof (induction "rounds s" arbitrary: s)
  case 0
  then have "cpu_halted (sys_kernel s)" by (simp add: rounds_def split: if_splits)
  then show ?case using 0 foreground_start [of s] by (intro exI [of _ s]) simp
next
  case (Suc n)
  then have "\<not> cpu_halted (sys_kernel s)" by (auto simp: rounds_def)
  from foreground_progress [OF Suc.prems this] obtain s1 where s1: "foreground_step s s1" by blast
  note r = foreground_step_rounds [OF s1 Suc.prems]
  have ok1: "system_ok s1" by (rule foreground_step_ok [OF s1 Suc.prems])
  from Suc.hyps(1) [of s1] r Suc.hyps(2) ok1 obtain s' where
    s': "foreground_run s1 n s'" "system_ok s'" "cpu_halted (sys_kernel s')" "sys_queued s' = sys_queued s1" by auto
  have "foreground_run s (Suc n) s'" by (rule foreground_next [OF s1 s'(1)])
  then show ?case using s' r Suc.hyps(2) by auto
qed

section \<open>What no step changes\<close>

definition system_const :: "kernel \<Rightarrow> kernel \<Rightarrow> bool" where
  "system_const k k' \<longleftrightarrow> same_frames (k_pmm k) (k_pmm k') \<and> k_memory k' = k_memory k \<and> k_paging k' = k_paging k \<and>
     k_vmm k' = k_vmm k \<and> k_heap k' = k_heap k \<and> k_gdt k' = k_gdt k \<and> k_idt k' = k_idt k \<and>
     reg_gdtr k' = reg_gdtr k \<and> reg_idtr k' = reg_idtr k \<and> reg_cr0 k' = reg_cr0 k \<and> reg_cr3 k' = reg_cr3 k \<and>
     io_device k' = io_device k \<and>
     handler_of (k_interrupts k') = handler_of (k_interrupts k)"

lemma system_const_trans: "system_const a b \<Longrightarrow> system_const b c \<Longrightarrow> system_const a c"
  using same_frames_trans by (simp add: system_const_def) blast

lemma system_const_refl: "system_ok s \<Longrightarrow> system_const (sys_kernel s) (sys_kernel s)"
  by (simp add: system_const_def same_frames_def same_but_search_def system_ok_def kernel_idle_ok_def kernel_ok_def)

lemma foreground_step_const:
  assumes "foreground_step s s'" "system_ok s"
  shows "system_const (sys_kernel s) (sys_kernel s')"
  using assms(1)
proof (cases rule: foreground_stepE [consumes 1, case_names poll handle])
  case (poll k' taken)
  have inp: "input_ok (k_input (sys_kernel s))" using assms(2) by (simp add: system_ok_def kernel_idle_ok_def kernel_ok_def)
  have const: "system_const (sys_kernel s) (sys_kernel s)" by (rule system_const_refl [OF assms(2)])
  show ?thesis
  proof (cases "queue_contents (k_input (sys_kernel s))")
    case Nil
    then show ?thesis using poll poll_empty [OF Nil] const by (auto simp: system_const_def)
  next
    case (Cons c cs)
    from poll_first [OF inp Cons] poll const show ?thesis by (auto simp: system_const_def)
  qed
next
  case (handle c k')
  have k: "kernel_ok (sys_kernel s)" "interrupt_context_depth (k_interrupts (sys_kernel s)) = 0"
    using assms(2) by (simp_all add: system_ok_def kernel_idle_ok_def)
  from handle_character_spec [OF k, of c] handle obtain t sh where "shell_step (sys_kernel s) k' t sh" by auto
  from shell_step_fields [OF this] handle show ?thesis by (simp add: system_const_def)
qed

lemma interrupt_step_const:
  assumes "interrupt_step s s'" "system_ok s"
  shows "system_const (sys_kernel s) (sys_kernel s')"
  using assms(1)
proof (cases rule: interrupt_stepE [consumes 1, case_names interrupt])
  case (interrupt f k')
  let ?k = "(sys_kernel s)\<lparr>reg_if := False, cpu_halted := False\<rparr>"
  have k: "kernel_ok (sys_kernel s)" "interrupt_context_depth (k_interrupts (sys_kernel s)) = 0"
    using assms(2) by (simp_all add: system_ok_def kernel_idle_ok_def)
  then have parts: "console_ok ?k" "input_ok (k_input ?k)" "interrupts_wf (k_interrupts ?k)"
    "interrupt_context_depth (k_interrupts ?k) \<noteq> UINT32_MAX" "pmm_running (k_pmm ?k)"
    by (simp_all add: kernel_ok_def UINT32_MAX_def)
  from irq_handler_spec [OF parts(1-4) interrupt(3)] interrupt(4) obtain st where
    st: "dispatched (of_nat (frame_irq f)) (k_interrupts ?k) st"
      "irq_effect (handler_of (k_interrupts ?k) (frame_irq f)) (eoi_events (frame_irq f)) st ?k k'" by auto
  show ?thesis using irq_effect_fields [OF st(2)] st(1) parts(5) interrupt(1)
    by (simp add: system_const_def same_frames_def same_but_search_def dispatched_def)
qed

lemma system_run_const: "system_run s s' \<Longrightarrow> system_ok s \<Longrightarrow> system_const (sys_kernel s) (sys_kernel s')"
proof (induction rule: system_run.induct)
  case (run_start s)
  then show ?case by (rule system_const_refl)
next
  case (run_next s s' s'')
  have ok: "system_ok s'" using run_next.hyps(1) run_next.prems by (rule system_run_ok)
  have "system_const (sys_kernel s') (sys_kernel s'')"
    using run_next.hyps(2) ok by (auto simp: system_step_def foreground_step_const interrupt_step_const)
  then show ?case using run_next.IH [OF run_next.prems] by (rule system_const_trans [rotated])
qed

text \<open>The configuration in which the loop starts.\<close>

definition start :: "kernel \<Rightarrow> system" where
  "start k = \<lparr>sys_kernel = k, sys_taken = None, sys_queued = [], sys_handled = []\<rparr>"

lemma start_ok:
  "kernel_idle_ok k \<Longrightarrow> \<not> cpu_halted k \<Longrightarrow> queue_contents (k_input k) = [] \<Longrightarrow> shell_line (k_shell k) = [] \<Longrightarrow>
     system_ok (start k)"
  by (simp add: system_ok_def start_def)

section \<open>Properties\<close>

text \<open>The ready kernel with interrupts on.\<close>

definition idle_kernel :: kernel where
  "idle_kernel = ready_kernel\<lparr>reg_if := True\<rparr>"

lemma idle_start_ok: "system_ok (start idle_kernel)"
proof (rule start_ok)
  show "kernel_idle_ok idle_kernel"
    using ready_kernel_ok ready_kernel_depth by (simp add: kernel_idle_ok_def idle_kernel_def)
  show "\<not> cpu_halted idle_kernel" "queue_contents (k_input idle_kernel) = []" "shell_line (k_shell idle_kernel) = []"
    by (simp_all add: idle_kernel_def ready_kernel_def kernel_static_def queue_contents_def queue_length_def shell_line_def)
       (simp add: input_static_def)
qed

text \<open>The running kernel, with calls of the shell as single steps, never stops, loses a character or sleeps on work.  In every configuration
  reachable under any interleaving of the loop and hardware interrupts on any line: the kernel is
  sound, outside interrupt context and with interrupts on; the characters the keyboard queued are
  those the shell handled, then the one being handed over, then those waiting, in order; the line
  in the shell is the editing of exactly the handled characters; when the processor is halted no
  character is pending; every hardware interrupt is handled and returns, and while not halted the
  loop has a next step, so neither a panic nor a fault nor a deadlock is reachable.\<close>

theorem running_kernel_sound:
  assumes "system_run s0 s" "system_ok s0"
  shows "kernel_idle_ok (sys_kernel s) \<and>
     sys_queued s = sys_handled s @ (case sys_taken s of None \<Rightarrow> [] | Some c \<Rightarrow> [c]) @
       queue_contents (k_input (sys_kernel s)) \<and>
     shell_line (k_shell (sys_kernel s)) = fold line_after (sys_handled s) [] \<and>
     (cpu_halted (sys_kernel s) \<longrightarrow> sys_handled s = sys_queued s) \<and>
     (\<forall>f. hardware_frame f \<longrightarrow> (\<exists>k'. irq_handler (Some f) ((sys_kernel s)\<lparr>reg_if := False, cpu_halted := False\<rparr>) =
        Some (Returned k'))) \<and>
     (cpu_halted (sys_kernel s) \<or> (\<exists>s'. foreground_step s s')) \<and>
     system_const (sys_kernel s0) (sys_kernel s)"
proof -
  have ok: "system_ok s" by (rule system_run_ok [OF assms])
  show ?thesis
    using ok [unfolded system_ok_def] interrupt_returns [OF ok] foreground_progress [OF ok] system_run_const [OF assms]
    by auto
qed

lemma running_kernel_sound_witness:
  "system_run (start idle_kernel) ((start idle_kernel)\<lparr>sys_kernel := idle_kernel\<lparr>cpu_halted := True\<rparr>\<rparr>) \<and>
   kernel_idle_ok (idle_kernel\<lparr>cpu_halted := True\<rparr>)"
proof -
  let ?s = "(start idle_kernel)\<lparr>sys_kernel := idle_kernel\<lparr>cpu_halted := True\<rparr>\<rparr>"
  have empty: "queue_contents (k_input idle_kernel) = []" "reg_if idle_kernel"
    using idle_start_ok by (simp_all add: system_ok_def start_def) (simp add: idle_kernel_def)
  have "idle_kernel\<lparr>reg_if := True, cpu_halted := True\<rparr> = idle_kernel\<lparr>cpu_halted := True\<rparr>"
    using empty(2) by (cases idle_kernel) simp
  then have p: "kernel_work_poll idle_kernel = Some (None, idle_kernel\<lparr>cpu_halted := True\<rparr>)"
    using poll_empty [OF empty(1)] by simp
  have h: "\<not> cpu_halted idle_kernel" "\<not> interrupts_is_in_context (k_interrupts idle_kernel)"
    using ready_kernel_depth by (simp_all add: idle_kernel_def interrupts_is_in_context_def)
       (simp add: ready_kernel_def kernel_static_def)
  have "foreground_step (start idle_kernel) ((start idle_kernel)\<lparr>sys_kernel := idle_kernel\<lparr>cpu_halted := True\<rparr>, sys_taken := None\<rparr>)"
    by (rule foreground_step.poll) (simp_all add: start_def p h)
  then have "system_run (start idle_kernel) ?s"
    by (intro run_next [OF run_start]) (simp add: system_step_def start_def)
  from running_kernel_sound [OF this idle_start_ok] this show ?thesis by simp
qed

text \<open>Every typed character reaches the shell, and the number of rounds it takes: from any reachable configuration the loop, left to itself,
  comes to rest after exactly the number of steps \<open>rounds\<close> counts (at most two per waiting character
  and two more), with every queued character handled by the shell in the order typed, the line
  accordingly, and the processor halted with interrupts on.\<close>

theorem typed_characters_reach_shell:
  assumes "system_run s0 s" "system_ok s0"
  shows "\<exists>s'. foreground_run s (rounds s) s' \<and> cpu_halted (sys_kernel s') \<and> reg_if (sys_kernel s') \<and>
     sys_handled s' = sys_queued s \<and> shell_line (k_shell (sys_kernel s')) = fold line_after (sys_queued s) [] \<and>
     rounds s \<le> 2 * length (queue_contents (k_input (sys_kernel s))) + 2"
proof -
  have ok: "system_ok s" by (rule system_run_ok [OF assms])
  from foreground_drains [OF ok] obtain s' where
    s': "foreground_run s (rounds s) s'" "system_ok s'" "cpu_halted (sys_kernel s')" "sys_queued s' = sys_queued s" by blast
  have "rounds s \<le> 2 * length (queue_contents (k_input (sys_kernel s))) + 2" by (simp add: rounds_def)
  moreover have "sys_handled s' = sys_queued s'" using s'(2,3) by (simp add: system_ok_def)
  ultimately show ?thesis using s' by (intro exI [of _ s']) (simp add: system_ok_def kernel_idle_ok_def)
qed

lemma typed_characters_reach_shell_witness:
  "\<exists>s'. foreground_run (start idle_kernel) 1 s' \<and> cpu_halted (sys_kernel s')"
proof -
  have "rounds (start idle_kernel) = 1"
    using idle_start_ok by (simp add: rounds_def start_def system_ok_def) (simp add: idle_kernel_def ready_kernel_def kernel_static_def)
  then show ?thesis using typed_characters_reach_shell [OF run_start idle_start_ok] by auto
qed

end
