(* ===== verification/Preemption.thy ===== *)
theory Preemption
  imports System
begin

text \<open>
  The shell under preemption.  System takes a call of the shell as one step; here it is its
  statements, down to the single characters of its console output and to single calls of the log,
  and a hardware interrupt may come before each of them.  What the interrupt handlers write is apart from what the shell
  writes, so the call still does what it does alone; a command that prints a counter prints a value
  the counter had while it ran.
\<close>

section \<open>The statements of a call\<close>

type_synonym statement = "kernel \<Rightarrow> kernel option"

text \<open>Output on the console, a character at a time.\<close>

definition characters :: "cstring \<Rightarrow> statement list" where
  "characters t = map con_putc (c_text t)"

text \<open>The commands that print what no variable holds, and their text.\<close>

definition plain_output :: "string \<Rightarrow> string option" where
  "plain_output line =
     (if line = [] then Some []
      else if line = ''help'' then Some help_text
      else if line = ''clear'' then Some [CHR 0x0C]
      else if line = ''version'' then Some (''wigOSX '' @ WIGOSX_VERSION_STRING @ [CHR 0x0A])
      else if line = ''about'' then Some about_text
      else if line = ''scroll'' then Some (concat (map (counter_line ''scroll test line '') [0..<40]))
      else if line \<in> {''ticks'', ''irq'', ''input'', ''mem'', ''pmm'', ''pmm_test'', ''heap'', ''paging''} then None
      else Some (''Unknown command: '' @ line @ [CHR 0x0A] @ ''Type 'help' for available commands.'' @ [CHR 0x0A]))"

text \<open>
  The three commands that read what interrupts change, each read a statement of its own.
\<close>

definition counter_statements :: "string \<Rightarrow> statement \<Rightarrow> statement list" where
  "counter_statements label f = characters label @ [f, con_putc (CHR 0x0A)]"

definition ticks_statements :: "statement list" where
  "ticks_statements =
     counter_statements ''PIT ticks since initialization: '' (\<lambda>k. shell_print_uint32 (ktime_get_ticks (k_pit k)) k)"

definition input_statements :: "statement list" where
  "input_statements =
     counter_statements ''Queued input characters: ''
       (\<lambda>k. shell_print_uint32 (input_get_pending_character_count (k_input k)) k) @
     counter_statements ''Dropped input characters: ''
       (\<lambda>k. shell_print_uint32 (input_get_dropped_character_count (k_input k)) k)"

definition irq_statements :: "statement list" where
  "irq_statements =
     counter_statements ''Interrupt context depth: ''
       (\<lambda>k. shell_print_uint32 (interrupts_get_context_depth (k_interrupts k)) k) @
     counter_statements ''PIT IRQ0 dispatches: ''
       (\<lambda>k. do { n \<leftarrow> interrupts_get_irq_count 0 (k_interrupts k); shell_print_uint32 n k }) @
     counter_statements ''Keyboard IRQ1 dispatches: ''
       (\<lambda>k. do { n \<leftarrow> interrupts_get_irq_count 1 (k_interrupts k); shell_print_uint32 n k }) @
     counter_statements ''Unhandled IRQ dispatches: ''
       (\<lambda>k. shell_print_uint32 (interrupts_get_unhandled_irq_count (k_interrupts k)) k) @
     counter_statements ''Invalid IRQ dispatches: ''
       (\<lambda>k. shell_print_uint32 (interrupts_get_invalid_irq_count (k_interrupts k)) k)"

text \<open>
  The summaries, one statement for each call of the log and for each character the heap command
  writes to the console; the variables they read, \<open>st\<close>, \<open>p\<close>, \<open>v\<close> and \<open>h\<close>, only the foreground writes.  A line of the region table is a statement of
  its own, and so is the allocator's test with its line.
\<close>

definition memory_statements :: "memory \<Rightarrow> statement list" where
  "memory_statements st = [
     log_puts WIGOSX_STAGE_LABEL,
     log_puts (''.'' @ [CHR 0x0A])] @
     (if memory_basic_available st then [
        log_puts ''Lower memory: '', klog_write_uint64 (ucast (memory_lower_kb st)), log_puts ('' KB'' @ [CHR 0x0A]),
        log_puts ''Upper memory: '', klog_write_uint64 (ucast (memory_upper_kb st)), log_puts ('' KB'' @ [CHR 0x0A])]
      else [log_puts (''Basic memory information: unavailable'' @ [CHR 0x0A])]) @
     (if \<not> memory_map_available st then [log_puts (''Memory map: unavailable'' @ [CHR 0x0A])]
      else [
        log_puts (''Memory map: available and normalized'' @ [CHR 0x0A]),
        log_puts ''Stored memory regions: '', klog_write_uint64 (ucast (memory_region_count st)), log_putc (CHR 0x0A),
        log_puts ''Usable memory regions: '', klog_write_uint64 (ucast (memory_usable_region_count st)), log_putc (CHR 0x0A),
        log_puts ''Reserved memory regions: '', klog_write_uint64 (ucast (memory_reserved_region_count st)), log_putc (CHR 0x0A),
        log_puts ''Total usable memory: '', memory_print_kib (memory_total_usable_bytes st), log_putc (CHR 0x0A),
        log_puts ''Total reserved memory: '', memory_print_kib (memory_total_reserved_bytes st), log_putc (CHR 0x0A)] @
        (if memory_map_truncated st
         then [log_puts (''WARNING: memory map truncated; increase MEMORY_MAX_REGIONS.'' @ [CHR 0x0A])] else []) @
        map (memory_print_region st) [0..<unat (memory_region_count st)])"

definition pmm_statements :: "pmm \<Rightarrow> statement list" where
  "pmm_statements st = [
     log_puts WIGOSX_STAGE_LABEL,
     log_puts (''.'' @ [CHR 0x0A]),
     log_puts ''PMM frame size: '', klog_write_uint32 PMM_FRAME_SIZE, log_puts ('' bytes'' @ [CHR 0x0A]),
     log_puts ''Tracked frames: '', klog_write_uint32 (pmm_total_frames st), log_putc (CHR 0x0A),
     log_puts ''Free frames: '', klog_write_uint32 (pmm_free_frames st), log_putc (CHR 0x0A),
     log_puts ''Used/reserved frames: '', klog_write_uint32 (pmm_used_frames st), log_putc (CHR 0x0A)]"

definition paging_statements :: "paging \<Rightarrow> vmm \<Rightarrow> statement list" where
  "paging_statements p v = [
     log_puts ''Virtual memory manager: '',
     (\<lambda>k. if vmm_is_enabled v k then log_puts (''enabled'' @ [CHR 0x0A]) k
          else log_puts (''disabled'' @ [CHR 0x0A]) k),
     log_puts ''Identity-mapped bytes: '',
     klog_write_uint32 (vmm_get_identity_mapped_bytes p),
     log_putc (CHR 0x0A)]"

definition heap_statements :: "heap \<Rightarrow> statement list" where
  "heap_statements h =
     characters ''Heap initialized: '' @
     characters ((if heap_is_initialized h then ''yes'' else ''no'') @ [CHR 0x0A]) @
     counter_statements ''Heap capacity bytes: '' (shell_print_uint32 (heap_get_capacity h)) @
     characters (''Allocator available: no'' @ [CHR 0x0A])"

definition command_statements :: "cstring \<Rightarrow> kernel \<Rightarrow> statement list" where
  "command_statements command k =
     (let line = c_text command in
      case plain_output line of
        Some t \<Rightarrow> map con_putc t
      | None \<Rightarrow>
          if line = ''ticks'' then ticks_statements
          else if line = ''input'' then input_statements
          else if line = ''irq'' then irq_statements
          else if line = ''mem'' then memory_statements (k_memory k)
          else if line = ''pmm'' then pmm_statements (k_pmm k)
          else if line = ''heap'' then heap_statements (k_heap k)
          else if line = ''paging'' then paging_statements (k_paging k) (k_vmm k)
          else [shell_execute_command command])"

definition shell_statements :: "char \<Rightarrow> kernel \<Rightarrow> statement list" where
  "shell_statements c k =
     (if c = CHR 0x0A then
        [con_putc (CHR 0x0A),
         (\<lambda>k. on_shell (shell_store (shell_buffer_length (k_shell k)) NUL) k)] @
        command_statements (acells (shell_buffer (k_shell k))) k @
        [on_shell shell_reset_buffer] @
        characters SHELL_PROMPT
      else if c = CHR 0x08 then
        (if shell_buffer_length (k_shell k) > 0 then
           [on_shell (\<lambda>sh. Some (sh\<lparr>shell_buffer_length := shell_buffer_length sh - 1\<rparr>)),
            on_shell (\<lambda>sh. shell_store (shell_buffer_length sh) NUL sh),
            con_putc (CHR 0x08)]
         else [])
      else if c = CHR 0x09 then []
      else if shell_buffer_length (k_shell k) \<ge> SHELL_BUFFER_SIZE - 1 then
        log_puts ([CHR 0x0A] @ ''[WARNING] Shell input buffer full.'' @ [CHR 0x0A]) # characters SHELL_PROMPT
      else
        [on_shell (\<lambda>sh. shell_store (shell_buffer_length sh) c sh),
         on_shell (\<lambda>sh. Some (sh\<lparr>shell_buffer_length := shell_buffer_length sh + 1\<rparr>)),
         con_putc c])"

text \<open>Together they are the call.\<close>

lemma run_steps_append: "run_steps (fs @ gs) k = Option.bind (run_steps fs k) (run_steps gs)"
proof (induction fs arbitrary: k)
  case (Cons f fs)
  then show ?case by (cases "f k") simp_all
qed simp

lemma run_single [simp]: "run_steps [f] k = f k"
  by (cases "f k") simp_all

text \<open>The console once more, as a sink observed in full: output is exactly the fold of its characters.\<close>

abbreviation prints_exactly :: "statement \<Rightarrow> string \<Rightarrow> bool" where
  "prints_exactly \<equiv> prints_on console_ok (\<lambda>k :: kernel. k) console_putchar (\<lambda>_ _. True)"

lemma writestring_characters:
  assumes "console_ok (k :: kernel)"
  shows "console_writestring (Some t) k = fold console_putchar (c_text t) k"
proof -
  have "fold console_putchar u k = fold terminal_putchar u k" if "console_ok k" for u and k :: kernel
    using that
  proof (induction u arbitrary: k)
    case (Cons c u)
    have "console_ok (console_putchar c k)" "console_initialized k"
      using Cons.prems console.putc [of k c] by (simp_all add: console_ok_def)
    then show ?case using Cons.IH [of "console_putchar c k"] by (simp add: console_putchar_def)
  qed simp
  then show ?thesis using assms by (simp add: console_writestring_def console_ok_def writestring_eq_fold)
qed

interpretation exact: text_sink console_ok "\<lambda>k :: kernel. k" console_putchar "\<lambda>_ _. True" console_putchar
  "\<lambda>t. console_writestring (Some t)"
  by unfold_locales (use console.putc console.put_all writestring_characters in auto)

lemma exactly_eq: "prints_exactly f t \<Longrightarrow> t = u \<Longrightarrow> prints_exactly f u"
  by simp

lemma exactly_runs: "prints_exactly f t \<Longrightarrow> console_ok k \<Longrightarrow> f k = run_steps (map con_putc t) k"
proof -
  assume f: "prints_exactly f t" "console_ok k"
  have "run_steps (map con_putc t) k = Some (fold console_putchar t k)" for k :: kernel
    by (induction t arbitrary: k) simp_all
  then show ?thesis using prints_onD [OF f] by auto
qed

lemma exactly_puts: "c_text s = t \<Longrightarrow> prints_exactly (con_puts s) t"
  using exact.prints_puts by blast

lemma exactly_line: "NUL \<notin> set t \<Longrightarrow> prints_exactly (con_line t) (t @ [CHR 0x0A])"
  by (rule exactly_puts) (simp add: c_text_no_NUL)

lemma exactly_uint32: "prints_exactly (shell_print_uint32 v) (decimal_text (unat v))"
proof -
  have len: "length (decimal_text (unat v)) \<le> 10" by (rule decimal_text_u32)
  let ?buf = "acells (ablit (afill 11 NUL) 0 (decimal_text (unat v) @ [NUL]))"
  have eq: "shell_print_uint32 v = con_puts ?buf"
    using len kformat_decimal_eq [of v 10 11 "afill 11 NUL"]
    by (simp add: shell_print_uint32_def kformat_uint32_decimal_def fun_eq_iff)
  show ?thesis unfolding eq
    by (rule exactly_puts) (use len in \<open>simp add: c_text_ablit decimal_text_no_NUL\<close>)
qed

lemmas exactly_steps = exact.prints_steps list.rel_intros exactly_line exact.prints_putc exactly_uint32 exactly_puts

lemma plain_exactly:
  "prints_exactly shell_command_help help_text"
  "prints_exactly (\<lambda>k. Some (console_clear k)) [CHR 0x0C]"
  "prints_exactly shell_command_version (''wigOSX '' @ WIGOSX_VERSION_STRING @ [CHR 0x0A])"
  "prints_exactly shell_command_about about_text"
  "prints_exactly shell_command_scrolltest (concat (map (counter_line ''scroll test line '') [0..<40]))"
proof -
  show "prints_exactly shell_command_help help_text"
    unfolding shell_command_help_def help_text_def list.map by (intro exactly_steps) simp_all
  have "console_clear k = console_putchar (CHR 0x0C) k" for k :: kernel
    by (simp add: console_clear_def console_putchar_def terminal_putchar_def terminal_form_feed_def)
  then show "prints_exactly (\<lambda>k. Some (console_clear k)) [CHR 0x0C]" using exact.prints_putc by simp
  have "prints_exactly shell_command_version (concat [''wigOSX '', WIGOSX_VERSION_STRING, [CHR 0x0A]])"
    unfolding shell_command_version_def by (intro exactly_steps) (simp_all add: c_text_no_NUL stage_label_no_NUL)
  then show "prints_exactly shell_command_version (''wigOSX '' @ WIGOSX_VERSION_STRING @ [CHR 0x0A])"
    by (rule exactly_eq) simp
  have "prints_exactly shell_command_about (concat [WIGOSX_STAGE_LABEL, ''.'' @ [CHR 0x0A],
     ''Kernel services now use explicit console, logging, panic, input, and interrupt boundaries.'' @ [CHR 0x0A],
     ''Identity paging remains active for the first 16 MiB.'' @ [CHR 0x0A]])"
    unfolding shell_command_about_def
    by (intro exact.prints_steps list.rel_intros exactly_line exactly_puts) (simp_all add: c_text_no_NUL stage_label_no_NUL)
  then show "prints_exactly shell_command_about about_text" by (rule exactly_eq) (simp add: about_text_def)
  show "prints_exactly shell_command_scrolltest (concat (map (counter_line ''scroll test line '') [0..<40]))"
    unfolding shell_command_scrolltest_def
  proof (rule exact.prints_for_range)
    fix i :: nat assume "i < 40"
    then have i: "unat (of_nat i :: u32) = i" by (intro unat_of_nat_u32) simp
    have shown: "prints_exactly (run_steps [con_puts ''scroll test line '', shell_print_uint32 (of_nat i), con_putc (CHR 0x0A)])
        (concat [''scroll test line '', decimal_text (unat (of_nat i :: u32)), [CHR 0x0A]])"
      by (intro exactly_steps) (simp add: c_text_no_NUL)
    show "prints_exactly (run_steps [con_puts ''scroll test line '', shell_print_uint32 (of_nat i), con_putc (CHR 0x0A)])
        (counter_line ''scroll test line '' i)"
      by (rule exactly_eq [OF shown]) (simp add: counter_line_def i)
  qed
qed

lemma unknown_exactly:
  "prints_exactly (run_steps [con_puts ''Unknown command: '', con_puts command, con_putc (CHR 0x0A),
     con_line ''Type 'help' for available commands.''])
   (''Unknown command: '' @ c_text command @ [CHR 0x0A] @ ''Type 'help' for available commands.'' @ [CHR 0x0A])"
proof -
  have shown: "prints_exactly (run_steps [con_puts ''Unknown command: '', con_puts command, con_putc (CHR 0x0A),
     con_line ''Type 'help' for available commands.''])
     (concat [''Unknown command: '', c_text command, [CHR 0x0A], ''Type 'help' for available commands.'' @ [CHR 0x0A]])"
    by (intro exactly_steps) (simp_all add: c_text_no_NUL)
  show ?thesis by (rule exactly_eq [OF shown]) simp
qed

lemma command_exactly:
  assumes "plain_output (c_text command) = Some t"
  shows "prints_exactly (shell_execute_command command) t"
  using assms plain_exactly unknown_exactly [of command] exact.prints_nothing
  unfolding plain_output_def shell_execute_command_def shell_command_is_empty_iff shell_strings_equal_iff
  by (simp add: c_text_no_NUL del: run_steps.simps split: if_splits)

text \<open>Lists of statements that run alike, and the commands that read counters.\<close>

definition same_run :: "statement list \<Rightarrow> statement list \<Rightarrow> bool" where
  "same_run fs gs \<longleftrightarrow> (\<forall>k. console_ok k \<longrightarrow> run_steps fs k = run_steps gs k)"

definition keeps_console :: "statement \<Rightarrow> bool" where
  "keeps_console f \<longleftrightarrow> (\<forall>k k'. console_ok k \<longrightarrow> f k = Some k' \<longrightarrow> console_ok k')"

lemma same_run_refl: "same_run fs fs"
  by (simp add: same_run_def)

lemma same_run_step: "keeps_console f \<Longrightarrow> same_run fs gs \<Longrightarrow> same_run (f # fs) (f # gs)"
  unfolding same_run_def keeps_console_def run_steps.simps
  by (intro allI impI, case_tac "f k") auto

lemma same_run_prints: "prints_exactly f t \<Longrightarrow> same_run fs gs \<Longrightarrow> same_run (map con_putc t @ fs) (f # gs)"
  unfolding same_run_def
proof (intro allI impI)
  fix k :: kernel assume f: "prints_exactly f t" and same: "\<forall>k. console_ok k \<longrightarrow> run_steps fs k = run_steps gs k" and k: "console_ok k"
  from prints_onD [OF f k] obtain k' where "f k = Some k'" "console_ok k'" by blast
  then show "run_steps (map con_putc t @ fs) k = run_steps (f # gs) k"
    using exactly_runs [OF f k] same by (simp add: run_steps_append)
qed

lemma same_run_characters: "same_run fs gs \<Longrightarrow> same_run (characters t @ fs) (con_puts t # gs)"
  unfolding characters_def by (rule same_run_prints [OF exact.prints_puts])

lemma keeps_prints: "prints_exactly f t \<Longrightarrow> keeps_console f"
  by (auto simp: keeps_console_def prints_on_def)

lemma keeps_uint32: "keeps_console (\<lambda>k. shell_print_uint32 (g k) k)"
  using exactly_uint32 by (auto simp: keeps_console_def prints_on_def)

lemma keeps_count: "keeps_console (\<lambda>k. do { n \<leftarrow> g k; shell_print_uint32 n k })"
  using exactly_uint32 by (auto simp: keeps_console_def prints_on_def split: bind_splits)

lemma keeps_shell: "keeps_console (\<lambda>k. on_shell (g k) k)"
  by (auto simp: keeps_console_def on_shell_def split: bind_splits)

lemmas keeps = keeps_uint32 keeps_count keeps_prints [OF exact.prints_putc] keeps_shell

lemma counting_statements:
  "console_ok k \<Longrightarrow> run_steps ticks_statements k = shell_command_ticks k"
  "console_ok k \<Longrightarrow> run_steps input_statements k = shell_command_input k"
  "console_ok k \<Longrightarrow> run_steps irq_statements k = shell_command_irq k"
proof -
  have "same_run ticks_statements [con_puts ''PIT ticks since initialization: '',
     (\<lambda>k. shell_print_uint32 (ktime_get_ticks (k_pit k)) k), con_putc (CHR 0x0A)]"
    unfolding ticks_statements_def counter_statements_def append_assoc append_Cons append_Nil
    by (intro same_run_characters same_run_refl)
  then show "console_ok k \<Longrightarrow> run_steps ticks_statements k = shell_command_ticks k"
    by (simp only: same_run_def shell_command_ticks_def)
  have "same_run input_statements [con_puts ''Queued input characters: '',
     (\<lambda>k. shell_print_uint32 (input_get_pending_character_count (k_input k)) k),
     con_putc (CHR 0x0A),
     con_puts ''Dropped input characters: '',
     (\<lambda>k. shell_print_uint32 (input_get_dropped_character_count (k_input k)) k),
     con_putc (CHR 0x0A)]"
    unfolding input_statements_def counter_statements_def append_assoc append_Cons append_Nil
    by (intro same_run_characters same_run_step keeps same_run_refl)
  then show "console_ok k \<Longrightarrow> run_steps input_statements k = shell_command_input k"
    by (simp only: same_run_def shell_command_input_def)
  have "same_run irq_statements [con_puts ''Interrupt context depth: '',
     (\<lambda>k. shell_print_uint32 (interrupts_get_context_depth (k_interrupts k)) k),
     con_putc (CHR 0x0A),
     con_puts ''PIT IRQ0 dispatches: '',
     (\<lambda>k. do { n \<leftarrow> interrupts_get_irq_count 0 (k_interrupts k); shell_print_uint32 n k }),
     con_putc (CHR 0x0A),
     con_puts ''Keyboard IRQ1 dispatches: '',
     (\<lambda>k. do { n \<leftarrow> interrupts_get_irq_count 1 (k_interrupts k); shell_print_uint32 n k }),
     con_putc (CHR 0x0A),
     con_puts ''Unhandled IRQ dispatches: '',
     (\<lambda>k. shell_print_uint32 (interrupts_get_unhandled_irq_count (k_interrupts k)) k),
     con_putc (CHR 0x0A),
     con_puts ''Invalid IRQ dispatches: '',
     (\<lambda>k. shell_print_uint32 (interrupts_get_invalid_irq_count (k_interrupts k)) k),
     con_putc (CHR 0x0A)]"
    unfolding irq_statements_def counter_statements_def append_assoc append_Cons append_Nil
    by (intro same_run_characters same_run_step keeps same_run_refl)
  then show "console_ok k \<Longrightarrow> run_steps irq_statements k = shell_command_irq k"
    by (simp only: same_run_def shell_command_irq_def)
qed

lemma run_steps_Cons: "f k = Some k' \<Longrightarrow> run_steps (f # fs) k = run_steps fs k'"
  by simp

lemma puts_heap:
  fixes k :: kernel
  assumes "console_ok k"
  obtains k' where "con_puts t k = Some k'" "console_ok k'" "k_heap k' = k_heap k"
proof -
  from prints_onD [OF con_prints_puts [OF refl] assms, of t] obtain k' where
    "con_puts t k = Some k'" "console_ok k'" "klog_frame k k'" by (elim exE conjE)
  then show thesis using that frame_kernel(5) by blast
qed

lemma heap_statements_run:
  assumes k: "console_ok k"
  shows "run_steps (heap_statements (k_heap k)) k = shell_command_heap k"
proof -
  let ?v = "\<lambda>h. (if heap_is_initialized h then ''yes'' else ''no'') @ [CHR 0x0A]"
  let ?tail = "[con_putc (CHR 0x0A), con_line ''Allocator available: no'']"
  have "same_run (heap_statements h) ([con_puts ''Heap initialized: '', con_puts (?v h), con_puts ''Heap capacity bytes: '',
      shell_print_uint32 (heap_get_capacity h)] @ ?tail)" for h
    unfolding heap_statements_def counter_statements_def append_assoc append_Cons append_Nil
    by (intro same_run_characters same_run_step keeps same_run_characters [where fs = "[]" and gs = "[]", unfolded append_Nil2] same_run_refl)
  then have flat: "run_steps (heap_statements (k_heap k)) k = run_steps ([con_puts ''Heap initialized: '',
      con_puts (?v (k_heap k)), con_puts ''Heap capacity bytes: '',
      shell_print_uint32 (heap_get_capacity (k_heap k))] @ ?tail) k"
    using k by (simp only: same_run_def)
  obtain k1 where 1: "con_puts ''Heap initialized: '' k = Some k1" "console_ok k1" "k_heap k1 = k_heap k" by (rule puts_heap [OF k])
  obtain k2 where 2: "con_puts (?v (k_heap k)) k1 = Some k2" "console_ok k2" "k_heap k2 = k_heap k1" by (rule puts_heap [OF 1(2)])
  obtain k3 where 3: "con_puts ''Heap capacity bytes: '' k2 = Some k3" "console_ok k3" "k_heap k3 = k_heap k2" by (rule puts_heap [OF 2(2)])
  have same: "k_heap k1 = k_heap k" "k_heap k2 = k_heap k" "k_heap k3 = k_heap k" using 1(3) 2(3) 3(3) by simp_all
  have yes: "(\<lambda>k. con_puts (?v (k_heap k)) k) k1 = Some k2" using 2(1) by (simp only: same)
  show ?thesis
    unfolding flat shell_command_heap_def append_Cons append_Nil
      run_steps_Cons [where f = "con_puts ''Heap initialized: ''", OF 1(1)]
      run_steps_Cons [where f = "con_puts (?v (k_heap k))", OF 2(1)]
      run_steps_Cons [where f = "\<lambda>k. con_puts (?v (k_heap k)) k", OF yes]
      run_steps_Cons [where f = "con_puts ''Heap capacity bytes: ''", OF 3(1)]
    by (simp only: run_steps.simps same)
qed

lemma for_range_statements: "run_steps (map body [a..<b]) = for_range a b body"
proof (induction "b - a" arbitrary: a)
  case 0
  then show ?case by (simp add: fun_eq_iff)
next
  case (Suc n)
  then have ab: "a < b" and rest: "run_steps (map body [Suc a..<b]) = for_range (Suc a) b body" by simp_all
  show ?case by (rule ext) (simp add: upt_conv_Cons [OF ab] for_range_step [OF ab] rest)
qed

lemma run_appended: "run_steps (fs @ gs) = (\<lambda>k. Option.bind (run_steps fs k) (run_steps gs))"
  by (simp add: fun_eq_iff run_steps_append)

lemma run_one: "run_steps [f] = f"
  by (rule ext) (rule run_single)

lemma summary_statements:
  "run_steps (memory_statements st) k = memory_print_summary st k"
  "run_steps (pmm_statements p) k = pmm_print_summary p k"
  "run_steps (paging_statements g v) k = vmm_print_summary g v k"
proof -
  show "run_steps (pmm_statements p) k = pmm_print_summary p k" "run_steps (paging_statements g v) k = vmm_print_summary g v k"
    by (simp_all only: pmm_statements_def pmm_print_summary_def paging_statements_def vmm_print_summary_def)
  show "run_steps (memory_statements st) k = memory_print_summary st k"
    unfolding memory_statements_def memory_print_summary_def run_appended
    by (cases "memory_map_available st") (simp_all only: if_True if_False simp_thms run_appended run_one for_range_statements)
qed

lemma command_statements_run:
  assumes "console_ok k"
  shows "run_steps (command_statements command k) k = shell_execute_command command k"
proof (cases "plain_output (c_text command)")
  case (Some t)
  then show ?thesis using exactly_runs [OF command_exactly [OF Some] assms] Some
    by (simp add: command_statements_def)
next
  case None
  have one: "run_steps [shell_execute_command command] k = shell_execute_command command k" by (rule run_single)
  show ?thesis
    unfolding command_statements_def Let_def None option.case shell_execute_command_def [of command k]
      shell_command_is_empty_iff shell_strings_equal_iff
    using None
    by (simp add: plain_output_def counting_statements [OF assms] heap_statements_run [OF assms] summary_statements c_text_no_NUL one del: run_steps.simps
        split: if_splits) (simp add: shell_execute_command_def shell_command_is_empty_iff shell_strings_equal_iff c_text_no_NUL)
qed

lemma command_statements_cong:
  "k_memory k1 = k_memory k \<Longrightarrow> k_pmm k1 = k_pmm k \<Longrightarrow> k_paging k1 = k_paging k \<Longrightarrow> k_vmm k1 = k_vmm k \<Longrightarrow>
     k_heap k1 = k_heap k \<Longrightarrow> command_statements command k1 = command_statements command k"
  by (simp only: command_statements_def)

lemma keeps_log: "keeps_console (log_puts t)"
  using klog.puts by (auto simp: keeps_console_def)

lemma store_end:
  assumes "shell_ok sh"
  shows "shell_store (shell_buffer_length sh) NUL sh = Some sh"
proof -
  have n: "unat (shell_buffer_length sh) < 64" using assms by (simp add: shell_ok_def)
  then have "(acell (shell_buffer sh))(unat (shell_buffer_length sh) := NUL) = acell (shell_buffer sh)"
    using assms by (auto simp: shell_ok_def)
  moreover have "CArray 64 (acell (shell_buffer sh)) = shell_buffer sh"
    using assms by (cases "shell_buffer sh") (simp add: shell_ok_def)
  ultimately show ?thesis using shell_store_spec [OF assms n, of NUL] by simp
qed

text \<open>The statements of a call are the call.\<close>

lemma newline_statements_run:
  assumes k: "kernel_ok k"
  shows "run_steps (shell_statements (CHR 0x0A) k) k = run_steps [
          con_putc (CHR 0x0A),
          (\<lambda>k. on_shell (shell_store (shell_buffer_length (k_shell k)) NUL) k),
          (\<lambda>k. shell_execute_command (acells (shell_buffer (k_shell k))) k),
          on_shell shell_reset_buffer,
          shell_print_prompt] k"
proof -
  let ?cmd = "acells (shell_buffer (k_shell k))"
  have sh: "shell_ok (k_shell k)" using k by (simp add: kernel_ok_def)
  from step_prints [OF con_prints_putc k, of "CHR 0x0A"] obtain k1 where
    1: "con_putc (CHR 0x0A) k = Some k1" "shell_step k k1 [CHR 0x0A] (k_shell k)" by blast
  have k1: "kernel_ok k1" by (rule kernel_ok_step [OF k 1(2) sh])
  have "klog_frame k k1" using prints_onD [OF con_prints_putc kernel_ok_prints(1) [OF k], of "CHR 0x0A"] 1(1) by auto
  then have same: "command_statements ?cmd k = command_statements ?cmd k1"
    by (intro command_statements_cong) (simp_all add: frame_kernel)
  have sh1: "k_shell k1 = k_shell k" using shell_step_fields [OF 1(2)] by simp
  have store: "on_shell (shell_store (shell_buffer_length (k_shell k1)) NUL) k1 = Some k1"
    unfolding on_shell_def sh1 store_end [OF sh] by (simp flip: sh1)
  from step_shows [OF execute_command_text [OF k1, of ?cmd]] obtain k3 t where
    3: "shell_execute_command ?cmd k1 = Some k3" "shell_step k1 k3 t (k_shell k1)" by blast
  have con: "console_ok k1" "console_ok k3" using k1 3(2) by (simp_all add: kernel_ok_def shell_step_def)
  have "same_run (on_shell shell_reset_buffer # characters SHELL_PROMPT @ []) [on_shell shell_reset_buffer, con_puts SHELL_PROMPT]"
    by (intro same_run_step keeps same_run_characters same_run_refl)
  then have tail: "run_steps (on_shell shell_reset_buffer # characters SHELL_PROMPT) k3 =
      run_steps [on_shell shell_reset_buffer, shell_print_prompt] k3"
    using con(2) by (simp add: same_run_def shell_print_prompt_def del: run_steps.simps)
  have "run_steps (shell_statements (CHR 0x0A) k) k =
      run_steps (command_statements ?cmd k1 @ on_shell shell_reset_buffer # characters SHELL_PROMPT) k1"
    using 1(1) store by (simp add: shell_statements_def same)
  also have "\<dots> = run_steps [on_shell shell_reset_buffer, shell_print_prompt] k3"
    by (simp only: run_steps_append command_statements_run [OF con(1)] 3(1) tail bind.bind_lunit)
  finally show ?thesis using 1(1) store 3(1) sh1 by simp
qed

lemma shell_statements_run:
  assumes k: "kernel_ok k" and ctx: "interrupt_context_depth (k_interrupts k) = 0"
  shows "shell_handle_character c k = returning (run_steps (shell_statements c k)) k"
proof -
  let ?warning = "log_puts ([CHR 0x0A] @ ''[WARNING] Shell input buffer full.'' @ [CHR 0x0A])"
  have not_in: "interrupts_is_in_context (k_interrupts k) = False" using ctx by (simp add: interrupts_is_in_context_def)
  have "same_run (?warning # characters SHELL_PROMPT @ []) [?warning, con_puts SHELL_PROMPT]"
    by (intro same_run_step keeps_log same_run_characters same_run_refl)
  then have full: "run_steps (?warning # characters SHELL_PROMPT) k = run_steps [?warning, shell_print_prompt] k"
    using k by (simp add: same_run_def shell_print_prompt_def kernel_ok_def del: run_steps.simps)
  show ?thesis
  proof (cases "c = CHR 0x0A")
    case True
    then show ?thesis using newline_statements_run [OF k] not_in
      by (simp add: shell_handle_character_def returning_def del: run_steps.simps)
  next
    case False
    then show ?thesis using full not_in
      by (simp add: shell_handle_character_def shell_statements_def returning_def del: run_steps.simps) simp
  qed
qed

section \<open>Preemption\<close>

text \<open>What is left of a call, and the kernel: the next statement runs, or an interrupt comes first.\<close>

inductive preempt_step :: "statement list \<times> kernel \<Rightarrow> statement list \<times> kernel \<Rightarrow> bool" where
  statement: "f k = Some k' \<Longrightarrow> preempt_step (f # fs, k) (fs, k')"
| interrupt:
    "reg_if k \<Longrightarrow> hardware_frame fr \<Longrightarrow> irq_handler (Some fr) (k\<lparr>reg_if := False\<rparr>) = Some (Returned k') \<Longrightarrow>
     preempt_step (fs, k) (fs, k'\<lparr>reg_if := True\<rparr>)"

inductive_cases preempt_stepE: "preempt_step c c'"

text \<open>
  The kernel during a call that began in \<open>k0\<close>: the shell's variables are \<open>sh\<close>, one of the texts \<open>T\<close>
  has been shown, interrupts have at most queued characters.  In the middle of an edit the line is
  not yet the one the invariant describes, but it stays inside its buffer.
\<close>

definition shell_typed :: "shell \<Rightarrow> bool" where
  "shell_typed sh \<longleftrightarrow> alen (shell_buffer sh) = 64 \<and> unat (shell_buffer_length sh) < 64"

lemma shell_ok_typed: "shell_ok sh \<Longrightarrow> shell_typed sh"
  by (simp add: shell_ok_def shell_typed_def)

definition during_call :: "kernel \<Rightarrow> shell \<Rightarrow> string set \<Rightarrow> kernel \<Rightarrow> bool" where
  "during_call k0 sh T k \<longleftrightarrow> console_ok k \<and> input_ok (k_input k) \<and> interrupts_wf (k_interrupts k) \<and>
     interrupt_context_depth (k_interrupts k) = 0 \<and> reg_if k \<and> \<not> cpu_halted k \<and> system_const k0 k \<and> k_shell k = sh \<and>
     shell_typed sh \<and>
     (\<exists>t \<in> T. screen k = fold ts_putchar t (screen k0)) \<and>
     (\<exists>u. queue_contents (k_input k) = queue_contents (k_input k0) @ u)"

lemma during_call_start:
  assumes "kernel_idle_ok k" "\<not> cpu_halted k"
  shows "during_call k (k_shell k) {[]} k"
  using assms by (auto simp: during_call_def kernel_idle_ok_def kernel_ok_def system_const_def same_frames_def same_but_search_def shell_ok_typed)

lemma during_call_ok: "during_call k0 sh T k \<Longrightarrow> kernel_ok k0 \<Longrightarrow> shell_ok sh \<Longrightarrow> kernel_ok k"
  by (auto simp: during_call_def kernel_ok_def system_const_def same_frames_def)

lemma during_call_interrupt:
  assumes "during_call k0 sh T k" "hardware_frame fr"
  shows "\<exists>k'. irq_handler (Some fr) (k\<lparr>reg_if := False\<rparr>) = Some (Returned k') \<and> during_call k0 sh T (k'\<lparr>reg_if := True\<rparr>) \<and>
     queue_contents (k_input k') = queue_contents (k_input k) @ typed_char (handler_of (k_interrupts k) (frame_irq fr)) k"
proof -
  let ?k = "k\<lparr>reg_if := False\<rparr>"
  have k: "console_ok ?k" "input_ok (k_input ?k)" "interrupts_wf (k_interrupts ?k)"
    "interrupt_context_depth (k_interrupts ?k) \<noteq> UINT32_MAX"
    using assms(1) by (simp_all add: during_call_def UINT32_MAX_def)
  from irq_handler_spec [OF k assms(2)] obtain k' st where
    k': "irq_handler (Some fr) ?k = Some (Returned k')" "dispatched (of_nat (frame_irq fr)) (k_interrupts ?k) st"
      "irq_effect (handler_of (k_interrupts ?k) (frame_irq fr)) (eoi_events (frame_irq fr)) st ?k k'" by blast
  note fields = irq_effect_fields [OF k'(3)]
  have "system_const k0 (k'\<lparr>reg_if := True\<rparr>)"
    using assms(1) fields k'(2) by (simp add: during_call_def system_const_def dispatched_def)
  moreover have "interrupts_wf st" "interrupt_context_depth st = 0"
    using k'(2) assms(1) by (simp_all add: dispatched_def during_call_def)
  ultimately have "during_call k0 sh T (k'\<lparr>reg_if := True\<rparr>)"
    using assms(1) fields by (auto simp: during_call_def)
  then show ?thesis using k'(1) fields by auto
qed

text \<open>
  One statement takes every state of one kind to a state of another and writes nothing the
  handlers write, and a list one after the other.
\<close>

definition keeps_handlers :: "kernel \<Rightarrow> kernel \<Rightarrow> bool" where
  "keeps_handlers k k' \<longleftrightarrow> k_input k' = k_input k \<and> k_interrupts k' = k_interrupts k \<and> k_pit k' = k_pit k \<and>
     k_keyboard k' = k_keyboard k"

definition statement_effect :: "kernel \<Rightarrow> shell \<times> string set \<Rightarrow> statement \<Rightarrow> shell \<times> string set \<Rightarrow> bool" where
  "statement_effect k0 a f b \<longleftrightarrow>
     (\<forall>k. during_call k0 (fst a) (snd a) k \<longrightarrow>
        (\<exists>k'. f k = Some k' \<and> during_call k0 (fst b) (snd b) k' \<and> keeps_handlers k k'))"

fun leads_to :: "kernel \<Rightarrow> shell \<times> string set \<Rightarrow> statement list \<Rightarrow> shell \<times> string set \<Rightarrow> bool" where
  "leads_to k0 a [] b \<longleftrightarrow> a = b"
| "leads_to k0 a (f # fs) b \<longleftrightarrow> (\<exists>c. statement_effect k0 a f c \<and> leads_to k0 c fs b)"

lemma leads_to_append: "leads_to k0 a fs b \<Longrightarrow> leads_to k0 b gs c \<Longrightarrow> leads_to k0 a (fs @ gs) c"
  by (induction fs arbitrary: a) auto

lemma preempt_step_keeps:
  assumes "preempt_step (fs, k) (fs', k')" "leads_to k0 a fs b" "during_call k0 (fst a) (snd a) k"
  shows "\<exists>a'. leads_to k0 a' fs' b \<and> during_call k0 (fst a') (snd a') k'"
  using assms(1)
proof (cases rule: preempt_stepE [consumes 1, case_names statement interrupt])
  case (statement f)
  from assms(2) statement(1) obtain d where "statement_effect k0 a f d" "leads_to k0 d fs' b" using statement(2) by auto
  then show ?thesis using assms(3) statement by (force simp: statement_effect_def)
next
  case interrupt
  then show ?thesis using assms(2,3) during_call_interrupt [OF assms(3)] by fastforce
qed

lemma preempted_call:
  assumes "preempt_step\<^sup>*\<^sup>* (fs, k) (fs', k')" "leads_to k0 a fs b" "during_call k0 (fst a) (snd a) k"
  shows "\<exists>a'. leads_to k0 a' fs' b \<and> during_call k0 (fst a') (snd a') k'"
  using assms
proof (induction "(fs, k)" arbitrary: fs k a rule: converse_rtranclp_induct)
  case base
  then show ?case by blast
next
  case (step y)
  obtain gs l where y: "y = (gs, l)" by (cases y)
  from preempt_step_keeps [OF step.hyps(1) [unfolded y] step.prems] step.hyps(3) [OF y] show ?case by blast
qed

section \<open>What the statements of a call lead to\<close>

definition texts :: "string set \<Rightarrow> string set \<Rightarrow> string set" where
  "texts T U = {t @ u | t u. t \<in> T \<and> u \<in> U}"

lemma texts_assoc: "texts (texts T U) V = texts T (texts U V)"
  unfolding texts_def by (auto; metis append.assoc)

lemma texts_unit [simp]: "texts T {[]} = T" "texts {[]} T = T"
  by (auto simp: texts_def)

lemma texts_one: "texts {t} {u} = {t @ u}"
  by (auto simp: texts_def)

definition outputs :: "kernel \<Rightarrow> statement list \<Rightarrow> string set \<Rightarrow> bool" where
  "outputs k0 fs U \<longleftrightarrow> (\<forall>T sh. shell_ok sh \<longrightarrow> leads_to k0 (sh, T) fs (sh, texts T U))"

lemma outputs_nothing: "outputs k0 [] {[]}"
  by (simp add: outputs_def)

lemma outputs_append: "outputs k0 fs U \<Longrightarrow> outputs k0 gs V \<Longrightarrow> outputs k0 (fs @ gs) (texts U V)"
  unfolding outputs_def using leads_to_append by (fastforce simp flip: texts_assoc)

lemma outputs_Cons: "outputs k0 [f] U \<Longrightarrow> outputs k0 gs V \<Longrightarrow> outputs k0 (f # gs) (texts U V)"
  using outputs_append [of k0 "[f]" U gs V] by simp

lemma outputs_shows:
  assumes k0: "kernel_ok k0" and f: "\<And>k. kernel_ok k \<Longrightarrow> system_const k0 k \<Longrightarrow> \<exists>t \<in> U. shows_text k (f k) t"
  shows "outputs k0 [f] U"
proof -
  have "\<exists>k'. f k = Some k' \<and> during_call k0 sh (texts T U) k' \<and> keeps_handlers k k'" if sh: "shell_ok sh" and k: "during_call k0 sh T k" for sh T k
  proof -
    have ok: "kernel_ok k" and const: "system_const k0 k" using during_call_ok [OF k k0 sh] k by (simp_all add: during_call_def)
    from f [OF ok const] obtain t where t: "t \<in> U" "shows_text k (f k) t" by blast
    from step_shows [OF t(2)] obtain k' where k': "f k = Some k'" "shell_step k k' t (k_shell k)" by blast
    note fields = shell_step_fields [OF k'(2)]
    have shown: "console_ok k'" "screen k' = fold ts_putchar t (screen k)" using k'(2) by (simp_all add: shell_step_def)
    from k obtain s where s: "s \<in> T" "screen k = fold ts_putchar s (screen k0)" by (auto simp: during_call_def)
    have "s @ t \<in> texts T U" using s(1) t(1) by (auto simp: texts_def)
    moreover have "screen k' = fold ts_putchar (s @ t) (screen k0)" using shown(2) s(2) by simp
    moreover have "system_const k0 k'"
      using const fields same_frames_trans [of "k_pmm k0" "k_pmm k" "k_pmm k'"] by (simp add: system_const_def)
    ultimately have "during_call k0 sh (texts T U) k'"
      using k fields shown(1) unfolding during_call_def by metis
    then show ?thesis using k'(1) fields by (auto simp: keeps_handlers_def)
  qed
  then show ?thesis by (auto simp: outputs_def statement_effect_def)
qed

lemma outputs_prints: "kernel_ok k0 \<Longrightarrow> log_prints f t \<Longrightarrow> outputs k0 [f] {t}"
  by (rule outputs_shows) (auto intro: shows_log)

lemma outputs_put_all: "kernel_ok k0 \<Longrightarrow> outputs k0 (map con_putc u) {u}"
proof (induction u)
  case (Cons c u)
  then show ?case using outputs_Cons [OF outputs_prints [OF Cons.prems con_prints_putc], of "map con_putc u" "{u}"]
    by (simp add: texts_one)
qed (simp add: outputs_nothing)

lemma outputs_characters: "kernel_ok k0 \<Longrightarrow> NUL \<notin> set t \<Longrightarrow> outputs k0 (characters t) {t}"
  using outputs_put_all [of k0 t] by (simp add: characters_def c_text_no_NUL)

text \<open>A label, a number read at that moment, and the end of the line.\<close>

definition counter_lines :: "string \<Rightarrow> string set" where
  "counter_lines label = range (counter_line label)"

lemma outputs_counter:
  assumes k0: "kernel_ok k0" and label: "NUL \<notin> set label"
    and f: "\<And>k. kernel_ok k \<Longrightarrow> \<exists>n. f k = shell_print_uint32 n k"
  shows "outputs k0 (counter_statements label f) (counter_lines label)"
proof -
  have "outputs k0 [f] (range decimal_text)"
  proof (rule outputs_shows [OF k0])
    fix k assume k: "kernel_ok k"
    from f [OF k] obtain n where "f k = shell_print_uint32 n k" by blast
    then have "shows_text k (f k) (decimal_text (unat n))" using shows_log [OF con_prints_uint32 k] by simp
    then show "\<exists>t \<in> range decimal_text. shows_text k (f k) t" by blast
  qed
  from outputs_append [OF outputs_characters [OF k0 label] outputs_Cons [OF this outputs_prints [OF k0 con_prints_putc]]]
  show ?thesis unfolding counter_statements_def
    by (rule back_subst [where P = "outputs k0 _"]) (auto simp: texts_def counter_lines_def counter_line_def)
qed

text \<open>What a command may show when interrupts come in between.\<close>

definition possible_outputs :: "string \<Rightarrow> kernel \<Rightarrow> string set" where
  "possible_outputs line k =
     (if line = ''ticks'' then counter_lines ''PIT ticks since initialization: ''
      else if line = ''input'' then texts (counter_lines ''Queued input characters: '') (counter_lines ''Dropped input characters: '')
      else if line = ''irq'' then
        texts (counter_lines ''Interrupt context depth: '') (texts (counter_lines ''PIT IRQ0 dispatches: '')
          (texts (counter_lines ''Keyboard IRQ1 dispatches: '') (texts (counter_lines ''Unhandled IRQ dispatches: '')
            (counter_lines ''Invalid IRQ dispatches: ''))))
      else {command_output line k})"

definition possible_echo :: "char \<Rightarrow> string \<Rightarrow> kernel \<Rightarrow> string set" where
  "possible_echo c line k =
     (if c = CHR 0x0A then texts {[CHR 0x0A]} (texts (possible_outputs (c_text line) k) {SHELL_PROMPT})
      else {line_echo c line k})"

lemma counter_possible: "counter_line label n \<in> counter_lines label"
  by (simp add: counter_lines_def)

lemma textsI: "t \<in> T \<Longrightarrow> u \<in> U \<Longrightarrow> t @ u \<in> texts T U"
  by (auto simp: texts_def)

lemma output_possible: "command_output line k \<in> possible_outputs line k"
  unfolding possible_outputs_def command_output_cases irq_text_def
  by (auto intro!: textsI counter_possible)

lemma echo_possible: "line_echo c line k \<in> possible_echo c line k"
  unfolding possible_echo_def line_echo_def using output_possible
  by (auto intro!: textsI simp flip: append_Cons append_Nil)

lemma output_const:
  assumes "system_const k0 k" "pmm_running (k_pmm k0)" "line \<noteq> ''ticks''" "line \<noteq> ''input''" "line \<noteq> ''irq''"
  shows "command_output line k = command_output line k0"
proof -
  have same: "k_memory k = k_memory k0" "k_heap k = k_heap k0" "k_paging k = k_paging k0" "k_vmm k = k_vmm k0" "reg_cr0 k = reg_cr0 k0"
    "free_set (k_pmm k) = free_set (k_pmm k0)" and frames: "same_frames (k_pmm k0) (k_pmm k)"
    using assms(1) by (simp_all add: system_const_def same_frames_def)
  have "unat (pmm_total_frames (k_pmm k)) = unat (pmm_total_frames (k_pmm k0))"
    using frames assms(2) unfolding same_frames_def pmm_running_def pmm_inv_def pmm_wf_def by metis
  then have "pmm_summary_text (k_pmm k) = pmm_summary_text (k_pmm k0)"
    using frames by (simp add: same_frames_def pmm_summary_text_def)
  moreover have "vmm_is_enabled (k_vmm k) k = vmm_is_enabled (k_vmm k0) k0"
    using same by (simp add: vmm_is_enabled_def i386_paging_is_enabled_def i386_read_cr0_def)
  ultimately show ?thesis unfolding command_output_cases by (simp only: same assms(3-5) if_False)
qed

text \<open>Every command.\<close>

lemma outputs_all: "list_all2 log_prints fs ts \<Longrightarrow> kernel_ok k0 \<Longrightarrow> outputs k0 fs {concat ts}"
proof (induction rule: list_all2_induct)
  case (Cons f fs t ts)
  then show ?case using outputs_Cons [OF outputs_prints [of k0 f t], of fs "{concat ts}"] by (simp add: texts_one)
qed (simp add: outputs_nothing)

lemma outputs_eq: "outputs k0 fs U \<Longrightarrow> U = V \<Longrightarrow> outputs k0 fs V"
  by simp

lemma outputs_pmm: "kernel_ok k0 \<Longrightarrow> outputs k0 (pmm_statements st) {pmm_summary_text st}"
proof -
  assume k0: "kernel_ok k0"
  have "decimal_text (unat PMM_FRAME_SIZE) = ''4096''"
    by (simp add: PMM_FRAME_SIZE_def decimal_text_def rdigits_pos char_of_def bit_0)
  moreover have "outputs k0 (pmm_statements st) {concat [WIGOSX_STAGE_LABEL, ''.'' @ [CHR 0x0A],
      ''PMM frame size: '', decimal_text (unat PMM_FRAME_SIZE), '' bytes'' @ [CHR 0x0A],
      ''Tracked frames: '', decimal_text (unat (pmm_total_frames st)), [CHR 0x0A],
      ''Free frames: '', decimal_text (unat (pmm_free_frames st)), [CHR 0x0A],
      ''Used/reserved frames: '', decimal_text (unat (pmm_used_frames st)), [CHR 0x0A]]}"
    unfolding pmm_statements_def by (intro outputs_all [OF _ k0] log_prints_all) (simp_all add: c_text_no_NUL)
  ultimately show ?thesis by (simp add: pmm_summary_text_def)
qed

lemma outputs_memory:
  assumes k0: "kernel_ok k0" and n: "unat (memory_region_count st) \<le> alen (memory_regions st)"
  shows "outputs k0 (memory_statements st) {memory_summary_text st}"
proof -
  let ?c = "\<lambda>v. decimal_text (unat (ucast v :: u64))"
  let ?regions = "map (\<lambda>i. region_text i (acell (memory_regions st) i)) [0..<unat (memory_region_count st)]"
  have regions: "list_all2 log_prints (map (memory_print_region st) [0..<unat (memory_region_count st)] :: statement list) ?regions"
    using n unat_lt_u32 [of "memory_region_count st"] by (auto simp: list_all2_conv_all_nth intro!: log_prints_region)
  have "list_all2 log_prints (memory_statements st) ([WIGOSX_STAGE_LABEL, ''.'' @ [CHR 0x0A]] @
     (if memory_basic_available st then [
        ''Lower memory: '', ?c (memory_lower_kb st), '' KB'' @ [CHR 0x0A],
        ''Upper memory: '', ?c (memory_upper_kb st), '' KB'' @ [CHR 0x0A]]
      else [''Basic memory information: unavailable'' @ [CHR 0x0A]]) @
     (if \<not> memory_map_available st then [''Memory map: unavailable'' @ [CHR 0x0A]]
      else [''Memory map: available and normalized'' @ [CHR 0x0A],
        ''Stored memory regions: '', ?c (memory_region_count st), [CHR 0x0A],
        ''Usable memory regions: '', ?c (memory_usable_region_count st), [CHR 0x0A],
        ''Reserved memory regions: '', ?c (memory_reserved_region_count st), [CHR 0x0A],
        ''Total usable memory: '', kib_text (unat (memory_total_usable_bytes st)), [CHR 0x0A],
        ''Total reserved memory: '', kib_text (unat (memory_total_reserved_bytes st)), [CHR 0x0A]] @
        (if memory_map_truncated st
         then [''WARNING: memory map truncated; increase MEMORY_MAX_REGIONS.'' @ [CHR 0x0A]] else []) @ ?regions))"
    unfolding memory_statements_def
    by (intro list_all2_appendI;
        cases "memory_basic_available st"; cases "memory_map_available st"; cases "memory_map_truncated st";
        simp only: if_True if_False simp_thms append.simps; intro list_all2_appendI regions log_prints_all; simp add: c_text_no_NUL)
  from outputs_all [OF this k0] show ?thesis
    by (rule outputs_eq) (simp add: memory_summary_text_def)
qed

lemma outputs_paging:
  assumes k0: "kernel_ok k0"
  shows "outputs k0 (paging_statements (k_paging k0) (k_vmm k0))
     {vmm_summary_text (vmm_is_enabled (k_vmm k0) k0) (vmm_get_identity_mapped_bytes (k_paging k0))}"
proof -
  let ?v = "k_vmm k0" and ?n = "vmm_get_identity_mapped_bytes (k_paging k0)"
  let ?e = "(if vmm_is_enabled ?v k0 then ''enabled'' else ''disabled'') @ [CHR 0x0A]"
  let ?f = "\<lambda>k. if vmm_is_enabled ?v k then log_puts (''enabled'' @ [CHR 0x0A]) k else log_puts (''disabled'' @ [CHR 0x0A]) k"
  have e: "outputs k0 [?f] {?e}"
  proof (rule outputs_shows [OF k0])
    fix k assume k: "kernel_ok k" "system_const k0 k"
    then have "vmm_is_enabled ?v k = vmm_is_enabled ?v k0"
      by (simp add: system_const_def vmm_is_enabled_def i386_paging_is_enabled_def i386_read_cr0_def)
    then have "?f k = log_puts ?e k" by simp
    then show "\<exists>t \<in> {?e}. shows_text k (?f k) t"
      using shows_log [OF log_prints_puts [of ?e ?e] k(1)] by (simp add: c_text_no_NUL)
  qed
  have head: "outputs k0 [log_puts ''Virtual memory manager: ''] {''Virtual memory manager: ''}"
    by (intro outputs_prints [OF k0] log_prints_puts) (simp add: c_text_no_NUL)
  have tail: "outputs k0 [log_puts ''Identity-mapped bytes: '', klog_write_uint32 ?n, log_putc (CHR 0x0A)]
      {concat [''Identity-mapped bytes: '', decimal_text (unat ?n), [CHR 0x0A]]}"
    by (intro outputs_all [OF _ k0] log_prints_all) (simp_all add: c_text_no_NUL)
  from outputs_Cons [OF head outputs_Cons [OF e tail]] show ?thesis
    unfolding paging_statements_def by (rule outputs_eq) (simp add: texts_one vmm_summary_text_def)
qed

definition heap_text :: "heap \<Rightarrow> string" where
  "heap_text h = ''Heap initialized: '' @ (if heap_initialized h then ''yes'' else ''no'') @ [CHR 0x0A] @
     counter_line ''Heap capacity bytes: '' (unat (heap_get_capacity h)) @ ''Allocator available: no'' @ [CHR 0x0A]"

lemma outputs_heap:
  assumes k0: "kernel_ok k0"
  shows "outputs k0 (heap_statements h) {heap_text h}"
proof -
  let ?v = "(if heap_is_initialized h then ''yes'' else ''no'') @ [CHR 0x0A]"
  have number: "outputs k0 (counter_statements label (shell_print_uint32 n)) {counter_line label (unat n)}"
    if "NUL \<notin> set label" for label n
    using outputs_append [OF outputs_characters [OF k0 that] outputs_Cons [OF outputs_prints [OF k0 con_prints_uint32]
        outputs_prints [OF k0 con_prints_putc]]]
    unfolding counter_statements_def by (rule outputs_eq) (simp add: texts_one counter_line_def)
  have labels: "NUL \<notin> set ''Heap initialized: ''" "NUL \<notin> set ?v" "NUL \<notin> set ''Heap capacity bytes: ''"
    "NUL \<notin> set (''Allocator available: no'' @ [CHR 0x0A])" by simp_all
  note chars = outputs_characters [OF k0]
  from outputs_append [OF chars [OF labels(1)] outputs_append [OF chars [OF labels(2)]
      outputs_append [OF number [OF labels(3)] chars [OF labels(4)]]]]
  show ?thesis unfolding heap_statements_def
    by (rule outputs_eq) (simp add: texts_one heap_text_def heap_is_initialized_def)
qed

lemma count_read: "kernel_ok k \<Longrightarrow> unat i < 16 \<Longrightarrow>
    \<exists>n. Option.bind (interrupts_get_irq_count i (k_interrupts k)) (\<lambda>n. shell_print_uint32 n k) = shell_print_uint32 n k"
  by (simp add: kernel_ok_def interrupts_get_irq_count_def irq_in_range interrupts_wf_def) blast

lemma outputs_command:
  assumes k0: "kernel_ok k0"
  shows "outputs k0 (command_statements command k0) (possible_outputs (c_text command) k0)"
proof (cases "plain_output (c_text command)")
  case (Some t)
  have "possible_outputs (c_text command) k0 = {t}"
    using Some unfolding plain_output_def possible_outputs_def command_output_cases
    by (auto split: if_splits)
  then show ?thesis using outputs_put_all [OF k0, of t] Some by (simp add: command_statements_def)
next
  case None
  have other: "outputs k0 [shell_execute_command command] {command_output (c_text command) k0}"
    if "c_text command \<noteq> ''ticks''" "c_text command \<noteq> ''input''" "c_text command \<noteq> ''irq''"
  proof (rule outputs_shows [OF k0])
    fix k assume k: "kernel_ok k" "system_const k0 k"
    have "pmm_running (k_pmm k0)" using k0 by (simp add: kernel_ok_def)
    from output_const [OF k(2) this that] execute_command_text [OF k(1), of command]
    show "\<exists>t \<in> {command_output (c_text command) k0}. shows_text k (shell_execute_command command k) t" by simp
  qed
  note counters = outputs_counter [OF k0]
  have ticks: "outputs k0 ticks_statements (counter_lines ''PIT ticks since initialization: '')"
    unfolding ticks_statements_def by (intro counters) auto
  have input: "outputs k0 input_statements
      (texts (counter_lines ''Queued input characters: '') (counter_lines ''Dropped input characters: ''))"
    unfolding input_statements_def by (intro outputs_append counters) auto
  have "outputs k0 irq_statements
      (texts (counter_lines ''Interrupt context depth: '') (texts (counter_lines ''PIT IRQ0 dispatches: '')
        (texts (counter_lines ''Keyboard IRQ1 dispatches: '') (texts (counter_lines ''Unhandled IRQ dispatches: '')
          (counter_lines ''Invalid IRQ dispatches: '')))))"
    unfolding irq_statements_def by (intro outputs_append counters count_read) auto
  then have irq: "outputs k0 irq_statements (possible_outputs ''irq'' k0)"
    by (simp only: possible_outputs_def) simp
  have "unat (memory_region_count (k_memory k0)) \<le> alen (memory_regions (k_memory k0))"
    using k0 by (simp add: kernel_ok_def memory_inv_def)
  from outputs_memory [OF k0 this] have mem: "outputs k0 (memory_statements (k_memory k0)) {command_output ''mem'' k0}"
    by (simp add: command_output_cases)
  have pmm: "outputs k0 (pmm_statements (k_pmm k0)) {command_output ''pmm'' k0}"
    using outputs_pmm [OF k0] by (simp add: command_output_cases)
  have heap: "outputs k0 (heap_statements (k_heap k0)) {command_output ''heap'' k0}"
    using outputs_heap [OF k0] by (simp add: command_output_cases heap_text_def)
  have paging: "outputs k0 (paging_statements (k_paging k0) (k_vmm k0)) {command_output ''paging'' k0}"
    using outputs_paging [OF k0] by (simp add: command_output_cases)
  show ?thesis using None other ticks input irq mem pmm heap paging
    by (auto simp: command_statements_def possible_outputs_def Let_def)
qed

text \<open>Every character.\<close>

lemma during_call_shell: "during_call k0 sh T k \<Longrightarrow> shell_typed sh' \<Longrightarrow> during_call k0 sh' T (k\<lparr>k_shell := sh'\<rparr>)"
  by (simp add: during_call_def system_const_def)

lemma effect_shell:
  assumes "\<And>k. k_shell k = sh \<Longrightarrow> f k sh = Some sh'" "shell_typed sh'"
  shows "statement_effect k0 (sh, T) (\<lambda>k. on_shell (f k) k) (sh', T)"
  unfolding statement_effect_def on_shell_def keeps_handlers_def
  using assms during_call_shell [of k0 sh T _ sh'] by (auto simp: during_call_def)

lemma outputs_lead: "outputs k0 fs U \<Longrightarrow> shell_ok sh \<Longrightarrow> leads_to k0 (sh, T) fs (sh, texts T U)"
  by (simp add: outputs_def)

lemma prompt_statements: "kernel_ok k0 \<Longrightarrow> outputs k0 (characters SHELL_PROMPT) {SHELL_PROMPT}"
  by (rule outputs_characters) (simp_all add: SHELL_PROMPT_def)

lemma newline_leads:
  assumes k0: "kernel_ok k0"
  shows "\<exists>sh. leads_to k0 (k_shell k0, {[]}) (shell_statements (CHR 0x0A) k0)
       (sh, possible_echo (CHR 0x0A) (shell_line (k_shell k0)) k0) \<and> shell_ok sh \<and> shell_line sh = []"
proof -
  let ?sh = "k_shell k0" and ?cmd = "acells (shell_buffer (k_shell k0))"
  let ?out = "possible_outputs (c_text (shell_line (k_shell k0))) k0"
  have sh: "shell_ok ?sh" using k0 by (simp add: kernel_ok_def)
  from reset_buffer_spec [of ?sh] sh obtain sh' where
    reset: "shell_reset_buffer ?sh = Some sh'" "shell_ok sh'" "shell_line sh' = []" by (auto simp: shell_ok_def)
  have 1: "leads_to k0 (?sh, {[]}) [con_putc (CHR 0x0A)] (?sh, {[CHR 0x0A]})"
    using outputs_lead [OF outputs_prints [OF k0 con_prints_putc] sh, of "{[]}"] by simp
  have 2: "leads_to k0 (?sh, {[CHR 0x0A]}) [\<lambda>k. on_shell (shell_store (shell_buffer_length (k_shell k)) NUL) k] (?sh, {[CHR 0x0A]})"
    using effect_shell [where f = "\<lambda>k. shell_store (shell_buffer_length (k_shell k)) NUL"] store_end [OF sh] shell_ok_typed [OF sh] by simp
  have 3: "leads_to k0 (?sh, {[CHR 0x0A]}) (command_statements ?cmd k0) (?sh, texts {[CHR 0x0A]} ?out)"
    using outputs_lead [OF outputs_command [OF k0] sh, of _ ?cmd] unfolding shell_text [OF sh] .
  have 4: "leads_to k0 (?sh, texts {[CHR 0x0A]} ?out) [on_shell shell_reset_buffer] (sh', texts {[CHR 0x0A]} ?out)"
    using effect_shell [where f = "\<lambda>k. shell_reset_buffer"] reset(1) shell_ok_typed [OF reset(2)] by simp
  have 5: "leads_to k0 (sh', texts {[CHR 0x0A]} ?out) (characters SHELL_PROMPT) (sh', texts (texts {[CHR 0x0A]} ?out) {SHELL_PROMPT})"
    by (rule outputs_lead [OF prompt_statements [OF k0] reset(2)])
  have "shell_statements (CHR 0x0A) k0 = [con_putc (CHR 0x0A)] @ [\<lambda>k. on_shell (shell_store (shell_buffer_length (k_shell k)) NUL) k] @
      command_statements ?cmd k0 @ [on_shell shell_reset_buffer] @ characters SHELL_PROMPT"
    by (simp add: shell_statements_def)
  then have "leads_to k0 (?sh, {[]}) (shell_statements (CHR 0x0A) k0) (sh', texts (texts {[CHR 0x0A]} ?out) {SHELL_PROMPT})"
    using leads_to_append [OF 1 leads_to_append [OF 2 leads_to_append [OF 3 leads_to_append [OF 4 5]]]] by (simp only:)
  then show ?thesis using reset(2,3) by (auto simp: possible_echo_def texts_assoc)
qed

lemma edit_leads:
  assumes k0: "kernel_ok k0" and e: "f sh = Some sh1" "g sh1 = Some sh2" and ok: "shell_ok sh2"
    and buffer: "shell_typed sh1"
  shows "leads_to k0 (sh, {[]}) [on_shell f, on_shell g, con_putc c] (sh2, {[c]})"
proof -
  have "statement_effect k0 (sh, {[]}) (on_shell f) (sh1, {[]})" "statement_effect k0 (sh1, {[]}) (on_shell g) (sh2, {[]})"
    using effect_shell [where f = "\<lambda>k. f"] effect_shell [where f = "\<lambda>k. g"] e buffer shell_ok_typed [OF ok]
    by simp_all
  moreover have "leads_to k0 (sh2, {[]}) [con_putc c] (sh2, {[c]})"
    using outputs_lead [OF outputs_prints [OF k0 con_prints_putc] ok, of "{[]}"] by simp
  ultimately show ?thesis by auto
qed

lemma shell_statements_lead:
  assumes k0: "kernel_ok k0"
  shows "\<exists>sh. leads_to k0 (k_shell k0, {[]}) (shell_statements c k0) (sh, possible_echo c (shell_line (k_shell k0)) k0) \<and>
     shell_ok sh \<and> shell_line sh = line_after c (shell_line (k_shell k0))"
proof -
  let ?sh = "k_shell k0" and ?n = "shell_buffer_length (k_shell k0)"
  have sh: "shell_ok ?sh" using k0 by (simp add: kernel_ok_def)
  have n: "unat ?n \<le> 63" using sh by (simp add: shell_ok_def)
  have full: "?n \<ge> SHELL_BUFFER_SIZE - 1 \<longleftrightarrow> \<not> unat ?n < 63"
    by (simp add: SHELL_BUFFER_SIZE_def word_le_nat_alt not_less)
  have some: "?n > 0 \<longleftrightarrow> 0 < unat ?n" by (simp add: word_less_nat_alt)
  have empty: "shell_line ?sh = [] \<longleftrightarrow> \<not> 0 < unat ?n" by (simp add: shell_line_def)
  note spec = shell_statements_def possible_echo_def line_echo_def line_after_def full some empty
  consider (newline) "c = CHR 0x0A" | (erase) "c = CHR 0x08" "0 < unat ?n"
    | (nothing) "c = CHR 0x08 \<and> \<not> 0 < unat ?n \<or> c = CHR 0x09"
    | (too_long) "c \<noteq> CHR 0x0A" "c \<noteq> CHR 0x08" "c \<noteq> CHR 0x09" "\<not> unat ?n < 63"
    | (room) "c \<noteq> CHR 0x0A" "c \<noteq> CHR 0x08" "c \<noteq> CHR 0x09" "unat ?n < 63"
    by blast
  then show ?thesis
  proof cases
    case newline
    then show ?thesis using newline_leads [OF k0] by (simp add: line_after_def)
  next
    case erase
    let ?sh1 = "?sh\<lparr>shell_buffer_length := ?n - 1\<rparr>"
    let ?sh2 = "\<lparr>shell_buffer = CArray 64 ((acell (shell_buffer ?sh))(unat (?n - 1) := NUL)), shell_buffer_length = ?n - 1\<rparr>"
    have "unat (?n - 1) = unat ?n - 1" using erase(2) by (rule unat_pred_pos)
    then have store: "shell_store (shell_buffer_length ?sh1) NUL ?sh1 = Some ?sh2"
      using sh n by (simp add: shell_store_def shell_ok_def)
    have typed: "shell_typed (?sh\<lparr>shell_buffer_length := shell_buffer_length ?sh - 1\<rparr>)"
      using sh n \<open>unat (?n - 1) = unat ?n - 1\<close> by (simp add: shell_typed_def shell_ok_def)
    note leads = edit_leads [where f = "\<lambda>sh. Some (sh\<lparr>shell_buffer_length := shell_buffer_length sh - 1\<rparr>)"
        and g = "\<lambda>sh. shell_store (shell_buffer_length sh) NUL sh" and c = "CHR 0x08",
        OF k0 refl store remove_char(1) [OF sh erase(2)] typed]
    show ?thesis using leads remove_char [OF sh erase(2)] erase by (intro exI [of _ ?sh2]) (simp add: spec)
  next
    case nothing
    then have "c = CHR 0x09 \<or> c = CHR 0x08 \<and> shell_line ?sh = [] \<and> \<not> ?n > 0" unfolding some using empty by blast
    then show ?thesis using sh
      by (intro exI [of _ ?sh]) (auto simp: shell_statements_def possible_echo_def line_echo_def line_after_def)
  next
    case too_long
    have "leads_to k0 (?sh, {[]}) (shell_statements c k0) (?sh, texts {[]} (texts
        {[CHR 0x0A] @ ''[WARNING] Shell input buffer full.'' @ [CHR 0x0A]} {SHELL_PROMPT}))"
      using too_long unfolding spec
      by (simp only: if_False if_True not_False_eq_True simp_thms)
         (rule outputs_lead [OF outputs_Cons [OF outputs_prints [OF k0 log_prints_puts] prompt_statements [OF k0]] sh],
          simp add: c_text_no_NUL)
    then show ?thesis using too_long sh by (intro exI [of _ ?sh]) (simp add: possible_echo_def line_echo_def line_after_def texts_one)
  next
    case room
    let ?sh1 = "?sh\<lparr>shell_buffer := CArray 64 ((acell (shell_buffer ?sh))(unat ?n := c))\<rparr>"
    let ?sh2 = "\<lparr>shell_buffer = CArray 64 ((acell (shell_buffer ?sh))(unat ?n := c)), shell_buffer_length = ?n + 1\<rparr>"
    have e: "shell_store ?n c ?sh = Some ?sh1" "Some (?sh1\<lparr>shell_buffer_length := shell_buffer_length ?sh1 + 1\<rparr>) = Some ?sh2"
      using shell_store_spec [OF sh, of ?n c] room(4) by simp_all
    have typed: "shell_typed ?sh1" using n by (simp add: shell_typed_def)
    note leads = edit_leads [where f = "\<lambda>sh. shell_store (shell_buffer_length sh) c sh"
        and g = "\<lambda>sh. Some (sh\<lparr>shell_buffer_length := shell_buffer_length sh + 1\<rparr>)" and c = c,
        OF k0 e append_char(1) [OF sh room(4)] typed]
    show ?thesis using leads append_char [OF sh room(4)] room by (intro exI [of _ ?sh2]) (simp add: spec)
  qed
qed

section \<open>Properties\<close>

lemma preempted_shell:
  assumes k: "kernel_idle_ok k" "\<not> cpu_halted k" and run: "preempt_step\<^sup>*\<^sup>* (shell_statements c k, k) (fs, k')"
  shows "(fs = [] \<longrightarrow> kernel_idle_ok k' \<and> shell_line (k_shell k') = line_after c (shell_line (k_shell k)) \<and>
       (\<exists>t \<in> possible_echo c (shell_line (k_shell k)) k. screen k' = fold ts_putchar t (screen k))) \<and>
     (\<exists>u. queue_contents (k_input k') = queue_contents (k_input k) @ u) \<and> system_const k k' \<and>
     (\<forall>f gs. fs = f # gs \<longrightarrow> (\<exists>k''. f k' = Some k'')) \<and>
     (\<forall>fr. hardware_frame fr \<longrightarrow> (\<exists>k''. irq_handler (Some fr) (k'\<lparr>reg_if := False\<rparr>) = Some (Returned k'')))"
proof -
  have ok: "kernel_ok k" using k(1) by (simp add: kernel_idle_ok_def)
  from shell_statements_lead [OF ok, of c] obtain sh where
    lead: "leads_to k (k_shell k, {[]}) (shell_statements c k) (sh, possible_echo c (shell_line (k_shell k)) k)"
    and sh: "shell_ok sh" "shell_line sh = line_after c (shell_line (k_shell k))" by blast
  from preempted_call [OF run lead] during_call_start [OF k] obtain a where
    a: "leads_to k a fs (sh, possible_echo c (shell_line (k_shell k)) k)" "during_call k (fst a) (snd a) k'" by auto
  have finished: "kernel_idle_ok k' \<and> shell_line (k_shell k') = line_after c (shell_line (k_shell k)) \<and>
      (\<exists>t \<in> possible_echo c (shell_line (k_shell k)) k. screen k' = fold ts_putchar t (screen k))" if "fs = []"
  proof -
    have d: "during_call k sh (possible_echo c (shell_line (k_shell k)) k) k'" using a that by auto
    then show ?thesis using during_call_ok [OF d ok sh(1)] sh(2) by (auto simp: during_call_def kernel_idle_ok_def)
  qed
  moreover have "\<exists>k''. f k' = Some k''" if "fs = f # gs" for f gs
    using a that by (auto simp: statement_effect_def)
  moreover have "\<exists>k''. irq_handler (Some fr) (k'\<lparr>reg_if := False\<rparr>) = Some (Returned k'')" if "hardware_frame fr" for fr
    using during_call_interrupt [OF a(2) that] by blast
  ultimately show ?thesis using a(2) by (auto simp: during_call_def)
qed

text \<open>The shell may be interrupted anywhere.  A call of \<open>shell_handle_character\<close> is its statements, down to the
  single characters of its console output; whatever hardware interrupts come before, between and
  after them, in any number, no statement faults, every interrupt is handled and returns, the
  characters typed meanwhile are queued, and the call ends with the line, the screen and the
  sound kernel it has without them.  Only a command that prints a counter interrupts advance may
  print another number.\<close>

theorem shell_is_preemptible:
  assumes "kernel_idle_ok k" "\<not> cpu_halted k" "preempt_step\<^sup>*\<^sup>* (shell_statements c k, k) (fs, k')"
  shows "shell_handle_character c k = returning (run_steps (shell_statements c k)) k \<and>
     (fs = [] \<longrightarrow> kernel_idle_ok k' \<and> shell_line (k_shell k') = line_after c (shell_line (k_shell k)) \<and>
       (\<exists>t \<in> possible_echo c (shell_line (k_shell k)) k. screen k' = fold ts_putchar t (screen k))) \<and>
     (\<exists>u. queue_contents (k_input k') = queue_contents (k_input k) @ u) \<and> system_const k k' \<and>
     (\<forall>f gs. fs = f # gs \<longrightarrow> (\<exists>k''. f k' = Some k'')) \<and>
     (\<forall>fr. hardware_frame fr \<longrightarrow> (\<exists>k''. irq_handler (Some fr) (k'\<lparr>reg_if := False\<rparr>) = Some (Returned k'')))"
  using preempted_shell [OF assms] shell_statements_run [of k c] assms(1) by (auto simp: kernel_idle_ok_def)

text \<open>The letter \<open>a\<close>, with the timer interrupt before the call ends.\<close>

lemma statements_alone: "run_steps fs k = Some k' \<Longrightarrow> preempt_step\<^sup>*\<^sup>* (fs, k) ([], k')"
proof (induction fs arbitrary: k)
  case (Cons f fs)
  then obtain k1 where "f k = Some k1" "run_steps fs k1 = Some k'" by (auto split: bind_splits)
  then show ?case using Cons.IH [of k1] preempt_step.statement [of f k k1 fs] by (meson converse_rtranclp_into_rtranclp)
qed simp

lemma shell_is_preemptible_witness:
  "\<exists>k' k''. irq_handler (Some (sample_frame 32)) (k'\<lparr>reg_if := False\<rparr>) = Some (Returned k'') \<and>
     preempt_step\<^sup>*\<^sup>* (shell_statements CHR ''a'' idle_kernel, idle_kernel) ([], k''\<lparr>reg_if := True\<rparr>) \<and>
     shell_line (k_shell (k''\<lparr>reg_if := True\<rparr>)) = ''a''"
proof -
  have idle: "kernel_idle_ok idle_kernel" "\<not> cpu_halted idle_kernel" "shell_line (k_shell idle_kernel) = []"
    using idle_start_ok by (auto simp: system_ok_def start_def)
      (simp_all add: idle_kernel_def ready_kernel_def kernel_static_def shell_line_def)
  have frame: "hardware_frame (sample_frame 32)" by (simp add: hardware_frame_def sample_frame_def)
  have k: "kernel_ok idle_kernel" "interrupt_context_depth (k_interrupts idle_kernel) = 0"
    using idle(1) by (simp_all add: kernel_idle_ok_def)
  from handle_character_spec [OF k, of "CHR ''a''"] obtain k' where
    "shell_handle_character CHR ''a'' idle_kernel = Some (Returned k')" by blast
  then have "run_steps (shell_statements CHR ''a'' idle_kernel) idle_kernel = Some k'"
    using shell_statements_run [OF k, of "CHR ''a''"] by (auto simp: returning_def)
  from statements_alone [OF this] have
    run: "preempt_step\<^sup>*\<^sup>* (shell_statements CHR ''a'' idle_kernel, idle_kernel) ([], k')" .
  from shell_is_preemptible [OF idle(1,2) run] frame obtain k'' where
    k'': "irq_handler (Some (sample_frame 32)) (k'\<lparr>reg_if := False\<rparr>) = Some (Returned k'')" "reg_if k'"
    by (auto simp: kernel_idle_ok_def)
  have run': "preempt_step\<^sup>*\<^sup>* (shell_statements CHR ''a'' idle_kernel, idle_kernel) ([], k''\<lparr>reg_if := True\<rparr>)"
    using run preempt_step.interrupt [OF k''(2) frame k''(1), of "[]"] by (rule rtranclp.rtrancl_into_rtrancl)
  from shell_is_preemptible [OF idle(1,2) run'] have "shell_line (k_shell (k''\<lparr>reg_if := True\<rparr>)) = ''a''"
    by (simp only: idle(3)) (simp add: line_after_def)
  then show ?thesis using k''(1) run' by blast
qed

end
