(* ===== verification/Session.thy ===== *)
theory Session
  imports Preemption
begin

text \<open>
  The running kernel with interrupts everywhere they can come: the endless loop of System, with a
  call of the shell taken apart into the statements of Preemption.

  A configuration is one of System and what is left of the call in progress.  The loop is
  preempted before each round, between taking a character and calling the shell, and before every
  statement of the call and the return from it; \<open>kernel_work_poll\<close> is one step because it runs with
  interrupts off.  What the user sees of a session is its transcript: the echo of every handled
  character and the output of every command, one after the other.
\<close>

section \<open>The step relation\<close>

record session = system +
  ses_call :: "statement list option"

inductive session_foreground :: "session \<Rightarrow> session \<Rightarrow> bool" where
  poll:
    "\<not> cpu_halted (sys_kernel s) \<Longrightarrow> sys_taken s = None \<Longrightarrow> ses_call s = None \<Longrightarrow>
     \<not> interrupts_is_in_context (k_interrupts (sys_kernel s)) \<Longrightarrow>
     kernel_work_poll (sys_kernel s) = Some (taken, k') \<Longrightarrow>
     session_foreground s (s\<lparr>sys_kernel := k', sys_taken := taken\<rparr>)"
| call:
    "\<not> cpu_halted (sys_kernel s) \<Longrightarrow> sys_taken s = Some c \<Longrightarrow> ses_call s = None \<Longrightarrow>
     \<not> interrupts_is_in_context (k_interrupts (sys_kernel s)) \<Longrightarrow>
     session_foreground s (s\<lparr>ses_call := Some (shell_statements c (sys_kernel s))\<rparr>)"
| statement:
    "\<not> cpu_halted (sys_kernel s) \<Longrightarrow> ses_call s = Some (f # fs) \<Longrightarrow> f (sys_kernel s) = Some k' \<Longrightarrow>
     session_foreground s (s\<lparr>sys_kernel := k', ses_call := Some fs\<rparr>)"
| return:
    "\<not> cpu_halted (sys_kernel s) \<Longrightarrow> sys_taken s = Some c \<Longrightarrow> ses_call s = Some [] \<Longrightarrow>
     session_foreground s (s\<lparr>sys_taken := None, sys_handled := sys_handled s @ [c], ses_call := None\<rparr>)"

text \<open>An interrupt, labelled with its line.\<close>

inductive session_interrupt :: "nat \<Rightarrow> session \<Rightarrow> session \<Rightarrow> bool" where
  interrupt:
    "reg_if (sys_kernel s) \<Longrightarrow> hardware_frame f \<Longrightarrow>
     irq_handler (Some f) ((sys_kernel s)\<lparr>reg_if := False, cpu_halted := False\<rparr>) = Some (Returned k') \<Longrightarrow>
     session_interrupt (frame_irq f) s (s\<lparr>sys_kernel := k'\<lparr>reg_if := True\<rparr>,
       sys_queued := sys_queued s @
         typed_char (handler_of (k_interrupts (sys_kernel s)) (frame_irq f)) (sys_kernel s)\<rparr>)"

definition session_step :: "session \<Rightarrow> session \<Rightarrow> bool" where
  "session_step s s' \<longleftrightarrow> session_foreground s s' \<or> (\<exists>n. session_interrupt n s s')"

inductive session_run :: "session \<Rightarrow> session \<Rightarrow> bool" where
  session_start: "session_run s s"
| session_next: "session_run s s' \<Longrightarrow> session_step s' s'' \<Longrightarrow> session_run s s''"

inductive_cases session_foregroundE: "session_foreground s s'"
inductive_cases session_interruptE: "session_interrupt n s s'"

text \<open>The loop starts with no call in progress.\<close>

definition begin_session :: "kernel \<Rightarrow> session" where
  "begin_session k = \<lparr>sys_kernel = k, sys_taken = None, sys_queued = [], sys_handled = [], ses_call = None\<rparr>"

section \<open>The transcript of a session\<close>

text \<open>What handling the characters \<open>cs\<close> can show, when the line in the shell is \<open>line\<close> before them.\<close>

fun transcript :: "kernel \<Rightarrow> string \<Rightarrow> string \<Rightarrow> string set" where
  "transcript k line [] = {[]}"
| "transcript k line (c # cs) = texts (possible_echo c line k) (transcript k (line_after c line) cs)"

lemma transcript_snoc:
  "transcript k line (cs @ [c]) = texts (transcript k line cs) (possible_echo c (fold line_after cs line) k)"
  by (induction cs arbitrary: line) (simp_all add: texts_assoc)

lemma echo_const:
  assumes "system_const k0 k" "pmm_running (k_pmm k0)"
  shows "possible_echo c line k = possible_echo c line k0"
  using output_const [OF assms] by (simp add: possible_echo_def possible_outputs_def line_echo_def)

section \<open>The invariant\<close>

text \<open>
  Between two calls everything the shell has handled is on the screen; during a call the texts it
  can have shown so far come after that.
\<close>

definition shown :: "kernel \<Rightarrow> string \<Rightarrow> kernel \<Rightarrow> bool" where
  "shown k0 cs k \<longleftrightarrow> (\<exists>t \<in> transcript k0 [] cs. screen k = fold ts_putchar t (screen k0))"

definition waiting :: "session \<Rightarrow> string" where
  "waiting s = (case sys_taken s of None \<Rightarrow> [] | Some c \<Rightarrow> [c]) @ queue_contents (k_input (sys_kernel s))"

definition between_calls :: "kernel \<Rightarrow> string \<Rightarrow> kernel \<Rightarrow> bool" where
  "between_calls k0 cs k \<longleftrightarrow> kernel_idle_ok k \<and> system_const k0 k \<and>
     shell_line (k_shell k) = fold line_after cs [] \<and> shown k0 cs k"

definition call_in_progress :: "kernel \<Rightarrow> session \<Rightarrow> char \<Rightarrow> statement list \<Rightarrow> bool" where
  "call_in_progress k0 s c fs \<longleftrightarrow> (\<exists>k1 a sh. between_calls k0 (sys_handled s) k1 \<and> \<not> cpu_halted k1 \<and>
     leads_to k1 a fs (sh, possible_echo c (shell_line (k_shell k1)) k1) \<and> during_call k1 (fst a) (snd a) (sys_kernel s) \<and>
     shell_ok sh \<and> shell_line sh = line_after c (shell_line (k_shell k1)))"

definition session_ok :: "kernel \<Rightarrow> session \<Rightarrow> bool" where
  "session_ok k0 s \<longleftrightarrow> sys_queued s = sys_handled s @ waiting s \<and>
     (case ses_call s of
        None \<Rightarrow> between_calls k0 (sys_handled s) (sys_kernel s) \<and> (cpu_halted (sys_kernel s) \<longrightarrow> waiting s = [])
      | Some fs \<Rightarrow> \<exists>c. sys_taken s = Some c \<and> call_in_progress k0 s c fs)"

lemma between_calls_start:
  "kernel_idle_ok k \<Longrightarrow> shell_line (k_shell k) = [] \<Longrightarrow> between_calls k [] k"
  by (simp add: between_calls_def shown_def system_const_def same_frames_def same_but_search_def kernel_idle_ok_def kernel_ok_def)

lemma begin_session_ok: "system_ok (start k) \<Longrightarrow> session_ok k (begin_session k)"
  by (simp add: session_ok_def begin_session_def start_def system_ok_def between_calls_start waiting_def)

text \<open>The kernel during a call is as sound as between two.\<close>

lemma during_call_parts:
  assumes "during_call k0 sh T k"
  shows "console_ok k" "input_ok (k_input k)" "interrupts_wf (k_interrupts k)" "interrupt_context_depth (k_interrupts k) = 0"
    "reg_if k" "\<not> cpu_halted k" "system_const k0 k" "k_shell k = sh"
  using assms by (simp_all add: during_call_def)

lemma call_in_progress_parts:
  assumes "call_in_progress k0 s c fs"
  shows "\<not> cpu_halted (sys_kernel s)" "reg_if (sys_kernel s)" "system_const k0 (sys_kernel s)"
    "interrupt_context_depth (k_interrupts (sys_kernel s)) = 0"
  using assms system_const_trans by (auto simp: call_in_progress_def during_call_def between_calls_def)

lemma call_begins:
  assumes k: "between_calls k0 (sys_handled s) (sys_kernel s)" "\<not> cpu_halted (sys_kernel s)"
  shows "call_in_progress k0 s c (shell_statements c (sys_kernel s))"
proof -
  let ?k = "sys_kernel s"
  have ok: "kernel_idle_ok ?k" "kernel_ok ?k" using k(1) by (simp_all add: between_calls_def kernel_idle_ok_def)
  from shell_statements_lead [OF ok(2), of c] obtain sh where
    "leads_to ?k (k_shell ?k, {[]}) (shell_statements c ?k) (sh, possible_echo c (shell_line (k_shell ?k)) ?k)"
    "shell_ok sh" "shell_line sh = line_after c (shell_line (k_shell ?k))" by blast
  then show ?thesis using k during_call_start [OF ok(1) k(2)] unfolding call_in_progress_def
    by (intro exI [of _ ?k] exI [of _ "(k_shell ?k, {[]})"] exI [of _ sh]) simp
qed

lemma call_returns:
  assumes s: "call_in_progress k0 s c []" and k0: "pmm_running (k_pmm k0)"
  shows "between_calls k0 (sys_handled s @ [c]) (sys_kernel s)"
proof -
  let ?k = "sys_kernel s"
  from s obtain k1 sh where
    k1: "between_calls k0 (sys_handled s) k1" "shell_ok sh" "shell_line sh = line_after c (shell_line (k_shell k1))"
    and d: "during_call k1 sh (possible_echo c (shell_line (k_shell k1)) k1) ?k"
    unfolding call_in_progress_def by auto
  have ok1: "kernel_ok k1" and line1: "shell_line (k_shell k1) = fold line_after (sys_handled s) []"
    and const1: "system_const k0 k1" using k1(1) by (simp_all add: between_calls_def kernel_idle_ok_def)
  note p = during_call_parts [OF d]
  have idle: "kernel_idle_ok ?k" using during_call_ok [OF d ok1 k1(2)] p by (simp add: kernel_idle_ok_def)
  have const: "system_const k0 ?k" by (rule system_const_trans [OF const1 p(7)])
  from k1(1) obtain t where t: "t \<in> transcript k0 [] (sys_handled s)" "screen k1 = fold ts_putchar t (screen k0)"
    by (auto simp: between_calls_def shown_def)
  from d obtain u where u: "u \<in> possible_echo c (shell_line (k_shell k1)) k1" "screen ?k = fold ts_putchar u (screen k1)"
    by (auto simp: during_call_def)
  have "t @ u \<in> transcript k0 [] (sys_handled s @ [c])"
    unfolding transcript_snoc using t(1) u(1) unfolding line1 echo_const [OF const1 k0] by (rule textsI)
  then have "shown k0 (sys_handled s @ [c]) ?k"
    unfolding shown_def using t(2) u(2) by (intro bexI [of _ "t @ u"]) simp_all
  then show ?thesis using idle const k1(3) p(8) line1 by (simp add: between_calls_def)
qed

section \<open>Every step keeps it\<close>

lemma session_idle:
  assumes "session_ok k0 s" "ses_call s = None"
  shows "between_calls k0 (sys_handled s) (sys_kernel s)" "kernel_idle_ok (sys_kernel s)" "input_ok (k_input (sys_kernel s))"
    "\<not> interrupts_is_in_context (k_interrupts (sys_kernel s))" "cpu_halted (sys_kernel s) \<Longrightarrow> waiting s = []"
    "sys_queued s = sys_handled s @ waiting s"
  using assms by (simp_all add: session_ok_def between_calls_def kernel_idle_ok_def kernel_ok_def interrupts_is_in_context_def)

lemma between_calls_input:
  assumes "between_calls k0 cs k" "input_ok q"
  shows "between_calls k0 cs (k\<lparr>reg_if := True, k_input := q\<rparr>)"
  using assms kernel_ok_input [of k q True]
  by (simp add: between_calls_def kernel_idle_ok_def system_const_def shown_def)

lemma between_calls_halts: "between_calls k0 cs k \<Longrightarrow> between_calls k0 cs (k\<lparr>reg_if := True, cpu_halted := True\<rparr>)"
  by (simp add: between_calls_def kernel_idle_ok_def system_const_def shown_def)

lemma poll_keeps:
  assumes ok: "session_ok k0 s" and run: "sys_taken s = None" "ses_call s = None"
    and poll: "kernel_work_poll (sys_kernel s) = Some (taken, k')"
  shows "session_ok k0 (s\<lparr>sys_kernel := k', sys_taken := taken\<rparr>)"
proof (cases "queue_contents (k_input (sys_kernel s))")
  case Nil
  note idle = session_idle [OF ok run(2)]
  have "taken = None" "k' = (sys_kernel s)\<lparr>reg_if := True, cpu_halted := True\<rparr>" using poll poll_empty [OF Nil] by simp_all
  then show ?thesis using idle(6) run Nil between_calls_halts [OF idle(1)] by (simp add: session_ok_def waiting_def)
next
  case (Cons c cs)
  note idle = session_idle [OF ok run(2)]
  from poll_first [OF idle(3) Cons] poll obtain q where
    q: "taken = Some c" "k' = (sys_kernel s)\<lparr>reg_if := True, k_input := q\<rparr>" "input_ok q" "queue_contents q = cs" by auto
  have "cpu_halted (sys_kernel s) \<Longrightarrow> False" using idle(5) Cons by (simp add: waiting_def)
  then show ?thesis using q idle(6) run Cons between_calls_input [OF idle(1) q(3)] by (auto simp: session_ok_def waiting_def)
qed

lemma statement_keeps:
  assumes ok: "session_ok k0 s" and call: "ses_call s = Some (f # fs)" and run: "f (sys_kernel s) = Some k'"
  shows "session_ok k0 (s\<lparr>sys_kernel := k', ses_call := Some fs\<rparr>)"
proof -
  from ok call obtain c where c: "sys_taken s = Some c" "call_in_progress k0 s c (f # fs)" by (auto simp: session_ok_def)
  from c(2) obtain k1 a sh where k1: "between_calls k0 (sys_handled s) k1" "\<not> cpu_halted k1"
    and lead: "leads_to k1 a (f # fs) (sh, possible_echo c (shell_line (k_shell k1)) k1)"
    and d: "during_call k1 (fst a) (snd a) (sys_kernel s)" and sh: "shell_ok sh" "shell_line sh = line_after c (shell_line (k_shell k1))"
    unfolding call_in_progress_def by blast
  from lead obtain b where b: "statement_effect k1 a f b" "leads_to k1 b fs (sh, possible_echo c (shell_line (k_shell k1)) k1)" by auto
  have k': "during_call k1 (fst b) (snd b) k'" "k_input k' = k_input (sys_kernel s)"
    using b(1) d run by (auto simp: statement_effect_def keeps_handlers_def)
  have "call_in_progress k0 (s\<lparr>sys_kernel := k', ses_call := Some fs\<rparr>) c fs"
    unfolding call_in_progress_def using k1 b(2) k'(1) sh by (intro exI [of _ k1] exI [of _ b] exI [of _ sh]) simp
  then show ?thesis using ok c(1) k'(2) by (simp add: session_ok_def waiting_def)
qed

lemma session_foreground_keeps:
  assumes "session_foreground s s'" "session_ok k0 s" "pmm_running (k_pmm k0)"
  shows "session_ok k0 s' \<and> sys_queued s' = sys_queued s"
  using assms(1)
proof (cases rule: session_foregroundE [consumes 1, case_names poll call statement return])
  case poll
  then show ?thesis using poll_keeps [OF assms(2) poll(3,4,6)] by simp
next
  case (call c)
  note idle = session_idle [OF assms(2) call(4)]
  show ?thesis using call call_begins [OF idle(1) call(2), of c] idle(6)
    by (simp add: session_ok_def call_in_progress_def waiting_def)
next
  case (statement f fs k')
  then show ?thesis using statement_keeps [OF assms(2) statement(3,4)] by simp
next
  case (return c)
  then have "call_in_progress k0 s c []" using assms(2) by (simp add: session_ok_def)
  from call_returns [OF this assms(3)] show ?thesis using return assms(2) by (simp add: session_ok_def waiting_def)
qed

text \<open>An interrupt, between two calls and during one.\<close>

lemma between_calls_interrupt:
  assumes k: "between_calls k0 cs k" and f: "hardware_frame f"
  shows "\<exists>k'. irq_handler (Some f) (k\<lparr>reg_if := False, cpu_halted := False\<rparr>) = Some (Returned k') \<and>
     between_calls k0 cs (k'\<lparr>reg_if := True\<rparr>) \<and> \<not> cpu_halted k' \<and>
     queue_contents (k_input k') = queue_contents (k_input k) @ typed_char (handler_of (k_interrupts k) (frame_irq f)) k"
proof -
  let ?k = "k\<lparr>cpu_halted := False\<rparr>"
  have ok: "kernel_ok k" "kernel_idle_ok ?k" "\<not> cpu_halted ?k"
    using k by (simp_all add: between_calls_def kernel_idle_ok_def)
  have same: "?k\<lparr>reg_if := False\<rparr> = k\<lparr>reg_if := False, cpu_halted := False\<rparr>" by simp
  from during_call_interrupt [OF during_call_start [OF ok(2,3)] f] obtain k' where
    k': "irq_handler (Some f) (?k\<lparr>reg_if := False\<rparr>) = Some (Returned k')" and d: "during_call ?k (k_shell ?k) {[]} (k'\<lparr>reg_if := True\<rparr>)"
    and queue: "queue_contents (k_input k') = queue_contents (k_input k) @ typed_char (handler_of (k_interrupts k) (frame_irq f)) k"
    by auto
  have "system_const k ?k" using ok(1) by (simp add: system_const_def same_frames_def same_but_search_def kernel_ok_def)
  then have const: "system_const k0 (k'\<lparr>reg_if := True\<rparr>)"
    using system_const_trans during_call_parts(7) [OF d] k unfolding between_calls_def by blast
  have "kernel_ok (k'\<lparr>reg_if := True\<rparr>)"
    using during_call_ok [OF d] ok by (simp add: kernel_idle_ok_def) (simp add: kernel_ok_def)
  then have "kernel_idle_ok (k'\<lparr>reg_if := True\<rparr>)" using during_call_parts [OF d] by (simp add: kernel_idle_ok_def)
  moreover have "screen (k'\<lparr>reg_if := True\<rparr>) = screen k" using d by (simp add: during_call_def)
  ultimately have "between_calls k0 cs (k'\<lparr>reg_if := True\<rparr>)"
    using k const during_call_parts(8) [OF d] by (simp add: between_calls_def shown_def)
  then show ?thesis using k' queue same during_call_parts(6) [OF d] by auto
qed

lemma call_interrupt:
  assumes s: "call_in_progress k0 s c fs" and f: "hardware_frame f"
  shows "\<exists>k'. irq_handler (Some f) ((sys_kernel s)\<lparr>reg_if := False, cpu_halted := False\<rparr>) = Some (Returned k') \<and>
     call_in_progress k0 (s\<lparr>sys_kernel := k'\<lparr>reg_if := True\<rparr>, sys_queued := q\<rparr>) c fs \<and>
     queue_contents (k_input k') = queue_contents (k_input (sys_kernel s)) @
       typed_char (handler_of (k_interrupts (sys_kernel s)) (frame_irq f)) (sys_kernel s)"
proof -
  let ?k = "sys_kernel s"
  from s obtain k1 a sh where k1: "between_calls k0 (sys_handled s) k1" "\<not> cpu_halted k1"
    and lead: "leads_to k1 a fs (sh, possible_echo c (shell_line (k_shell k1)) k1)" and d: "during_call k1 (fst a) (snd a) ?k"
    and sh: "shell_ok sh" "shell_line sh = line_after c (shell_line (k_shell k1))"
    unfolding call_in_progress_def by blast
  from during_call_interrupt [OF d f] obtain k' where
    k': "irq_handler (Some f) (?k\<lparr>reg_if := False\<rparr>) = Some (Returned k')" "during_call k1 (fst a) (snd a) (k'\<lparr>reg_if := True\<rparr>)"
      "queue_contents (k_input k') = queue_contents (k_input ?k) @ typed_char (handler_of (k_interrupts ?k) (frame_irq f)) ?k" by blast
  have "?k\<lparr>reg_if := False\<rparr> = ?k\<lparr>reg_if := False, cpu_halted := False\<rparr>"
    using during_call_parts(6) [OF d] by (cases "?k") simp
  moreover have "call_in_progress k0 (s\<lparr>sys_kernel := k'\<lparr>reg_if := True\<rparr>, sys_queued := q\<rparr>) c fs"
    unfolding call_in_progress_def using k1 lead k'(2) sh by (intro exI [of _ k1] exI [of _ a] exI [of _ sh]) simp
  ultimately show ?thesis using k'(1,3) by auto
qed

lemma session_interrupt_returns:
  assumes ok: "session_ok k0 s" and f: "hardware_frame f"
  shows "\<exists>k'. irq_handler (Some f) ((sys_kernel s)\<lparr>reg_if := False, cpu_halted := False\<rparr>) = Some (Returned k') \<and>
     session_ok k0 (s\<lparr>sys_kernel := k'\<lparr>reg_if := True\<rparr>, sys_queued := sys_queued s @
       typed_char (handler_of (k_interrupts (sys_kernel s)) (frame_irq f)) (sys_kernel s)\<rparr>)"
proof (cases "ses_call s")
  case None
  note idle = session_idle [OF ok None]
  from between_calls_interrupt [OF idle(1) f] idle(6) None show ?thesis
    by (auto simp: session_ok_def waiting_def)
next
  case (Some fs)
  then obtain c where c: "sys_taken s = Some c" "call_in_progress k0 s c fs" using ok by (auto simp: session_ok_def)
  from call_interrupt [OF c(2) f] ok c(1) Some show ?thesis
    by (force simp: session_ok_def waiting_def)
qed

lemma session_interrupt_keeps: "session_interrupt n s s' \<Longrightarrow> session_ok k0 s \<Longrightarrow> session_ok k0 s'"
  using session_interrupt_returns by (elim session_interruptE) fastforce

lemma session_run_ok: "session_run s s' \<Longrightarrow> session_ok k0 s \<Longrightarrow> pmm_running (k_pmm k0) \<Longrightarrow> session_ok k0 s'"
  by (induction rule: session_run.induct)
     (auto simp: session_step_def session_foreground_keeps session_interrupt_keeps)

lemma session_sound:
  assumes "session_ok k0 s"
  shows "reg_if (sys_kernel s)" "interrupt_context_depth (k_interrupts (sys_kernel s)) = 0" "system_const k0 (sys_kernel s)"
    "kernel_ok (sys_kernel s) \<or> ses_call s \<noteq> None"
proof -
  have "reg_if (sys_kernel s) \<and> interrupt_context_depth (k_interrupts (sys_kernel s)) = 0 \<and> system_const k0 (sys_kernel s)"
  proof (cases "ses_call s")
    case None
    then show ?thesis using session_idle [OF assms None] by (simp add: between_calls_def kernel_idle_ok_def)
  next
    case (Some fs)
    then show ?thesis using assms call_in_progress_parts by (auto simp: session_ok_def)
  qed
  then show "reg_if (sys_kernel s)" "interrupt_context_depth (k_interrupts (sys_kernel s)) = 0" "system_const k0 (sys_kernel s)"
    by simp_all
  show "kernel_ok (sys_kernel s) \<or> ses_call s \<noteq> None"
    using session_idle(2) [OF assms] by (auto simp: kernel_idle_ok_def)
qed

section \<open>The loop alone\<close>

lemma call_statement_runs:
  assumes "call_in_progress k0 s c (f # fs)"
  shows "\<exists>k'. f (sys_kernel s) = Some k' \<and> keeps_handlers (sys_kernel s) k'"
  using assms unfolding call_in_progress_def leads_to.simps statement_effect_def by blast

lemma session_progress:
  assumes ok: "session_ok k0 s" and run: "\<not> cpu_halted (sys_kernel s)"
  shows "\<exists>s'. session_foreground s s'"
proof (cases "ses_call s")
  case None
  note idle = session_idle [OF ok None]
  have "\<exists>t k'. kernel_work_poll (sys_kernel s) = Some (t, k')"
    by (cases "queue_contents (k_input (sys_kernel s))") (use poll_empty poll_first [OF idle(3)] in fastforce)+
  then show ?thesis
    using session_foreground.poll [OF run _ None idle(4)] session_foreground.call [OF run _ None idle(4)]
    by (cases "sys_taken s") blast+
next
  case (Some fs)
  then obtain c where c: "sys_taken s = Some c" "call_in_progress k0 s c fs" using ok by (auto simp: session_ok_def)
  show ?thesis
  proof (cases fs)
    case Nil
    then show ?thesis using session_foreground.return [OF run c(1)] Some by blast
  next
    case (Cons f gs)
    then show ?thesis using session_foreground.statement [OF run] Some call_statement_runs c(2) by blast
  qed
qed

lemma session_foreground_deterministic:
  assumes "session_foreground s a" "session_foreground s b"
  shows "a = b"
  using assms by (elim session_foregroundE) auto

lemma halted_rests: "cpu_halted (sys_kernel s) \<Longrightarrow> \<not> session_foreground s s'"
  by (auto elim: session_foregroundE)

text \<open>A deterministic run that comes to rest is the only one.\<close>

lemma deterministic_rest:
  assumes det: "\<And>s a b. r s a \<Longrightarrow> r s b \<Longrightarrow> a = b" and rest: "\<And>u. \<not> r t u"
    and run: "(r ^^ n) s t" "(r ^^ m) s u"
  shows "m \<le> n \<and> (r ^^ (n - m)) u t"
  using run
proof (induction m arbitrary: s n)
  case 0
  then show ?case by simp
next
  case (Suc m)
  from Suc.prems(2) obtain v where v: "r s v" "(r ^^ m) v u" by (rule relpowp_Suc_E2)
  then obtain l where l: "n = Suc l" using Suc.prems(1) rest by (cases n) auto
  from Suc.prems(1) [unfolded l] obtain w where w: "r s w" "(r ^^ l) w t" by (rule relpowp_Suc_E2)
  then have "(r ^^ l) v t" using det v(1) by blast
  from Suc.IH [OF this v(2)] show ?case by (simp add: l)
qed

text \<open>A call runs to its end.\<close>

lemma call_runs:
  "session_ok k0 s \<Longrightarrow> pmm_running (k_pmm k0) \<Longrightarrow> sys_taken s = Some c \<Longrightarrow> ses_call s = Some fs \<Longrightarrow>
     \<exists>k'. (session_foreground ^^ Suc (length fs)) s
         (s\<lparr>sys_kernel := k', sys_taken := None, sys_handled := sys_handled s @ [c], ses_call := None\<rparr>) \<and>
       run_steps fs (sys_kernel s) = Some k' \<and> k_input k' = k_input (sys_kernel s)"
proof (induction fs arbitrary: s)
  case Nil
  then have "call_in_progress k0 s c []" by (simp add: session_ok_def)
  then have "\<not> cpu_halted (sys_kernel s)" by (rule call_in_progress_parts)
  from session_foreground.return [OF this Nil.prems(3,4)] show ?case by auto
next
  case (Cons f fs)
  then have c: "call_in_progress k0 s c (f # fs)" by (simp add: session_ok_def)
  from call_statement_runs [OF c] obtain k1 where k1: "f (sys_kernel s) = Some k1" "k_input k1 = k_input (sys_kernel s)"
    by (auto simp: keeps_handlers_def)
  let ?s = "s\<lparr>sys_kernel := k1, ses_call := Some fs\<rparr>"
  have step: "session_foreground s ?s"
    by (rule session_foreground.statement [OF call_in_progress_parts(1) [OF c] Cons.prems(4) k1(1)])
  have ok: "session_ok k0 ?s" using session_foreground_keeps [OF step Cons.prems(1,2)] by blast
  from Cons.IH [OF ok Cons.prems(2)] Cons.prems(3) obtain k' where
    k': "(session_foreground ^^ Suc (length fs)) ?s (?s\<lparr>sys_kernel := k', sys_taken := None, sys_handled := sys_handled s @ [c], ses_call := None\<rparr>)"
      "run_steps fs k1 = Some k'" "k_input k' = k_input k1" by auto
  have "(session_foreground ^^ Suc (Suc (length fs))) s (?s\<lparr>sys_kernel := k', sys_taken := None, sys_handled := sys_handled s @ [c], ses_call := None\<rparr>)"
    by (rule relpowp_Suc_I2 [OF step k'(1)])
  then show ?case using k' k1 by (intro exI [of _ k']) simp
qed

text \<open>One character, from its place in the hand of the loop to the return of its call.\<close>

lemma handles_taken:
  assumes ok: "session_ok k0 s" "pmm_running (k_pmm k0)" and c: "sys_taken s = Some c" "ses_call s = None"
  shows "\<exists>n k'. (session_foreground ^^ n) s (s\<lparr>sys_kernel := k', sys_taken := None, sys_handled := sys_handled s @ [c]\<rparr>) \<and>
     run_steps (shell_statements c (sys_kernel s)) (sys_kernel s) = Some k' \<and> k_input k' = k_input (sys_kernel s)"
proof -
  note idle = session_idle [OF ok(1) c(2)]
  have "\<not> cpu_halted (sys_kernel s)" using idle(5) c(1) by (auto simp: waiting_def)
  from session_foreground.call [OF this c idle(4)]
  have step: "session_foreground s (s\<lparr>ses_call := Some (shell_statements c (sys_kernel s))\<rparr>)" (is "session_foreground s ?s") .
  have "session_ok k0 ?s" using session_foreground_keeps [OF step ok] by blast
  moreover have "sys_taken ?s = Some c" "ses_call ?s = Some (shell_statements c (sys_kernel s))" using c(1) by simp_all
  ultimately have "\<exists>k'. (session_foreground ^^ Suc (length (shell_statements c (sys_kernel s)))) ?s
        (?s\<lparr>sys_kernel := k', sys_taken := None, sys_handled := sys_handled ?s @ [c], ses_call := None\<rparr>) \<and>
      run_steps (shell_statements c (sys_kernel s)) (sys_kernel ?s) = Some k' \<and> k_input k' = k_input (sys_kernel ?s)"
    using call_runs [where s = ?s] ok(2) by blast
  then obtain k' where
    k': "(session_foreground ^^ Suc (length (shell_statements c (sys_kernel s)))) ?s
        (?s\<lparr>sys_kernel := k', sys_taken := None, sys_handled := sys_handled s @ [c], ses_call := None\<rparr>)"
      "run_steps (shell_statements c (sys_kernel s)) (sys_kernel s) = Some k'" "k_input k' = k_input (sys_kernel s)" by (auto simp del: relpowp.simps)
  have "?s\<lparr>sys_kernel := k', sys_taken := None, sys_handled := sys_handled s @ [c], ses_call := None\<rparr> =
      s\<lparr>sys_kernel := k', sys_taken := None, sys_handled := sys_handled s @ [c]\<rparr>"
    using c(2) by (cases s) simp
  then show ?thesis using relpowp_Suc_I2 [OF step k'(1)] k'(2,3) by metis
qed

text \<open>From every configuration the loop alone comes to rest.\<close>

definition resting :: "kernel \<Rightarrow> session \<Rightarrow> session \<Rightarrow> bool" where
  "resting k0 s s' \<longleftrightarrow> session_ok k0 s' \<and> cpu_halted (sys_kernel s') \<and> sys_queued s' = sys_queued s"

lemma session_foreground_power_keeps:
  "(session_foreground ^^ n) s s' \<Longrightarrow> session_ok k0 s \<Longrightarrow> pmm_running (k_pmm k0) \<Longrightarrow>
     session_ok k0 s' \<and> sys_queued s' = sys_queued s"
proof (induction n arbitrary: s)
  case (Suc n)
  from Suc.prems(1) obtain v where v: "session_foreground s v" "(session_foreground ^^ n) v s'" by (rule relpowp_Suc_E2)
  from session_foreground_keeps [OF v(1) Suc.prems(2,3)] Suc.IH [OF v(2)] Suc.prems(3) show ?case by auto
qed simp

lemma resting_after:
  assumes "(session_foreground ^^ m) s u" "session_ok k0 s" "pmm_running (k_pmm k0)"
    and "(session_foreground ^^ n) u s'" "resting k0 u s'"
  shows "\<exists>n. (session_foreground ^^ n) s s' \<and> resting k0 s s'"
  using relpowp_trans [OF assms(1,4)] session_foreground_power_keeps [OF assms(1-3)] assms(5)
  by (intro exI [of _ "m + n"]) (simp add: resting_def)

lemma rests_between_calls:
  "session_ok k0 s \<Longrightarrow> pmm_running (k_pmm k0) \<Longrightarrow> ses_call s = None \<Longrightarrow>
     \<exists>n s'. (session_foreground ^^ n) s s' \<and> resting k0 s s'"
proof (induction "2 * length (waiting s) + (if sys_taken s = None then 1 else 0)" arbitrary: s rule: less_induct)
  case less
  note idle = session_idle [OF less.prems(1,3)]
  show ?case
  proof (cases "sys_taken s")
    case None
    show ?thesis
    proof (cases "cpu_halted (sys_kernel s)")
      case True
      then show ?thesis using less.prems(1) by (intro exI [of _ 0] exI [of _ s]) (simp add: resting_def)
    next
      case False
      note poll = session_foreground.poll [OF False None less.prems(3) idle(4)]
      show ?thesis
      proof (cases "queue_contents (k_input (sys_kernel s))")
        case Nil
        note step = poll [OF poll_empty [OF Nil]]
        let ?s = "s\<lparr>sys_kernel := (sys_kernel s)\<lparr>reg_if := True, cpu_halted := True\<rparr>, sys_taken := None\<rparr>"
        have "resting k0 s ?s" using session_foreground_keeps [OF step less.prems(1,2)] by (simp add: resting_def)
        then show ?thesis using step by (intro exI [of _ "Suc 0"] exI [of _ ?s]) (simp add: relcompp_apply)
      next
        case (Cons c cs)
        from poll_first [OF idle(3) Cons] obtain q where
          q: "kernel_work_poll (sys_kernel s) = Some (Some c, (sys_kernel s)\<lparr>reg_if := True, k_input := q\<rparr>)" "queue_contents q = cs"
          by blast
        note step = poll [OF q(1)]
        let ?s = "s\<lparr>sys_kernel := (sys_kernel s)\<lparr>reg_if := True, k_input := q\<rparr>, sys_taken := Some c\<rparr>"
        have ok: "session_ok k0 ?s" using session_foreground_keeps [OF step less.prems(1,2)] by blast
        have "waiting ?s = waiting s" using None Cons q(2) by (simp add: waiting_def)
        then obtain n s' where "(session_foreground ^^ n) ?s s'" "resting k0 ?s s'"
          using less.hyps [of ?s] ok less.prems None by auto
        then show ?thesis using resting_after [of 1 s ?s k0 n s'] step less.prems(1,2) by auto
      qed
    qed
  next
    case (Some c)
    from handles_taken [OF less.prems(1,2) Some less.prems(3)] obtain m k' where
      k': "(session_foreground ^^ m) s (s\<lparr>sys_kernel := k', sys_taken := None, sys_handled := sys_handled s @ [c]\<rparr>)"
        "k_input k' = k_input (sys_kernel s)" by blast
    let ?s = "s\<lparr>sys_kernel := k', sys_taken := None, sys_handled := sys_handled s @ [c]\<rparr>"
    have ok: "session_ok k0 ?s" using session_foreground_power_keeps [OF k'(1) less.prems(1,2)] by blast
    have "waiting s = c # waiting ?s" using Some k'(2) by (simp add: waiting_def)
    then obtain n s' where "(session_foreground ^^ n) ?s s'" "resting k0 ?s s'"
      using less.hyps [of ?s] ok less.prems Some by auto
    then show ?thesis using resting_after [OF k'(1) less.prems(1,2)] by blast
  qed
qed

lemma session_rests:
  assumes ok: "session_ok k0 s" and k0: "pmm_running (k_pmm k0)"
  shows "\<exists>n s'. (session_foreground ^^ n) s s' \<and> resting k0 s s'"
proof (cases "ses_call s")
  case None
  then show ?thesis by (rule rests_between_calls [OF ok k0])
next
  case (Some fs)
  then obtain c where c: "sys_taken s = Some c" using ok by (auto simp: session_ok_def)
  from call_runs [OF ok k0 c Some] obtain k' where
    run: "(session_foreground ^^ Suc (length fs)) s
        (s\<lparr>sys_kernel := k', sys_taken := None, sys_handled := sys_handled s @ [c], ses_call := None\<rparr>)" by blast
  let ?s = "s\<lparr>sys_kernel := k', sys_taken := None, sys_handled := sys_handled s @ [c], ses_call := None\<rparr>"
  have "session_ok k0 ?s" using session_foreground_power_keeps [OF run ok k0] by blast
  from rests_between_calls [OF this k0] obtain n s' where "(session_foreground ^^ n) ?s s'" "resting k0 ?s s'" by auto
  then show ?thesis using resting_after [OF run ok k0] by blast
qed

section \<open>Calls as single steps\<close>

text \<open>
  Every execution of System, where a call is one step, is one of this system: what is proved of
  all sessions holds of the coarser model too.
\<close>

definition at_statement_zero :: "system \<Rightarrow> session" where
  "at_statement_zero s = \<lparr>sys_kernel = sys_kernel s, sys_taken = sys_taken s, sys_queued = sys_queued s,
     sys_handled = sys_handled s, ses_call = None\<rparr>"

lemma session_run_foreground:
  "(session_foreground ^^ n) s s' \<Longrightarrow> session_run s0 s \<Longrightarrow> session_run s0 s'"
proof (induction n arbitrary: s')
  case (Suc n)
  then obtain u where "(session_foreground ^^ n) s u" "session_foreground u s'" by auto
  then show ?case using Suc session_next by (auto simp: session_step_def)
qed simp

lemma system_run_is_session:
  assumes "system_run (start k0) s" "system_ok (start k0)"
  shows "session_run (begin_session k0) (at_statement_zero s)"
proof -
  have k0: "pmm_running (k_pmm k0)" and ok: "session_ok k0 (begin_session k0)"
    using assms(2) begin_session_ok by (simp_all add: start_def system_ok_def kernel_idle_ok_def kernel_ok_def)
  have "system_run s0 s \<Longrightarrow> s0 = start k0 \<Longrightarrow> session_run (begin_session k0) (at_statement_zero s)" for s0 s
  proof (induction rule: system_run.induct)
    case (run_start s)
    then show ?case by (simp add: start_def begin_session_def at_statement_zero_def session_start)
  next
    case (run_next s0 s s')
    then have run: "session_run (begin_session k0) (at_statement_zero s)" by simp
    have sok: "session_ok k0 (at_statement_zero s)" by (rule session_run_ok [OF run ok k0])
    from run_next.hyps(2) consider (fg) "foreground_step s s'" | (irq) "interrupt_step s s'" by (auto simp: system_step_def)
    then show ?case
    proof cases
      case fg
      then show ?thesis
      proof (cases rule: foreground_stepE [consumes 1, case_names poll handle])
        case (poll taken k')
        then have "session_foreground (at_statement_zero s) (at_statement_zero s\<lparr>sys_kernel := k', sys_taken := taken\<rparr>)"
          by (intro session_foreground.poll) (simp_all add: at_statement_zero_def)
        then show ?thesis using session_next [OF run] poll(1) by (simp add: session_step_def at_statement_zero_def)
      next
        case (handle c k')
        from handles_taken [OF sok k0, of c] handle obtain n k1 where
          n: "(session_foreground ^^ n) (at_statement_zero s)
              (at_statement_zero s\<lparr>sys_kernel := k1, sys_taken := None, sys_handled := sys_handled s @ [c]\<rparr>)"
            "run_steps (shell_statements c (sys_kernel s)) (sys_kernel s) = Some k1"
          by (auto simp: at_statement_zero_def)
        have "kernel_idle_ok (sys_kernel s)"
          using session_idle(2) [OF sok] by (simp add: at_statement_zero_def)
        then have "k1 = k'" using handle(4) shell_statements_run [of "sys_kernel s" c] n(2)
          by (simp add: kernel_idle_ok_def returning_def)
        then have "at_statement_zero s\<lparr>sys_kernel := k1, sys_taken := None, sys_handled := sys_handled s @ [c]\<rparr> = at_statement_zero s'"
          using handle(1) by (simp add: at_statement_zero_def)
        then show ?thesis using session_run_foreground [OF n(1) run] by simp
      qed
    next
      case irq
      then show ?thesis
      proof (cases rule: interrupt_stepE [consumes 1, case_names interrupt])
        case (interrupt f k')
        then have "session_interrupt (frame_irq f) (at_statement_zero s) (at_statement_zero s\<lparr>sys_kernel := k'\<lparr>reg_if := True\<rparr>,
            sys_queued := sys_queued (at_statement_zero s) @ typed_char (handler_of (k_interrupts (sys_kernel (at_statement_zero s))) (frame_irq f))
              (sys_kernel (at_statement_zero s))\<rparr>)"
          by (intro session_interrupt.interrupt) (simp_all add: at_statement_zero_def)
        then have "session_step (at_statement_zero s) (at_statement_zero s\<lparr>sys_kernel := k'\<lparr>reg_if := True\<rparr>,
            sys_queued := sys_queued (at_statement_zero s) @ typed_char (handler_of (k_interrupts (sys_kernel (at_statement_zero s))) (frame_irq f))
              (sys_kernel (at_statement_zero s))\<rparr>)" unfolding session_step_def by blast
        then show ?thesis using session_next [OF run] interrupt(1) by (simp add: at_statement_zero_def)
      qed
    qed
  qed
  then show ?thesis using assms(1) by blast
qed

section \<open>Properties\<close>

lemma session_from_start:
  assumes "session_run (begin_session k0) s" "system_ok (start k0)"
  shows "session_ok k0 s" "pmm_running (k_pmm k0)"
proof -
  show k0: "pmm_running (k_pmm k0)" using assms(2) by (simp add: start_def system_ok_def kernel_idle_ok_def kernel_ok_def)
  show "session_ok k0 s" by (rule session_run_ok [OF assms(1) begin_session_ok [OF assms(2)] k0])
qed

lemma session_parts:
  assumes "session_ok k0 s"
  shows "console_ok (sys_kernel s)" "input_ok (k_input (sys_kernel s))" "interrupts_wf (k_interrupts (sys_kernel s))"
    "shell_typed (k_shell (sys_kernel s))"
proof -
  have "console_ok (sys_kernel s) \<and> input_ok (k_input (sys_kernel s)) \<and> interrupts_wf (k_interrupts (sys_kernel s)) \<and>
      shell_typed (k_shell (sys_kernel s))"
  proof (cases "ses_call s")
    case None
    then show ?thesis using session_idle(2) [OF assms] by (simp add: kernel_idle_ok_def kernel_ok_def shell_ok_typed)
  next
    case (Some fs)
    then obtain c where "call_in_progress k0 s c fs" using assms by (auto simp: session_ok_def)
    then show ?thesis by (auto simp: call_in_progress_def during_call_def)
  qed
  then show "console_ok (sys_kernel s)" "input_ok (k_input (sys_kernel s))" "interrupts_wf (k_interrupts (sys_kernel s))"
    "shell_typed (k_shell (sys_kernel s))" by simp_all
qed

section \<open>What interrupts have counted\<close>

text \<open>A run with the lines of its interrupts, in order.\<close>

inductive session_history :: "session \<Rightarrow> nat list \<Rightarrow> session \<Rightarrow> bool" where
  history_start: "session_history s [] s"
| history_foreground: "session_history s ns s' \<Longrightarrow> session_foreground s' s'' \<Longrightarrow> session_history s ns s''"
| history_interrupt: "session_history s ns s' \<Longrightarrow> session_interrupt n s' s'' \<Longrightarrow> session_history s (ns @ [n]) s''"

lemma history_run: "session_history s ns s' \<Longrightarrow> session_run s s'"
proof (induction rule: session_history.induct)
  case (history_start s)
  show ?case by (rule session_start)
next
  case (history_foreground s ns s' s'')
  then show ?case using session_next by (simp add: session_step_def)
next
  case (history_interrupt s ns s' n s'')
  then have "session_step s' s''" unfolding session_step_def by blast
  with history_interrupt.IH show ?case by (rule session_next)
qed

lemma run_history: "session_run s s' \<Longrightarrow> \<exists>ns. session_history s ns s'"
  by (induction rule: session_run.induct) (auto simp: session_step_def intro: session_history.intros)

lemma foreground_counts_nothing:
  assumes "session_foreground s s'" "session_ok k0 s"
  shows "k_interrupts (sys_kernel s') = k_interrupts (sys_kernel s) \<and> k_pit (sys_kernel s') = k_pit (sys_kernel s)"
  using assms(1)
proof (cases rule: session_foregroundE [consumes 1, case_names poll call statement return])
  case poll
  note idle = session_idle [OF assms(2) poll(4)]
  show ?thesis
    by (cases "queue_contents (k_input (sys_kernel s))") (use poll poll_empty poll_first [OF idle(3)] in fastforce)+
next
  case (statement f fs k')
  then obtain c where "call_in_progress k0 s c (f # fs)" using assms(2) by (auto simp: session_ok_def)
  from call_statement_runs [OF this] statement show ?thesis by (auto simp: keeps_handlers_def)
qed simp_all

lemma interrupt_counts:
  assumes "session_interrupt n s s'" "session_ok k0 s"
  shows "n < 16 \<and> dispatched (of_nat n) (k_interrupts (sys_kernel s)) (k_interrupts (sys_kernel s')) \<and>
     k_pit (sys_kernel s') = pit_after (handler_of (k_interrupts (sys_kernel s)) n) (sys_kernel s)"
  using assms(1)
proof (cases rule: session_interruptE [consumes 1, case_names interrupt])
  case (interrupt f k')
  let ?k = "(sys_kernel s)\<lparr>reg_if := False, cpu_halted := False\<rparr>"
  have k: "console_ok ?k" "input_ok (k_input ?k)" "interrupts_wf (k_interrupts ?k)"
    "interrupt_context_depth (k_interrupts ?k) \<noteq> UINT32_MAX"
    using session_parts [OF assms(2)] session_sound(2) [OF assms(2)] by (simp_all add: UINT32_MAX_def)
  from irq_handler_spec [OF k interrupt(4)] interrupt(5) obtain st where
    st: "dispatched (of_nat (frame_irq f)) (k_interrupts ?k) st"
      "irq_effect (handler_of (k_interrupts ?k) (frame_irq f)) (eoi_events (frame_irq f)) st ?k k'" by auto
  have "frame_irq f < 16" using interrupt(4) by (auto simp: hardware_frame_def frame_irq_def)
  then show ?thesis using irq_effect_fields [OF st(2)] st(1) interrupt(1,2) by (simp add: pit_after_def)
qed

text \<open>The counters after interrupts on the lines \<open>ns\<close>.\<close>

definition counted :: "nat list \<Rightarrow> kernel \<Rightarrow> kernel \<Rightarrow> bool" where
  "counted ns k k' \<longleftrightarrow>
     pit_ticks (k_pit k') = pit_ticks (k_pit k) +
       of_nat (length (filter (\<lambda>n. handler_of (k_interrupts k) n = Some Pit_handle_interrupt) ns)) \<and>
     (\<forall>i < 16. count_of (k_interrupts k') i = saturating (count_of (k_interrupts k) i + count_list ns i)) \<and>
     unat (unhandled_irq_count (k_interrupts k')) = saturating (unat (unhandled_irq_count (k_interrupts k)) +
       length (filter (\<lambda>n. handler_of (k_interrupts k) n = None) ns)) \<and>
     invalid_irq_count (k_interrupts k') = invalid_irq_count (k_interrupts k)"

lemma saturating_unat [simp]: "saturating (unat (x :: u32)) = unat x"
proof -
  have "unat x < 2 ^ LENGTH(32)" by (rule unsigned_less)
  then show ?thesis by (simp add: saturating_def)
qed

lemma saturating_Suc [simp]: "saturating (Suc (saturating n)) = saturating (Suc n)"
  by (simp add: saturating_def)

lemma counted_nothing: "counted [] k k"
  by (simp add: counted_def count_of_def)

lemma counted_interrupt:
  assumes "counted ns k0 k" "handler_of (k_interrupts k) = handler_of (k_interrupts k0)" "n < 16"
    and "dispatched (of_nat n) (k_interrupts k) (k_interrupts k')" "k_pit k' = pit_after (handler_of (k_interrupts k) n) k"
  shows "counted (ns @ [n]) k0 k'"
proof -
  have n: "unat (of_nat n :: u8) = n" using assms(3) by (simp add: unat_of_nat)
  show ?thesis using assms unfolding counted_def dispatched_def n by (simp add: pit_after_def)
qed

lemma session_counted:
  assumes "session_history (begin_session k0) ns s" "system_ok (start k0)"
  shows "counted ns k0 (sys_kernel s) \<and> (\<forall>n \<in> set ns. n < 16)"
proof -
  have start: "session_ok k0 (begin_session k0)" "pmm_running (k_pmm k0)"
    using session_from_start [OF session_start assms(2)] by blast+
  have "session_history s0 ns s \<Longrightarrow> s0 = begin_session k0 \<Longrightarrow> counted ns k0 (sys_kernel s) \<and> (\<forall>n \<in> set ns. n < 16)" for s0 ns s
  proof (induction rule: session_history.induct)
    case (history_start s)
    then show ?case by (simp add: begin_session_def counted_nothing)
  next
    case (history_foreground s0 ns s s')
    then have "session_ok k0 s" using session_run_ok [OF history_run] start by blast
    from foreground_counts_nothing [OF history_foreground.hyps(2) this] history_foreground show ?case
      by (simp add: counted_def)
  next
    case (history_interrupt s0 ns s n s')
    then have ok: "session_ok k0 s" using session_run_ok [OF history_run] start by blast
    have "handler_of (k_interrupts (sys_kernel s)) = handler_of (k_interrupts k0)"
      using session_sound(3) [OF ok] by (simp add: system_const_def)
    from counted_interrupt [OF _ this] interrupt_counts [OF history_interrupt.hyps(2) ok] history_interrupt show ?case by simp
  qed
  then show ?thesis using assms(1) by blast
qed

text \<open>C3. The running kernel never stops, faults, loses a character or sleeps on work, wherever interrupts
  come.  In every configuration reachable under any interleaving of hardware interrupts on any
  line with the loop and with the statements of the shell's calls: interrupts are on and no handler is
  active; the characters the keyboard queued are those the shell handled, then the one in hand,
  then those waiting, in order; between two calls the kernel is sound, the line is the editing
  of exactly the handled characters, the screen shows a transcript of them, and the statements of
  a call are what \<open>shell_handle_character\<close> does; when the processor is
  halted no character is pending; every hardware interrupt is handled and returns, and while not
  halted the loop has a next step, so neither a panic nor a fault nor a deadlock is reachable.\<close>

theorem preemptive_kernel_sound:
  assumes "session_run (begin_session k0) s" "system_ok (start k0)"
  shows "reg_if (sys_kernel s) \<and> interrupt_context_depth (k_interrupts (sys_kernel s)) = 0 \<and>
     sys_queued s = sys_handled s @ (case sys_taken s of None \<Rightarrow> [] | Some c \<Rightarrow> [c]) @
       queue_contents (k_input (sys_kernel s)) \<and>
     (ses_call s = None \<longrightarrow> kernel_idle_ok (sys_kernel s) \<and>
        shell_line (k_shell (sys_kernel s)) = fold line_after (sys_handled s) [] \<and>
        (\<exists>t \<in> transcript k0 [] (sys_handled s). screen (sys_kernel s) = fold ts_putchar t (screen k0)) \<and>
        (\<forall>c. shell_handle_character c (sys_kernel s) =
           returning (run_steps (shell_statements c (sys_kernel s))) (sys_kernel s))) \<and>
     (cpu_halted (sys_kernel s) \<longrightarrow> ses_call s = None \<and> sys_handled s = sys_queued s) \<and>
     (\<forall>f. hardware_frame f \<longrightarrow> (\<exists>k'. irq_handler (Some f) ((sys_kernel s)\<lparr>reg_if := False, cpu_halted := False\<rparr>) =
        Some (Returned k'))) \<and>
     (cpu_halted (sys_kernel s) \<or> (\<exists>s'. session_foreground s s')) \<and>
     system_const k0 (sys_kernel s)"
proof -
  note ok = session_from_start(1) [OF assms]
  have calls: "ses_call s = None \<longrightarrow> kernel_idle_ok (sys_kernel s) \<and>
      shell_line (k_shell (sys_kernel s)) = fold line_after (sys_handled s) [] \<and> shown k0 (sys_handled s) (sys_kernel s) \<and>
      (\<forall>c. shell_handle_character c (sys_kernel s) =
         returning (run_steps (shell_statements c (sys_kernel s))) (sys_kernel s))"
    using session_idle(1) [OF ok] shell_statements_run by (simp add: between_calls_def kernel_idle_ok_def)
  have "cpu_halted (sys_kernel s) \<longrightarrow> ses_call s = None \<and> waiting s = []"
    using ok call_in_progress_parts(1) by (cases "ses_call s") (auto simp: session_ok_def)
  then show ?thesis
    using calls ok session_sound [OF ok] session_interrupt_returns [OF ok] session_progress [OF ok]
    by (auto simp: session_ok_def shown_def waiting_def)
qed

text \<open>A timer interrupt, after which the kernel is as sound as before.\<close>

lemma preemptive_kernel_sound_witness:
  "\<exists>s. session_interrupt 0 (begin_session idle_kernel) s \<and> kernel_idle_ok (sys_kernel s) \<and>
     sys_queued s = queue_contents (k_input (sys_kernel s))"
proof -
  have frame: "hardware_frame (sample_frame 32)" by (simp add: hardware_frame_def sample_frame_def)
  from preemptive_kernel_sound [OF session_start idle_start_ok] frame obtain k' where
    "reg_if (sys_kernel (begin_session idle_kernel))"
    "irq_handler (Some (sample_frame 32)) ((sys_kernel (begin_session idle_kernel))\<lparr>reg_if := False, cpu_halted := False\<rparr>) =
       Some (Returned k')" by blast
  from session_interrupt.interrupt [OF this(1) frame this(2)] obtain s where
    s: "session_interrupt 0 (begin_session idle_kernel) s" "sys_taken s = None" "sys_handled s = []" "ses_call s = None"
    by (force simp: begin_session_def frame_irq_def sample_frame_def)
  then have "session_run (begin_session idle_kernel) s" using session_next [OF session_start] by (auto simp: session_step_def)
  from preemptive_kernel_sound [OF this idle_start_ok] s show ?thesis by auto
qed

text \<open>The end of every session.\<close>

lemma session_at_rest:
  assumes "session_run (begin_session k0) s" "system_ok (start k0)"
  shows "\<exists>n s'. (session_foreground ^^ n) s s' \<and> cpu_halted (sys_kernel s') \<and> kernel_idle_ok (sys_kernel s') \<and>
     sys_handled s' = sys_queued s \<and> shell_line (k_shell (sys_kernel s')) = fold line_after (sys_queued s) [] \<and>
     (\<exists>t \<in> transcript k0 [] (sys_queued s). screen (sys_kernel s') = fold ts_putchar t (screen k0)) \<and>
     (\<forall>m u. (session_foreground ^^ m) s u \<longrightarrow> m \<le> n \<and> (session_foreground ^^ (n - m)) u s')"
proof -
  note ok = session_from_start [OF assms]
  from session_rests [OF ok] obtain n s' where
    n: "(session_foreground ^^ n) s s'" and rest: "session_ok k0 s'" "cpu_halted (sys_kernel s')" "sys_queued s' = sys_queued s"
    unfolding resting_def by blast
  have call: "ses_call s' = None"
    using rest(1,2) call_in_progress_parts(1) by (cases "ses_call s'") (auto simp: session_ok_def)
  note idle = session_idle [OF rest(1) call]
  have "sys_handled s' = sys_queued s" using idle(5,6) rest(2,3) by simp
  moreover have "m \<le> n \<and> (session_foreground ^^ (n - m)) u s'" if "(session_foreground ^^ m) s u" for m u
    by (rule deterministic_rest [OF session_foreground_deterministic halted_rests [OF rest(2)] n that])
  ultimately show ?thesis using n rest(2) idle(1,2) unfolding between_calls_def shown_def by metis
qed

text \<open>C7. Every typed character reaches the shell and the screen.  From any reachable configuration, in the
  middle of a call or not, the loop left to itself comes to rest after finitely many steps in one
  certain configuration: every queued character has been handled in the order typed, the line is
  their editing, the screen shows a transcript of all of them, and the processor is halted with
  interrupts on.  Every execution of the loop alone is the beginning of this one.\<close>

theorem session_comes_to_rest:
  assumes "session_run (begin_session k0) s" "system_ok (start k0)"
  shows "\<exists>n s'. (session_foreground ^^ n) s s' \<and> cpu_halted (sys_kernel s') \<and> kernel_idle_ok (sys_kernel s') \<and>
     sys_handled s' = sys_queued s \<and> shell_line (k_shell (sys_kernel s')) = fold line_after (sys_queued s) [] \<and>
     (\<exists>t \<in> transcript k0 [] (sys_queued s). screen (sys_kernel s') = fold ts_putchar t (screen k0)) \<and>
     (\<forall>m u. (session_foreground ^^ m) s u \<longrightarrow> m \<le> n \<and> (session_foreground ^^ (n - m)) u s')"
  using session_at_rest [OF assms] .

text \<open>The key \<open>d\<close>, pressed before the loop first looks.\<close>

definition typing_kernel :: kernel where
  "typing_kernel = idle_kernel\<lparr>k_interrupts := interrupts_static
     \<lparr>irq_handlers := CArray 16 ((\<lambda>_. None)(1 := Some Input_handle_keyboard_interrupt))\<rparr>\<rparr>"

lemma typing_start_ok: "system_ok (start typing_kernel)"
proof (rule start_ok)
  have idle: "kernel_idle_ok idle_kernel" "\<not> cpu_halted idle_kernel" "queue_contents (k_input idle_kernel) = []"
    "shell_line (k_shell idle_kernel) = []"
    using idle_start_ok by (simp_all add: system_ok_def start_def) (auto simp: idle_kernel_def ready_kernel_def kernel_static_def)
  have "interrupts_wf (k_interrupts typing_kernel)" "interrupt_context_depth (k_interrupts typing_kernel) = 0"
    using interrupts_static_wf by (simp_all add: typing_kernel_def interrupts_wf_def interrupts_static_def)
  then show "kernel_idle_ok typing_kernel"
    using idle(1) by (simp add: kernel_idle_ok_def kernel_ok_def typing_kernel_def)
  show "\<not> cpu_halted typing_kernel" "queue_contents (k_input typing_kernel) = []" "shell_line (k_shell typing_kernel) = []"
    using idle by (simp_all add: typing_kernel_def)
qed

lemma typing_char:
  "typed_char (handler_of (k_interrupts typing_kernel) (frame_irq (sample_frame 33))) typing_kernel = ''d''"
proof -
  have "queue_contents (k_input typing_kernel) = []" using typing_start_ok by (simp add: system_ok_def start_def)
  moreover have "frame_irq (sample_frame 33) = 1" by (simp add: frame_irq_def sample_frame_def)
  moreover have "handler_of (k_interrupts typing_kernel) 1 = Some Input_handle_keyboard_interrupt"
    by (simp add: typing_kernel_def handler_of_def)
  moreover have "next_scancode typing_kernel = 0x20" "k_keyboard typing_kernel = keyboard_static"
    by (simp_all add: typing_kernel_def idle_kernel_def ready_kernel_def kernel_static_def next_scancode_def)
  moreover have "fst (keyboard_process_scancode 0x20 keyboard_static)"
    "fst (snd (keyboard_process_scancode 0x20 keyboard_static)) = CHR ''d''" by code_simp+
  ultimately show ?thesis by (auto simp: typed_char_def split: prod.splits)
qed

lemma session_comes_to_rest_witness:
  "\<exists>s n s'. session_interrupt 1 (begin_session typing_kernel) s \<and> (session_foreground ^^ n) s s' \<and> cpu_halted (sys_kernel s') \<and>
     shell_line (k_shell (sys_kernel s')) = ''d'' \<and> screen (sys_kernel s') = ts_putchar CHR ''d'' (screen typing_kernel)"
proof -
  have frame: "hardware_frame (sample_frame 33)" by (simp add: hardware_frame_def sample_frame_def)
  have on: "reg_if (sys_kernel (begin_session typing_kernel))"
    by (simp add: begin_session_def typing_kernel_def idle_kernel_def)
  from session_interrupt_returns [OF begin_session_ok [OF typing_start_ok] frame] obtain k' where
    k': "irq_handler (Some (sample_frame 33)) ((sys_kernel (begin_session typing_kernel))\<lparr>reg_if := False, cpu_halted := False\<rparr>) =
       Some (Returned k')" by blast
  from session_interrupt.interrupt [OF on frame k'] obtain s where
    s: "session_interrupt 1 (begin_session typing_kernel) s" "sys_queued s = ''d''"
    using typing_char by (force simp: begin_session_def frame_irq_def sample_frame_def)
  then have "session_run (begin_session typing_kernel) s" using session_next [OF session_start] by (auto simp: session_step_def)
  moreover have "transcript typing_kernel [] ''d'' = {''d''}"
    by (simp add: possible_echo_def line_echo_def)
  ultimately show ?thesis
    using session_comes_to_rest [OF _ typing_start_ok, of s] s by (auto simp: line_after_def)
qed

end
