(* ===== verification/Cpu.thy ===== *)
theory Cpu
  imports Descriptors
begin

text \<open>
  The instructions the assembly files use: registers, segment registers, flags and the stack of
  the processor, the delivery of an interrupt through a gate and the return from it.  Memory is
  read and written in 32-bit cells at the addresses the stack pointer takes.  A call of a C
  function is a parameter, on the processor and on whatever state the C code has.
\<close>

section \<open>Registers and instructions\<close>

datatype reg = EAX | ECX | EDX | EBX | ESP | EBP | ESI | EDI

datatype segment = CS | DS | ES | FS | GS | SS

record cpu =
  regs :: "reg \<Rightarrow> u32"
  segs :: "segment \<Rightarrow> u16"
  eip :: u32
  eflags :: u32
  cells :: "u32 \<Rightarrow> u32"

datatype 'f instr =
    Cli
  | Push_imm u32
  | Push reg
  | Pop reg
  | Pusha
  | Popa
  | Mov_from_segment segment reg
  | Mov_imm16 u16 reg
  | Mov_imm u32 reg
  | Mov_to_segment reg segment
  | Ljmp u16
  | Add_imm u32 reg
  | Mov_stack u32 reg
  | Call 'f
  | On_state 'f
  | Ret
  | Iret

definition interrupt_flag :: nat where "interrupt_flag = 9"

definition set_reg :: "reg \<Rightarrow> u32 \<Rightarrow> cpu \<Rightarrow> cpu" where
  "set_reg r v c = c\<lparr>regs := (regs c)(r := v)\<rparr>"

definition push :: "u32 \<Rightarrow> cpu \<Rightarrow> cpu" where
  "push v c = (let sp = regs c ESP - 4 in c\<lparr>regs := (regs c)(ESP := sp), cells := (cells c)(sp := v)\<rparr>)"

definition tos :: "cpu \<Rightarrow> u32" where
  "tos c = cells c (regs c ESP)"

definition drop_top :: "cpu \<Rightarrow> cpu" where
  "drop_top c = set_reg ESP (regs c ESP + 4) c"

definition pop :: "reg \<Rightarrow> cpu \<Rightarrow> cpu" where
  "pop r c = set_reg r (tos c) (drop_top c)"

definition low16 :: "u32 \<Rightarrow> u16" where
  "low16 w = ucast w"

definition set_low16 :: "u16 \<Rightarrow> u32 \<Rightarrow> u32" where
  "set_low16 v w = push_bit 16 (drop_bit 16 w) OR ucast v"

text \<open>
  Loading a segment register reads the descriptor the selector names.  \<open>descriptors\<close> is the loaded
  table, as far as its limit reaches.  The null selector may be loaded into a data segment.
\<close>

definition selector_index :: "u16 \<Rightarrow> nat" where
  "selector_index s = unat s div 8"

definition loadable :: "(nat \<Rightarrow> gdt_entry option) \<Rightarrow> segment \<Rightarrow> u16 \<Rightarrow> bool" where
  "loadable descriptors seg sel \<longleftrightarrow>
     \<not> bit sel 2 \<and>
     (if selector_index sel = 0 then seg \<noteq> CS \<and> seg \<noteq> SS
      else case descriptors (selector_index sel) of
          None \<Rightarrow> False
        | Some e \<Rightarrow> bit (gdt_access e) 7 \<and> bit (gdt_access e) 4 \<and>
            (case seg of
               CS \<Rightarrow> bit (gdt_access e) 3
             | SS \<Rightarrow> \<not> bit (gdt_access e) 3 \<and> bit (gdt_access e) 1 \<and> sel AND 3 = 0 \<and>
                 \<not> bit (gdt_access e) 5 \<and> \<not> bit (gdt_access e) 6
             | _ \<Rightarrow> \<not> bit (gdt_access e) 3 \<or> bit (gdt_access e) 1))"

definition load_segment :: "(nat \<Rightarrow> gdt_entry option) \<Rightarrow> segment \<Rightarrow> u16 \<Rightarrow> cpu \<Rightarrow> cpu option" where
  "load_segment descriptors seg sel c =
     (if loadable descriptors seg sel then Some (c\<lparr>segs := (segs c)(seg := sel)\<rparr>) else None)"

definition pusha :: "cpu \<Rightarrow> cpu" where
  "pusha c = fold push [regs c EAX, regs c ECX, regs c EDX, regs c EBX, regs c ESP, regs c EBP, regs c ESI, regs c EDI] c"

definition popa :: "cpu \<Rightarrow> cpu" where
  "popa c = fold (\<lambda>f. f) [pop EDI, pop ESI, pop EBP, drop_top, pop EBX, pop EDX, pop ECX, pop EAX] c"

definition iret :: "(nat \<Rightarrow> gdt_entry option) \<Rightarrow> cpu \<Rightarrow> cpu option" where
  "iret descriptors c =
     (let c1 = (drop_top c)\<lparr>eip := tos c\<rparr>; c3 = drop_top c1 in
      map_option (\<lambda>c. drop_top (c\<lparr>eflags := tos c\<rparr>)) (load_segment descriptors CS (low16 (tos c1)) c3))"

definition ret :: "cpu \<Rightarrow> cpu" where
  "ret c = (drop_top c)\<lparr>eip := tos c\<rparr>"

text \<open>
  Running code goes on, with the processor and the state of the C code, or control stays in a C
  function that does not return.  \<open>None\<close> is a fault.  The descriptors in force depend on that
  state, and so do \<open>lgdt\<close> and \<open>lidt\<close>, whose registers are kept there (\<open>On_state\<close>).  Code is a list, so
  \<open>eip\<close> is followed only where control enters or leaves it.
\<close>

datatype 's progress = Running cpu 's | Stays 's

fun exec1 ::
  "('s \<Rightarrow> nat \<Rightarrow> gdt_entry option) \<Rightarrow> ('f \<Rightarrow> cpu \<Rightarrow> 's \<Rightarrow> 's progress option) \<Rightarrow> 'f instr \<Rightarrow> cpu \<Rightarrow> 's \<Rightarrow> 's progress option"
where
  "exec1 d call Cli c s = Some (Running (c\<lparr>eflags := unset_bit interrupt_flag (eflags c)\<rparr>) s)"
| "exec1 d call (Push_imm v) c s = Some (Running (push v c) s)"
| "exec1 d call (Push r) c s = Some (Running (push (regs c r) c) s)"
| "exec1 d call (Pop r) c s = Some (Running (pop r c) s)"
| "exec1 d call Pusha c s = Some (Running (pusha c) s)"
| "exec1 d call Popa c s = Some (Running (popa c) s)"
| "exec1 d call (Mov_from_segment g r) c s = Some (Running (set_reg r (set_low16 (segs c g) (regs c r)) c) s)"
| "exec1 d call (Mov_imm16 v r) c s = Some (Running (set_reg r (set_low16 v (regs c r)) c) s)"
| "exec1 d call (Mov_imm v r) c s = Some (Running (set_reg r v c) s)"
| "exec1 d call (Mov_to_segment r g) c s = map_option (\<lambda>c. Running c s) (load_segment (d s) g (low16 (regs c r)) c)"
| "exec1 d call (Ljmp sel) c s = map_option (\<lambda>c. Running c s) (load_segment (d s) CS sel c)"
| "exec1 d call (Add_imm v r) c s = Some (Running (set_reg r (regs c r + v) c) s)"
| "exec1 d call (Mov_stack n r) c s = Some (Running (set_reg r (cells c (regs c ESP + n)) c) s)"
| "exec1 d call (Call f) c s = call f c s"
| "exec1 d call (On_state f) c s = call f c s"
| "exec1 d call Ret c s = Some (Running (ret c) s)"
| "exec1 d call Iret c s = map_option (\<lambda>c. Running c s) (iret (d s) c)"

fun exec ::
  "('s \<Rightarrow> nat \<Rightarrow> gdt_entry option) \<Rightarrow> ('f \<Rightarrow> cpu \<Rightarrow> 's \<Rightarrow> 's progress option) \<Rightarrow> 'f instr list \<Rightarrow> cpu \<Rightarrow> 's \<Rightarrow> 's progress option"
where
  "exec d call [] c s = Some (Running c s)"
| "exec d call (i # is) c s =
     (case exec1 d call i c s of Some (Running c' s') \<Rightarrow> exec d call is c' s' | r \<Rightarrow> r)"

lemma exec_append: "exec d call (is @ js) c s =
    (case exec d call is c s of Some (Running c' s') \<Rightarrow> exec d call js c' s' | r \<Rightarrow> r)"
  by (induction "is" arbitrary: c s) (auto split: option.splits progress.splits)

text \<open>
  The delivery of an interrupt through a present gate to the ring the processor is in: flags,
  code segment and return address are saved, then the error code if the vector has one, and an
  interrupt gate clears the interrupt flag.
\<close>

definition deliver :: "idt_entry \<Rightarrow> u32 option \<Rightarrow> cpu \<Rightarrow> cpu option" where
  "deliver gate error c =
     (if \<not> gate_present gate then None
      else
        let c1 = push (eip c) (push (ucast (segs c CS)) (push (eflags c) c));
            c2 = (case error of None \<Rightarrow> c1 | Some e \<Rightarrow> push e c1)
        in Some (c2\<lparr>segs := (segs c2)(CS := idt_selector gate), eip := gate_offset gate,
              eflags := unset_bit interrupt_flag (eflags c2)\<rparr>))"

section \<open>The stack as a list of words\<close>

text \<open>The words from the stack pointer up.\<close>

definition stack_at :: "(u32 \<Rightarrow> u32) \<Rightarrow> u32 \<Rightarrow> u32 list \<Rightarrow> bool" where
  "stack_at m p ws \<longleftrightarrow> (\<forall>i < length ws. m (p + 4 * of_nat i) = ws ! i)"

lemma stack_at_Nil [simp]: "stack_at m p []"
  by (simp add: stack_at_def)

lemma stack_at_Cons [simp]: "stack_at m p (w # ws) \<longleftrightarrow> m p = w \<and> stack_at m (p + 4) ws"
proof -
  have "stack_at m p (w # ws) \<longleftrightarrow> m p = w \<and> (\<forall>i < length ws. m (p + 4 * of_nat (Suc i)) = ws ! i)"
    by (auto simp: stack_at_def less_Suc_eq_0_disj)
  moreover have "p + 4 * of_nat (Suc i) = (p + 4) + 4 * of_nat i" for i by (simp add: algebra_simps)
  ultimately show ?thesis by (simp only: stack_at_def)
qed

text \<open>The cells of up to \<open>2 ^ 30\<close> words are distinct.\<close>

lemma stack_cell_distinct:
  fixes p :: u32
  assumes "i < 2 ^ 30" "j < 2 ^ 30"
  shows "p + 4 * of_nat i = p + 4 * of_nat j \<longleftrightarrow> i = j"
proof -
  have "unat (4 * of_nat n :: u32) = 4 * n" if "n < 2 ^ 30" for n
    using that by (simp add: unat_word_ariths unat_of_nat)
  then show ?thesis using assms by (metis add_left_cancel mult_left_cancel zero_neq_numeral)
qed

text \<open>\<open>c'\<close> is \<open>c\<close> after \<open>ws\<close> were pushed, the last one first; no other cell has changed.\<close>

definition pushed :: "cpu \<Rightarrow> u32 list \<Rightarrow> cpu \<Rightarrow> bool" where
  "pushed c ws c' \<longleftrightarrow> length ws < 2 ^ 30 \<and> regs c' ESP = regs c ESP - 4 * of_nat (length ws) \<and>
     stack_at (cells c') (regs c' ESP) ws \<and>
     (\<forall>a. (\<forall>i < length ws. a \<noteq> regs c' ESP + 4 * of_nat i) \<longrightarrow> cells c' a = cells c a)"

lemma pushed_nothing: "pushed c [] c"
  by (simp add: pushed_def)

lemma pushed_same: "pushed c ws c' \<Longrightarrow> regs d ESP = regs c' ESP \<Longrightarrow> cells d = cells c' \<Longrightarrow> pushed c ws d"
  unfolding pushed_def by metis

lemma pushed_push:
  assumes "pushed c ws c'" "length ws < 2 ^ 30 - 1"
  shows "pushed c (v # ws) (push v c')"
proof -
  let ?p = "regs c' ESP"
  have old: "?p - 4 + 4 * of_nat (Suc i) = ?p + 4 * of_nat i" for i by (simp add: algebra_simps)
  have "stack_at (cells (push v c')) ?p ws"
    unfolding stack_at_def
  proof (intro allI impI)
    fix i assume i: "i < length ws"
    have "?p - 4 + 4 * of_nat (Suc i) \<noteq> ?p - 4 + 4 * of_nat 0"
      using i assms(2) by (subst stack_cell_distinct) simp_all
    then have "?p + 4 * of_nat i \<noteq> ?p - 4" unfolding old by simp
    then have "cells (push v c') (?p + 4 * of_nat i) = cells c' (?p + 4 * of_nat i)"
      by (simp add: push_def Let_def)
    also have "\<dots> = ws ! i" using assms(1) i unfolding pushed_def stack_at_def by blast
    finally show "cells (push v c') (?p + 4 * of_nat i) = ws ! i" .
  qed
  moreover have "cells (push v c') a = cells c a"
    if "\<forall>i < Suc (length ws). a \<noteq> ?p - 4 + 4 * of_nat i" for a
  proof -
    have "a \<noteq> ?p - 4" using that by force
    moreover have "\<forall>i < length ws. a \<noteq> ?p + 4 * of_nat i" using that old by (metis Suc_less_eq)
    ultimately show ?thesis using assms(1) by (simp add: push_def Let_def pushed_def)
  qed
  ultimately show ?thesis
    using assms by (simp add: pushed_def push_def Let_def algebra_simps)
qed

text \<open>Pushing \<open>n\<close> words where the stack pointer is not too low leaves everything from it up as it was.\<close>

lemma cell_address:
  fixes p :: u32
  assumes "4 * n \<le> unat p" "i < n" "n < 2 ^ 30"
  shows "unat (p - 4 * of_nat n + 4 * of_nat i) = unat p - 4 * n + 4 * i"
proof -
  have n: "unat (4 * of_nat j :: u32) = 4 * j" if "j < 2 ^ 30" for j
    using that by (simp add: unat_word_ariths unat_of_nat)
  have "4 * of_nat n \<le> p" using n [OF assms(3)] assms(1) by (simp add: word_le_nat_alt)
  then have "unat (p - 4 * of_nat n) = unat p - 4 * n" using n [OF assms(3)] by (simp add: unat_sub)
  moreover have "i < 2 ^ 30" using assms(2,3) by simp
  moreover have "unat p < 2 ^ 32" by (rule order_less_le_trans [OF unsigned_less]) simp
  ultimately show ?thesis
    using assms by (subst unat_add_lem [THEN iffD1]) (simp_all add: n)
qed

lemma pushed_above:
  assumes "pushed c ws c'" "4 * length ws \<le> unat (regs c ESP)" "regs c ESP \<le> a"
  shows "cells c' a = cells c a"
proof -
  have len: "length ws < 2 ^ 30" using assms(1) by (simp add: pushed_def)
  have "regs c' ESP + 4 * of_nat i < a" if i: "i < length ws" for i
  proof -
    have "unat (regs c ESP - 4 * of_nat (length ws) + 4 * of_nat i) < unat (regs c ESP)"
      unfolding cell_address [OF assms(2) i len] using assms(2) i by simp
    then have "regs c' ESP + 4 * of_nat i < regs c ESP"
      using assms(1) unfolding pushed_def word_less_nat_alt by metis
    then show ?thesis using assms(3) by (rule order_less_le_trans)
  qed
  then have "\<forall>i < length ws. a \<noteq> regs c' ESP + 4 * of_nat i" by auto
  then show ?thesis using assms(1) by (simp add: pushed_def)
qed

end
