(* ===== verification/Stubs.thy ===== *)
theory Stubs
  imports Cpu System
begin

text \<open>
  \<^verbatim>\<open>arch/i386/interrupts/isr_stubs.s\<close>: the code between an interrupt and its C handler.  Each stub
  is the list of its instructions; the jump to the common part is the rest of the list.
\<close>

section \<open>The stubs\<close>

datatype c_handler = Isr_handler | Irq_handler

definition isr_common_stub :: "c_handler instr list" where
  "isr_common_stub =
     [Pusha,
      Mov_from_segment DS EAX, Push EAX,
      Mov_imm16 0x10 EAX,
      Mov_to_segment EAX DS, Mov_to_segment EAX ES, Mov_to_segment EAX FS, Mov_to_segment EAX GS,
      Push ESP, Call Isr_handler, Add_imm 4 ESP,
      Pop EAX,
      Mov_to_segment EAX DS, Mov_to_segment EAX ES, Mov_to_segment EAX FS, Mov_to_segment EAX GS,
      Popa,
      Add_imm 8 ESP,
      Iret]"

definition irq_common_stub :: "c_handler instr list" where
  "irq_common_stub =
     [Pusha,
      Mov_from_segment DS EAX, Push EAX,
      Mov_imm16 0x10 EAX,
      Mov_to_segment EAX DS, Mov_to_segment EAX ES, Mov_to_segment EAX FS, Mov_to_segment EAX GS,
      Push ESP, Call Irq_handler, Add_imm 4 ESP,
      Pop EAX,
      Mov_to_segment EAX DS, Mov_to_segment EAX ES, Mov_to_segment EAX FS, Mov_to_segment EAX GS,
      Popa,
      Add_imm 8 ESP,
      Iret]"

definition ISR_NO_ERROR_CODE :: "u32 \<Rightarrow> c_handler instr list" where
  "ISR_NO_ERROR_CODE number = [Cli, Push_imm 0, Push_imm number] @ isr_common_stub"

definition ISR_ERROR_CODE :: "u32 \<Rightarrow> c_handler instr list" where
  "ISR_ERROR_CODE number = [Cli, Push_imm number] @ isr_common_stub"

definition IRQ :: "nat \<Rightarrow> u32 \<Rightarrow> nat \<times> c_handler instr list" where
  "IRQ number vector = (number, [Cli, Push_imm 0, Push_imm vector] @ irq_common_stub)"

definition isr_stubs :: "c_handler instr list list" where
  "isr_stubs =
     [ISR_NO_ERROR_CODE 0, ISR_NO_ERROR_CODE 1, ISR_NO_ERROR_CODE 2, ISR_NO_ERROR_CODE 3,
      ISR_NO_ERROR_CODE 4, ISR_NO_ERROR_CODE 5, ISR_NO_ERROR_CODE 6, ISR_NO_ERROR_CODE 7,
      ISR_ERROR_CODE 8, ISR_NO_ERROR_CODE 9, ISR_ERROR_CODE 10, ISR_ERROR_CODE 11,
      ISR_ERROR_CODE 12, ISR_ERROR_CODE 13, ISR_ERROR_CODE 14, ISR_NO_ERROR_CODE 15,
      ISR_NO_ERROR_CODE 16, ISR_ERROR_CODE 17, ISR_NO_ERROR_CODE 18, ISR_NO_ERROR_CODE 19,
      ISR_NO_ERROR_CODE 20, ISR_NO_ERROR_CODE 21, ISR_NO_ERROR_CODE 22, ISR_NO_ERROR_CODE 23,
      ISR_NO_ERROR_CODE 24, ISR_NO_ERROR_CODE 25, ISR_NO_ERROR_CODE 26, ISR_NO_ERROR_CODE 27,
      ISR_NO_ERROR_CODE 28, ISR_ERROR_CODE 29, ISR_ERROR_CODE 30, ISR_NO_ERROR_CODE 31]"

definition irq_stubs :: "(nat \<times> c_handler instr list) list" where
  "irq_stubs =
     [IRQ 0 32, IRQ 1 33, IRQ 2 34, IRQ 3 35, IRQ 4 36, IRQ 5 37, IRQ 6 38, IRQ 7 39,
      IRQ 8 40, IRQ 9 41, IRQ 10 42, IRQ 11 43, IRQ 12 44, IRQ 13 45, IRQ 14 46, IRQ 15 47]"

text \<open>The code at an address, where the linker placed the stubs.\<close>

definition stub_table :: "layout \<Rightarrow> (u32 \<times> c_handler instr list) list" where
  "stub_table L =
     map (\<lambda>v. (isr_stub_addr L v, isr_stubs ! v)) [0..<32] @ map (\<lambda>(n, code). (irq_stub_addr L n, code)) irq_stubs"

definition code_at :: "layout \<Rightarrow> u32 \<Rightarrow> c_handler instr list option" where
  "code_at L a = map_of (stub_table L) a"

definition stubs_placed :: "layout \<Rightarrow> bool" where
  "stubs_placed L \<longleftrightarrow> distinct (map fst (stub_table L))"

section \<open>The call of a C handler\<close>

text \<open>The struct the handler reads behind its argument: 14 words, in the order of their offsets.\<close>

definition read_frame :: "(u32 \<Rightarrow> u32) \<Rightarrow> u32 \<Rightarrow> interrupt_frame" where
  "read_frame m p = \<lparr>
     frame_ds = m p, frame_edi = m (p + 4), frame_esi = m (p + 8), frame_ebp = m (p + 12),
     frame_esp = m (p + 16), frame_ebx = m (p + 20), frame_edx = m (p + 24), frame_ecx = m (p + 28),
     frame_eax = m (p + 32), frame_interrupt_number = m (p + 36), frame_error_code = m (p + 40),
     frame_eip = m (p + 44), frame_cs = m (p + 48), frame_eflags = m (p + 52)\<rparr>"

text \<open>
  What the compiled function does to the processor is the parameter \<open>compiled\<close>.  By the calling
  convention it gives back the stack pointer, the callee-saved and the segment registers, and writes
  to the stack only below its arguments and in them; the handlers only read the frame, and the C
  variables are not cells but the kernel state.  A handler that panics does not return.
\<close>

definition abi_ok :: "(kernel \<Rightarrow> cpu \<Rightarrow> cpu) \<Rightarrow> bool" where
  "abi_ok compiled \<longleftrightarrow> (\<forall>k c.
     (\<forall>r \<in> {ESP, EBX, ESI, EDI, EBP}. regs (compiled k c) r = regs c r) \<and> segs (compiled k c) = segs c \<and>
     (\<forall>a \<ge> regs c ESP + 4. cells (compiled k c) a = cells c a))"

definition frame_argument :: "cpu \<Rightarrow> interrupt_frame option" where
  "frame_argument c = (if tos c = 0 then None else Some (read_frame (cells c) (tos c)))"

definition handler_outcome :: "c_handler \<Rightarrow> interrupt_frame option \<Rightarrow> kernel \<Rightarrow> outcome option" where
  "handler_outcome h = (case h of Isr_handler \<Rightarrow> isr_handler | Irq_handler \<Rightarrow> irq_handler)"

definition call_c :: "(kernel \<Rightarrow> cpu \<Rightarrow> cpu) \<Rightarrow> c_handler \<Rightarrow> cpu \<Rightarrow> kernel \<Rightarrow> kernel progress option" where
  "call_c compiled h c k =
     (case handler_outcome h (frame_argument c) k of
        Some (Returned k') \<Rightarrow> Some (Running (compiled k c) k')
      | Some (Stopped k') \<Rightarrow> Some (Stays k')
      | None \<Rightarrow> None)"

section \<open>What a stub does\<close>

definition saved_frame :: "cpu \<Rightarrow> u32 \<Rightarrow> u32 \<Rightarrow> u32 \<Rightarrow> interrupt_frame" where
  "saved_frame c number error esp = \<lparr>
     frame_ds = set_low16 (segs c DS) (regs c EAX), frame_edi = regs c EDI, frame_esi = regs c ESI,
     frame_ebp = regs c EBP, frame_esp = esp, frame_ebx = regs c EBX, frame_edx = regs c EDX,
     frame_ecx = regs c ECX, frame_eax = regs c EAX, frame_interrupt_number = number,
     frame_error_code = error, frame_eip = eip c, frame_cs = ucast (segs c CS), frame_eflags = eflags c\<rparr>"

fun frame_words :: "interrupt_frame \<Rightarrow> u32 list" where
  "frame_words f =
     [frame_ds f, frame_edi f, frame_esi f, frame_ebp f, frame_esp f, frame_ebx f, frame_edx f, frame_ecx f,
      frame_eax f, frame_interrupt_number f, frame_error_code f, frame_eip f, frame_cs f, frame_eflags f]"

lemma read_frame_words: "stack_at m p (frame_words f) \<Longrightarrow> read_frame m p = f"
  by (cases f) (simp add: read_frame_def ac_simps)

lemma low16_set_low16 [simp]: "low16 (set_low16 v w) = v"
  unfolding low16_def set_low16_def by (rule bit_word_eqI) (auto simp: bit_simps)

lemma low16_ucast [simp]: "low16 (ucast v) = v"
  unfolding low16_def by (rule bit_word_eqI) (auto simp: bit_simps)

lemma low16_8 [simp]: "low16 8 = 8"
  by (simp add: low16_def)

definition kernel_segments :: "(nat \<Rightarrow> gdt_entry option) \<Rightarrow> bool" where
  "kernel_segments d \<longleftrightarrow> loadable d CS 8 \<and> loadable d SS 0x10 \<and>
     (\<forall>g \<in> {DS, ES, FS, GS}. loadable d g 0x10)"

text \<open>The descriptors a value of \<open>GDTR\<close> gives access to, and that the flat table holds the kernel's.\<close>

definition table_at :: "layout \<Rightarrow> gdt \<Rightarrow> u16 \<times> u32 \<Rightarrow> nat \<Rightarrow> gdt_entry option" where
  "table_at L g ptr i =
     (if snd ptr = gdt_entries_addr L \<and> 8 * i + 7 \<le> unat (fst ptr) then aread (gdt_entries g) i else None)"

lemma flat_kernel_segments:
  assumes "flat_gdt g"
  shows "kernel_segments (table_at L g (23, gdt_entries_addr L))"
proof -
  have d: "table_at L g (23, gdt_entries_addr L) 1 = Some (gdt_make_entry 0 0xFFFFF 0x9A 0xC0)"
    "table_at L g (23, gdt_entries_addr L) 2 = Some (gdt_make_entry 0 0xFFFFF 0x92 0xC0)"
    using assms by (simp_all add: flat_gdt_def table_at_def)
  have i: "selector_index 8 = 1" "selector_index 0x10 = 2" by (simp_all add: selector_index_def)
  have access: "gdt_access (gdt_make_entry b l a g) = a" for b l a g by (simp add: gdt_make_entry_def)
  show ?thesis
    unfolding kernel_segments_def by (simp add: loadable_def i d d(1) [unfolded One_nat_def] access)
qed

text \<open>The part of a common stub before its call, and the part after it.\<close>

definition enter_c :: "c_handler instr list" where
  "enter_c =
     [Pusha, Mov_from_segment DS EAX, Push EAX, Mov_imm16 0x10 EAX,
      Mov_to_segment EAX DS, Mov_to_segment EAX ES, Mov_to_segment EAX FS, Mov_to_segment EAX GS, Push ESP]"

definition leave_c :: "c_handler instr list" where
  "leave_c =
     [Add_imm 4 ESP, Pop EAX,
      Mov_to_segment EAX DS, Mov_to_segment EAX ES, Mov_to_segment EAX FS, Mov_to_segment EAX GS,
      Popa, Add_imm 8 ESP, Iret]"

lemma common_stubs:
  "isr_common_stub = enter_c @ [Call Isr_handler] @ leave_c" "irq_common_stub = enter_c @ [Call Irq_handler] @ leave_c"
  by (simp_all add: isr_common_stub_def irq_common_stub_def enter_c_def leave_c_def)

lemma push_regs [simp]:
  "r \<noteq> ESP \<Longrightarrow> regs (push v c) r = regs c r" "regs (push v c) ESP = regs c ESP - 4"
  "segs (push v c) = segs c" "eip (push v c) = eip c" "eflags (push v c) = eflags c"
  by (simp_all add: push_def Let_def)

lemma pushed_pusha:
  assumes "pushed c ws c1" "length ws < 2 ^ 30 - 8"
  shows "pushed c ([regs c1 EDI, regs c1 ESI, regs c1 EBP, regs c1 ESP, regs c1 EBX, regs c1 EDX, regs c1 ECX, regs c1 EAX] @ ws)
     (pusha c1)"
  unfolding pusha_def using assms by (simp add: pushed_push)

lemma pusha_regs [simp]:
  "r \<noteq> ESP \<Longrightarrow> regs (pusha c) r = regs c r" "segs (pusha c) = segs c"
  "eip (pusha c) = eip c" "eflags (pusha c) = eflags c"
  by (simp_all add: pusha_def)

lemma enter_c_runs:
  assumes d: "kernel_segments (d k)" and c1: "pushed c ws c1" "length ws < 2 ^ 30 - 16"
  shows "\<exists>c2. exec d call enter_c c1 k = Some (Running c2 k) \<and>
     pushed c ((regs c ESP - 4 * of_nat (length ws + 9)) # set_low16 (segs c1 DS) (regs c1 EAX) #
       [regs c1 EDI, regs c1 ESI, regs c1 EBP, regs c1 ESP, regs c1 EBX, regs c1 EDX, regs c1 ECX, regs c1 EAX] @ ws) c2 \<and>
     segs c2 = (segs c1)(DS := 0x10, ES := 0x10, FS := 0x10, GS := 0x10)"
proof -
  let ?ds = "set_low16 (segs c1 DS) (regs c1 EAX)"
  let ?a = "set_reg EAX ?ds (pusha c1)"
  let ?b = "set_reg EAX (set_low16 0x10 ?ds) (push ?ds ?a)"
  let ?s = "?b\<lparr>segs := (segs c1)(DS := 0x10, ES := 0x10, FS := 0x10, GS := 0x10)\<rparr>"
  have seg: "load_segment (d k) g 0x10 x = Some (x\<lparr>segs := (segs x)(g := 0x10)\<rparr>)" if "g \<in> {DS, ES, FS, GS}" for g x
    using d that by (auto simp: load_segment_def kernel_segments_def)
  have 1: "pushed c ([regs c1 EDI, regs c1 ESI, regs c1 EBP, regs c1 ESP, regs c1 EBX, regs c1 EDX, regs c1 ECX, regs c1 EAX] @ ws) ?a"
    by (rule pushed_same [OF pushed_pusha [OF c1(1)]]) (use c1(2) in \<open>simp_all add: set_reg_def\<close>)
  have 2: "pushed c (?ds # [regs c1 EDI, regs c1 ESI, regs c1 EBP, regs c1 ESP, regs c1 EBX, regs c1 EDX, regs c1 ECX, regs c1 EAX] @ ws) ?s"
    by (rule pushed_same [OF pushed_push [OF 1]]) (use c1(2) in \<open>simp_all add: set_reg_def\<close>)
  have esp: "regs ?s ESP = regs c ESP - 4 * of_nat (length ws + 9)"
    using 2 unfolding pushed_def by (simp add: algebra_simps)
  have run: "exec d call enter_c c1 k = Some (Running (push (regs ?s ESP) ?s) k)"
    by (simp add: enter_c_def seg set_reg_def)
  show ?thesis
    unfolding run using pushed_push [OF 2, of "regs ?s ESP"] c1(2) unfolding esp
    by (intro exI [of _ "push (regs c ESP - 4 * of_nat (length ws + 9)) ?s"]) (simp add: set_reg_def)
qed

text \<open>After the call the frame takes everything back, except \<open>SS\<close>, which nothing has changed.\<close>

lemma leave_c_runs:
  assumes st: "stack_at (cells c3) (regs c3 ESP) (x # frame_words f)"
    and ds: "\<forall>g \<in> {DS, ES, FS, GS}. loadable (d k) g (low16 (frame_ds f))" and cs: "loadable (d k) CS (low16 (frame_cs f))"
  shows "exec d call leave_c c3 k = Some (Running
     \<lparr>regs = (\<lambda>r. case r of EAX \<Rightarrow> frame_eax f | ECX \<Rightarrow> frame_ecx f | EDX \<Rightarrow> frame_edx f | EBX \<Rightarrow> frame_ebx f
                | ESP \<Rightarrow> regs c3 ESP + 60 | EBP \<Rightarrow> frame_ebp f | ESI \<Rightarrow> frame_esi f | EDI \<Rightarrow> frame_edi f),
       segs = (segs c3)(DS := low16 (frame_ds f), ES := low16 (frame_ds f), FS := low16 (frame_ds f),
                GS := low16 (frame_ds f), CS := low16 (frame_cs f)),
       eip = frame_eip f, eflags = frame_eflags f, cells = cells c3\<rparr> k)"
proof -
  have seg: "load_segment (d k) g (low16 (frame_ds f)) x = Some (x\<lparr>segs := (segs x)(g := low16 (frame_ds f))\<rparr>)"
    if "g \<in> {DS, ES, FS, GS}" for g x using ds that by (auto simp: load_segment_def)
  have code: "load_segment (d k) CS (low16 (frame_cs f)) x = Some (x\<lparr>segs := (segs x)(CS := low16 (frame_cs f))\<rparr>)" for x
    using cs by (simp add: load_segment_def)
  have m: "cells c3 (regs c3 ESP + 4) = frame_ds f" "cells c3 (8 + regs c3 ESP) = frame_edi f"
    "cells c3 (12 + regs c3 ESP) = frame_esi f" "cells c3 (16 + regs c3 ESP) = frame_ebp f"
    "cells c3 (24 + regs c3 ESP) = frame_ebx f" "cells c3 (28 + regs c3 ESP) = frame_edx f"
    "cells c3 (32 + regs c3 ESP) = frame_ecx f" "cells c3 (36 + regs c3 ESP) = frame_eax f"
    "cells c3 (48 + regs c3 ESP) = frame_eip f" "cells c3 (52 + regs c3 ESP) = frame_cs f"
    "cells c3 (56 + regs c3 ESP) = frame_eflags f"
    using st by (simp_all add: ac_simps)
  show ?thesis
    by (simp add: leave_c_def seg code m set_reg_def pop_def drop_top_def tos_def popa_def iret_def Let_def)
      (simp add: fun_eq_iff split: reg.split)
qed

text \<open>The interrupted code runs on the segments of the kernel.\<close>

definition in_kernel :: "cpu \<Rightarrow> bool" where
  "in_kernel c \<longleftrightarrow> segs c = (\<lambda>_. 0x10)(CS := 8)"

text \<open>The frame of an interrupt of \<open>c\<close>: its stack pointer is the one before \<^verbatim>\<open>pusha\<close>.\<close>

definition interrupted_frame :: "cpu \<Rightarrow> u32 \<Rightarrow> u32 \<Rightarrow> interrupt_frame" where
  "interrupted_frame c number error = saved_frame c number error (regs c ESP - 20)"

lemma common_stub_runs:
  assumes d: "kernel_segments (d k)"
    and d': "\<And>k'. handler_outcome h (Some (interrupted_frame c number error)) k = Some (Returned k') \<Longrightarrow> kernel_segments (d k')"
    and abi: "abi_ok compiled" and c: "in_kernel c" "60 \<le> unat (regs c ESP)"
    and c1: "pushed c [number, error, eip c, ucast (segs c CS), eflags c] c1"
      "\<forall>r. r \<noteq> ESP \<longrightarrow> regs c1 r = regs c r" "segs c1 = segs c"
  shows "\<exists>m. exec d (call_c compiled) (enter_c @ [Call h] @ leave_c) c1 k =
       (case handler_outcome h (Some (interrupted_frame c number error)) k of
          Some (Returned k') \<Rightarrow> Some (Running (c\<lparr>cells := m\<rparr>) k')
        | Some (Stopped k') \<Rightarrow> Some (Stays k')
        | None \<Rightarrow> None) \<and>
     (\<forall>a \<ge> regs c ESP. m a = cells c a)"
proof -
  let ?f = "interrupted_frame c number error"
  have esp1: "regs c1 ESP = regs c ESP - 20" using c1(1) by (simp add: pushed_def)
  from enter_c_runs [where d = d and k = k, OF d c1(1), of "call_c compiled"] obtain c2 where
    run: "exec d (call_c compiled) enter_c c1 k = Some (Running c2 k)"
    and p2: "pushed c ((regs c ESP - 56) # frame_words ?f) c2"
    and s2: "segs c2 = (segs c1)(DS := 0x10, ES := 0x10, FS := 0x10, GS := 0x10)"
    using c1(2,3) esp1 by (auto simp: interrupted_frame_def saved_frame_def)
  have st2: "stack_at (cells c2) (regs c2 ESP) ((regs c ESP - 56) # frame_words ?f)"
    using p2 unfolding pushed_def by blast
  have esp2: "regs c2 ESP = regs c ESP - 60" using p2 by (simp add: pushed_def)
  have arg: "frame_argument c2 = Some ?f"
  proof -
    have "tos c2 = regs c ESP - 56" "stack_at (cells c2) (regs c ESP - 56) (frame_words ?f)"
      using st2 by (simp_all add: tos_def esp2 del: frame_words.simps)
    moreover have "regs c ESP - 56 \<noteq> 0" using c(2) by auto
    ultimately show ?thesis unfolding frame_argument_def using read_frame_words by simp
  qed
  let ?c3 = "compiled k c2"
  have c3: "regs ?c3 ESP = regs c2 ESP" "segs ?c3 = segs c2"
    "\<forall>a \<ge> regs c2 ESP + 4. cells ?c3 a = cells c2 a"
    using abi by (simp_all add: abi_ok_def)
  have words: "unat (regs c2 ESP + 4 * of_nat i) = unat (regs c ESP) - 60 + 4 * i" if "i < 15" for i
    using cell_address [of 15 "regs c ESP" i] c(2) that by (simp add: esp2)
  have argument: "regs c2 ESP + 4 \<le> regs c2 ESP + 4 + 4 * of_nat i" if "i < 14" for i
    using words [of 1] words [of "Suc i"] that by (simp add: word_le_nat_alt algebra_simps)
  have "stack_at (cells c2) (regs c2 ESP + 4) (frame_words ?f)" using st2 by (simp del: frame_words.simps)
  then have "stack_at (cells ?c3) (regs c2 ESP + 4) (frame_words ?f)"
    using c3(3) argument unfolding stack_at_def by simp
  then have st3: "stack_at (cells ?c3) (regs ?c3 ESP) (cells ?c3 (regs ?c3 ESP) # frame_words ?f)"
    by (simp add: c3(1) del: frame_words.simps)
  have ds: "low16 (frame_ds ?f) = 0x10" "low16 (frame_cs ?f) = 8"
    using c(1) by (simp_all add: interrupted_frame_def saved_frame_def in_kernel_def)
  have "exec d (call_c compiled) leave_c ?c3 k' = Some (Running (c\<lparr>cells := cells ?c3\<rparr>) k')"
    if r: "handler_outcome h (Some ?f) k = Some (Returned k')" for k'
  proof -
    have "\<forall>g \<in> {DS, ES, FS, GS}. loadable (d k') g (low16 (frame_ds ?f))" "loadable (d k') CS (low16 (frame_cs ?f))"
      using d' [OF r] unfolding ds by (auto simp: kernel_segments_def)
    note leave = leave_c_runs [where d = d and k = "k'", OF st3 this]
    have "segs c2 = segs c" using s2 c1(3) c(1) by (auto simp: in_kernel_def fun_eq_iff)
    then show ?thesis unfolding leave ds c3 esp2 using c(1)
      by (cases c) (auto simp: interrupted_frame_def saved_frame_def in_kernel_def fun_eq_iff split: reg.split)
  qed
  moreover have "\<forall>a \<ge> regs c ESP. cells ?c3 a = cells c a"
  proof (intro allI impI)
    fix a assume a: "regs c ESP \<le> a"
    have "regs c2 ESP + 4 \<le> a" using words [of 1] c(2) a by (simp add: word_le_nat_alt)
    then have "cells ?c3 a = cells c2 a" using c3(3) by blast
    also have "\<dots> = cells c a" by (rule pushed_above [OF p2 _ a]) (use c(2) in simp)
    finally show "cells ?c3 a = cells c a" .
  qed
  ultimately show ?thesis using run arg
    by (intro exI [of _ "cells ?c3"]) (simp add: exec_append call_c_def split: option.split outcome.split)
qed

section \<open>From the vector to the handler and back\<close>

text \<open>
  The vectors for which the processor pushes an error code itself.  Vector 21 belongs to control-flow
  enforcement, which is off unless a kernel turns it on.
\<close>

definition has_error_code :: "nat \<Rightarrow> bool" where
  "has_error_code v \<longleftrightarrow> v \<in> {8, 10, 11, 12, 13, 14, 17, 29, 30}"

text \<open>
  One interrupt: the gate of its vector is read from the table, the interrupt is delivered, and
  the code at the gate's address runs.
\<close>

definition loaded_descriptors :: "layout \<Rightarrow> kernel \<Rightarrow> nat \<Rightarrow> gdt_entry option" where
  "loaded_descriptors L k = table_at L (k_gdt k) (reg_gdtr k)"

definition loaded_gate :: "layout \<Rightarrow> kernel \<Rightarrow> nat \<Rightarrow> idt_entry option" where
  "loaded_gate L k v =
     (if snd (reg_idtr k) = idt_entries_addr L \<and> 8 * v + 7 \<le> unat (fst (reg_idtr k))
      then aread (idt_entries (k_idt k)) v else None)"

definition take_interrupt ::
  "layout \<Rightarrow> (kernel \<Rightarrow> cpu \<Rightarrow> cpu) \<Rightarrow> nat \<Rightarrow> u32 \<Rightarrow> cpu \<Rightarrow> kernel \<Rightarrow> kernel progress option"
where
  "take_interrupt L compiled v error c k = do {
     gate \<leftarrow> loaded_gate L k v;
     c1 \<leftarrow> deliver gate (if has_error_code v then Some error else None) c;
     code \<leftarrow> code_at L (eip c1);
     exec (loaded_descriptors L) (call_c compiled) code c1 k
   }"

text \<open>The number and the error code in the frame of a vector.\<close>

definition vector_error :: "nat \<Rightarrow> u32 \<Rightarrow> u32" where
  "vector_error v error = (if has_error_code v then error else 0)"

definition vector_handler :: "nat \<Rightarrow> c_handler" where
  "vector_handler v = (if v < 32 then Isr_handler else Irq_handler)"

definition vector_stub :: "nat \<Rightarrow> c_handler instr list" where
  "vector_stub v = [Cli] @ (if has_error_code v then [] else [Push_imm 0]) @ [Push_imm (of_nat v)] @
     (if v < 32 then isr_common_stub else irq_common_stub)"

lemma isr_stubs_code: "map (\<lambda>v. isr_stubs ! v) [0..<32] = map vector_stub [0..<32]"
  by (simp add: isr_stubs_def upt_rec vector_stub_def has_error_code_def ISR_ERROR_CODE_def ISR_NO_ERROR_CODE_def)

lemma irq_stubs_code: "irq_stubs = map (\<lambda>i. (i, vector_stub (32 + i))) [0..<16]"
  by (simp add: irq_stubs_def upt_rec vector_stub_def has_error_code_def IRQ_def)

lemma stub_table_eq: "stub_table L = map (\<lambda>v. (vector_address L v, vector_stub v)) [0..<48]"
proof -
  have "[0..<48] = [0..<32] @ map ((+) 32) [0..<16]"
    by (simp add: upt_rec)
  moreover have "map (\<lambda>v. (isr_stub_addr L v, isr_stubs ! v)) [0..<32] = map (\<lambda>v. (vector_address L v, vector_stub v)) [0..<32]"
    using isr_stubs_code by (auto simp: map_eq_conv vector_address_def)
  ultimately show ?thesis
    by (simp add: stub_table_def irq_stubs_code vector_address_def comp_def)
qed

lemma code_at_vector:
  assumes "stubs_placed L" "v < 48"
  shows "code_at L (vector_address L v) = Some (vector_stub v)"
proof -
  have "(vector_address L v, vector_stub v) \<in> set (stub_table L)"
    using assms(2) unfolding stub_table_eq by auto
  then show ?thesis
    using assms(1) unfolding code_at_def stubs_placed_def by (rule map_of_is_SomeI [rotated])
qed

text \<open>The tables are loaded as boot loads them.\<close>

definition tables_loaded :: "layout \<Rightarrow> kernel \<Rightarrow> bool" where
  "tables_loaded L k \<longleftrightarrow> reg_gdtr k = (23, gdt_entries_addr L) \<and> flat_gdt (k_gdt k) \<and>
     reg_idtr k = (2047, idt_entries_addr L) \<and> routed_idt L (k_idt k)"

lemma loaded_kernel_segments:
  assumes "tables_loaded L k"
  shows "kernel_segments (loaded_descriptors L k)"
  using assms flat_kernel_segments by (simp add: tables_loaded_def loaded_descriptors_def)

lemma loaded_gate_eq:
  assumes "tables_loaded L k" "v < 48"
  shows "loaded_gate L k v = Some (idt_make_gate (vector_address L v) 8 0x8E)"
  using assms by (simp add: tables_loaded_def routed_idt_def loaded_gate_def)

lemma deliver_pushes:
  assumes "in_kernel c"
  shows "\<exists>c1. deliver (idt_make_gate a 8 0x8E) error c = Some c1 \<and> eip c1 = a \<and> segs c1 = segs c \<and>
     (\<forall>r. r \<noteq> ESP \<longrightarrow> regs c1 r = regs c r) \<and>
     pushed c ((case error of None \<Rightarrow> [] | Some e \<Rightarrow> [e]) @ [eip c, ucast (segs c CS), eflags c]) c1"
proof -
  have gate: "gate_present (idt_make_gate a 8 0x8E)" "idt_selector (idt_make_gate a 8 0x8E) = 8"
    by (simp_all add: gate_present_def idt_make_gate_def)
  have cs: "ucast (segs c CS) = (8 :: u32)" using assms by (simp add: in_kernel_def)
  let ?c1 = "push (eip c) (push 8 (push (eflags c) c))"
  let ?c2 = "case error of None \<Rightarrow> ?c1 | Some e \<Rightarrow> push e ?c1"
  have 1: "pushed c [eip c, 8, eflags c] ?c1" by (intro pushed_push pushed_nothing) simp_all
  have 2: "pushed c ((case error of None \<Rightarrow> [] | Some e \<Rightarrow> [e]) @ [eip c, 8, eflags c]) ?c2"
    using 1 pushed_push [OF 1] by (simp split: option.split)
  have "deliver (idt_make_gate a 8 0x8E) error c =
      Some (?c2\<lparr>segs := (segs ?c2)(CS := 8), eip := a, eflags := unset_bit interrupt_flag (eflags ?c2)\<rparr>)"
    by (simp add: deliver_def gate gate_offset_make cs Let_def)
  moreover have "(segs ?c2)(CS := 8) = segs c" using assms by (auto simp: in_kernel_def fun_eq_iff split: option.split)
  moreover have "\<forall>r. r \<noteq> ESP \<longrightarrow> regs ?c2 r = regs c r" by (simp split: option.split)
  ultimately show ?thesis unfolding cs using pushed_same [OF 2] by simp
qed

lemma vector_stub_runs:
  assumes d: "kernel_segments (d k)"
    and d': "\<And>k'. handler_outcome (vector_handler v) (Some (interrupted_frame c (of_nat v) (vector_error v error))) k =
      Some (Returned k') \<Longrightarrow> kernel_segments (d k')"
    and abi: "abi_ok compiled" and c: "in_kernel c" "60 \<le> unat (regs c ESP)"
    and v: "v < 48" and c1: "pushed c ((if has_error_code v then [error] else []) @ [eip c, ucast (segs c CS), eflags c]) c1"
      "\<forall>r. r \<noteq> ESP \<longrightarrow> regs c1 r = regs c r" "segs c1 = segs c"
  shows "\<exists>m. exec d (call_c compiled) (vector_stub v) c1 k =
       (case handler_outcome (vector_handler v) (Some (interrupted_frame c (of_nat v) (vector_error v error))) k of
          Some (Returned k') \<Rightarrow> Some (Running (c\<lparr>cells := m\<rparr>) k')
        | Some (Stopped k') \<Rightarrow> Some (Stays k')
        | None \<Rightarrow> None) \<and>
     (\<forall>a \<ge> regs c ESP. m a = cells c a)"
proof -
  let ?cli = "c1\<lparr>eflags := unset_bit interrupt_flag (eflags c1)\<rparr>"
  let ?e = "if has_error_code v then ?cli else push 0 ?cli"
  let ?n = "push (of_nat v) ?e"
  let ?rest = "[eip c, ucast (segs c CS), eflags c]"
  have cli: "pushed c ((if has_error_code v then [error] else []) @ ?rest) ?cli"
    by (rule pushed_same [OF c1(1)]) simp_all
  have e: "pushed c (vector_error v error # ?rest) ?e"
  proof (cases "has_error_code v")
    case True
    then show ?thesis using cli by (simp add: vector_error_def)
  next
    case False
    then have "pushed c ?rest ?cli" using cli by simp
    from pushed_push [OF this, of 0] show ?thesis using False by (simp add: vector_error_def)
  qed
  have n: "pushed c (of_nat v # vector_error v error # ?rest) ?n" by (rule pushed_push [OF e]) simp
  have same: "\<forall>r. r \<noteq> ESP \<longrightarrow> regs ?n r = regs c r" "segs ?n = segs c" using c1(2,3) by simp_all
  have stub: "vector_stub v = ([Cli] @ (if has_error_code v then [] else [Push_imm 0]) @ [Push_imm (of_nat v)]) @
      enter_c @ [Call (vector_handler v)] @ leave_c"
    by (simp add: vector_stub_def vector_handler_def common_stubs)
  have "exec d (call_c compiled) ([Cli] @ (if has_error_code v then [] else [Push_imm 0]) @ [Push_imm (of_nat v)]) c1 k =
      Some (Running ?n k)" by simp
  then have "exec d (call_c compiled) (vector_stub v) c1 k =
      exec d (call_c compiled) (enter_c @ [Call (vector_handler v)] @ leave_c) ?n k"
    unfolding stub exec_append [of d _ "_ @ _ @ _"] by simp
  with common_stub_runs [where d = d and k = k, OF d d' abi c n same] show ?thesis by simp
qed

text \<open>An interrupt or exception, from the table to its handler and, when that returns, back.\<close>

lemma take_interrupt_runs:
  assumes "tables_loaded L k" "stubs_placed L" "abi_ok compiled" "in_kernel c" "60 \<le> unat (regs c ESP)" "v < 48"
    "\<And>k'. handler_outcome (vector_handler v) (Some (interrupted_frame c (of_nat v) (vector_error v error))) k =
      Some (Returned k') \<Longrightarrow> tables_loaded L k'"
  shows "\<exists>m. take_interrupt L compiled v error c k =
       (case handler_outcome (vector_handler v) (Some (interrupted_frame c (of_nat v) (vector_error v error))) k of
          Some (Returned k') \<Rightarrow> Some (Running (c\<lparr>cells := m\<rparr>) k')
        | Some (Stopped k') \<Rightarrow> Some (Stays k')
        | None \<Rightarrow> None) \<and>
     (\<forall>a \<ge> regs c ESP. m a = cells c a)"
proof -
  let ?error = "if has_error_code v then Some error else None"
  from deliver_pushes [OF assms(4), of "vector_address L v" ?error] obtain c1 where
    c1: "deliver (idt_make_gate (vector_address L v) 8 0x8E) ?error c = Some c1" "eip c1 = vector_address L v"
      "segs c1 = segs c" "\<forall>r. r \<noteq> ESP \<longrightarrow> regs c1 r = regs c r"
      "pushed c ((case ?error of None \<Rightarrow> [] | Some e \<Rightarrow> [e]) @ [eip c, ucast (segs c CS), eflags c]) c1" by blast
  have p: "pushed c ((if has_error_code v then [error] else []) @ [eip c, ucast (segs c CS), eflags c]) c1"
    using c1(5) by (simp split: if_splits)
  have "take_interrupt L compiled v error c k = exec (loaded_descriptors L) (call_c compiled) (vector_stub v) c1 k"
    by (simp add: take_interrupt_def loaded_gate_eq [OF assms(1,6)] c1(1,2) code_at_vector [OF assms(2,6)] del: exec.simps)
  with vector_stub_runs [where d = "loaded_descriptors L" and k = k, OF loaded_kernel_segments [OF assms(1)] loaded_kernel_segments [OF assms(7)] assms(3-6) p c1(4,3)] show ?thesis by simp
qed

end
