(* ===== verification/Pmm_Init.thy ===== *)
theory Pmm_Init
  imports Memory Layout Pmm
begin

text \<open>
  \<^verbatim>\<open>src/mm/pmm.c\<close>, \<open>pmm_initialize\<close> and the functions it calls: the bitmaps are reset to
  all used, the usable regions of the normalized memory map are released, and what the machine,
  the linker and the boot loader own is reserved again.  The physical memory, the linker's
  addresses and the state of the memory map module are read only.
\<close>

section \<open>Operations\<close>

definition PMM_LOW_MEMORY_RESERVED_BYTES :: u64 where
  "PMM_LOW_MEMORY_RESERVED_BYTES = 0x00100000"

definition pmm_find_highest_physical_address :: "memory \<Rightarrow> u64 option" where
  "pmm_find_highest_physical_address mem = do {
     highest_address \<leftarrow> for_range 0 (unat (memory_get_region_count mem)) (\<lambda>i highest. do {
       region \<leftarrow> memory_get_region (of_nat i) mem;
       case region of
         None \<Rightarrow> Some highest
       | Some r \<Rightarrow>
           let end_address = pmm_range_end (base_address r) (region_length r) in
           Some (if end_address > highest then end_address else highest)
     }) 0;
     let highest' = (if highest_address > PMM_MAX_PHYSICAL_MEMORY_BYTES
                     then PMM_MAX_PHYSICAL_MEMORY_BYTES else highest_address)
     in Some (pmm_align_up highest')
   }"

definition pmm_reset_bitmap :: "pmm \<Rightarrow> pmm option" where
  "pmm_reset_bitmap st =
     for_range 0 (unat PMM_BITMAP_WORD_COUNT) (\<lambda>i st. do {
       b \<leftarrow> awrite (pmm_bitmap st) i 0xFFFFFFFF;
       c \<leftarrow> awrite (pmm_allocated_bitmap st) i 0;
       Some (st\<lparr>pmm_bitmap := b, pmm_allocated_bitmap := c\<rparr>)
     }) st"

definition pmm_release_usable_memory_regions :: "memory \<Rightarrow> pmm \<Rightarrow> pmm option" where
  "pmm_release_usable_memory_regions mem st =
     for_range 0 (unat (memory_get_region_count mem)) (\<lambda>i st. do {
       region \<leftarrow> memory_get_region (of_nat i) mem;
       case region of
         None \<Rightarrow> Some st
       | Some r \<Rightarrow>
           if region_type r \<noteq> MEMORY_REGION_USABLE then Some st
           else pmm_mark_range_free (base_address r) (region_length r) st
     }) st"

definition pmm_reserve_low_memory :: "pmm \<Rightarrow> pmm option" where
  "pmm_reserve_low_memory st = pmm_mark_range_used 0 PMM_LOW_MEMORY_RESERVED_BYTES st"

definition pmm_reserve_kernel_image :: "layout \<Rightarrow> pmm \<Rightarrow> pmm option" where
  "pmm_reserve_kernel_image L st =
     (if kernel_end_addr L \<le> kernel_start_addr L then Some st
      else pmm_mark_range_used (ucast (kernel_start_addr L))
             (ucast (kernel_end_addr L - kernel_start_addr L)) st)"

text \<open>\<open>sizeof(pmm_bitmap)\<close>, the size of each bitmap in bytes.\<close>

definition sizeof_pmm_bitmap :: u64 where
  "sizeof_pmm_bitmap = 4 * ucast PMM_BITMAP_WORD_COUNT"

definition pmm_reserve_bitmap_storage :: "layout \<Rightarrow> pmm \<Rightarrow> pmm option" where
  "pmm_reserve_bitmap_storage L st = do {
     st1 \<leftarrow> pmm_mark_range_used (ucast (pmm_bitmap_addr L)) sizeof_pmm_bitmap st;
     pmm_mark_range_used (ucast (pmm_allocated_bitmap_addr L)) sizeof_pmm_bitmap st1
   }"

definition pmm_reserve_multiboot_information :: "phys \<Rightarrow> u32 \<Rightarrow> pmm \<Rightarrow> pmm option" where
  "pmm_reserve_multiboot_information m multiboot_info_address st =
     (if multiboot_info_address = 0 then Some st
      else
        let info = load_multiboot_info m multiboot_info_address in
        do {
          st1 \<leftarrow> pmm_mark_range_used (ucast multiboot_info_address) (ucast sizeof_multiboot_info) st;
          if flags info AND MULTIBOOT_INFO_MEMORY_MAP \<noteq> 0 \<and> mmap_addr info \<noteq> 0 \<and> mmap_length info > 0
          then pmm_mark_range_used (ucast (mmap_addr info)) (ucast (mmap_length info)) st1
          else Some st1
        })"

definition pmm_initialize ::
  "phys \<Rightarrow> layout \<Rightarrow> memory \<Rightarrow> u32 \<Rightarrow> pmm \<Rightarrow> (kernel_status \<times> pmm) option" where
  "pmm_initialize m L mem multiboot_info_address st =
     (let st0 = st\<lparr>pmm_initialized := False, pmm_total_frames := 0, pmm_free_frames := 0,
                   pmm_used_frames := 0, pmm_next_search_frame := 0\<rparr> in
      if multiboot_info_address = 0 then Some (KERNEL_STATUS_INVALID_ARGUMENT, st0)
      else if \<not> memory_is_initialized mem \<or> memory_was_map_truncated mem
      then Some (KERNEL_STATUS_NOT_READY, st0)
      else do {
        st1 \<leftarrow> pmm_reset_bitmap st0;
        highest_address \<leftarrow> pmm_find_highest_physical_address mem;
        if highest_address = 0 then Some (KERNEL_STATUS_UNAVAILABLE, st1)
        else
          let st2 = st1\<lparr>pmm_total_frames := ucast (highest_address div PMM_FRAME_SIZE_U64)\<rparr> in
          if pmm_total_frames st2 = 0 then Some (KERNEL_STATUS_UNAVAILABLE, st2)
          else do {
            let st3 = st2\<lparr>pmm_used_frames := pmm_total_frames st2, pmm_free_frames := 0\<rparr>;
            st4 \<leftarrow> pmm_release_usable_memory_regions mem st3;
            st5 \<leftarrow> pmm_reserve_low_memory st4;
            st6 \<leftarrow> pmm_reserve_kernel_image L st5;
            st7 \<leftarrow> pmm_reserve_bitmap_storage L st6;
            st8 \<leftarrow> pmm_reserve_multiboot_information m multiboot_info_address st7;
            if pmm_free_frames st8 = 0 then Some (KERNEL_STATUS_OUT_OF_MEMORY, st8)
            else Some (KERNEL_STATUS_OK, st8\<lparr>pmm_initialized := True\<rparr>)
          }
      })"

section \<open>What the boot makes of the memory map\<close>

text \<open>The frames up to the highest described address, at most the 4 GiB the bitmaps cover.\<close>

definition region_end :: "memory_region \<Rightarrow> nat" where
  "region_end r = range_limit (base_address r) (region_length r)"

definition highest_end :: "memory_region list \<Rightarrow> nat" where
  "highest_end rs = foldl max 0 (map region_end rs)"

definition tracked_frames :: "memory_region list \<Rightarrow> nat" where
  "tracked_frames rs = (min (highest_end rs) 4294967296 + 4095) div 4096"

text \<open>The frames wholly inside a usable region.\<close>

definition usable_frames :: "memory_region list \<Rightarrow> nat set" where
  "usable_frames rs = (\<Union>r \<in> {r \<in> set rs. usable r}. frames_inside (base_address r) (region_length r))"

text \<open>The frames that touch what is not the allocator's to give.\<close>

definition image_frames :: "layout \<Rightarrow> nat set" where
  "image_frames L =
     (if kernel_end_addr L \<le> kernel_start_addr L then {}
      else frames_touched (ucast (kernel_start_addr L)) (ucast (kernel_end_addr L - kernel_start_addr L)))"

definition bitmap_frames :: "layout \<Rightarrow> nat set" where
  "bitmap_frames L =
     frames_touched (ucast (pmm_bitmap_addr L)) 131072 \<union>
     frames_touched (ucast (pmm_allocated_bitmap_addr L)) 131072"

definition table_present :: "multiboot_info \<Rightarrow> bool" where
  "table_present info \<longleftrightarrow>
     flags info AND MULTIBOOT_INFO_MEMORY_MAP \<noteq> 0 \<and> mmap_addr info \<noteq> 0 \<and> mmap_length info > 0"

definition multiboot_frames :: "phys \<Rightarrow> u32 \<Rightarrow> nat set" where
  "multiboot_frames m p =
     (let info = load_multiboot_info m p in
      frames_touched (ucast p) 52 \<union>
      (if table_present info then frames_touched (ucast (mmap_addr info)) (ucast (mmap_length info)) else {}))"

definition owned_frames :: "phys \<Rightarrow> layout \<Rightarrow> u32 \<Rightarrow> nat set" where
  "owned_frames m L p =
     frames_touched 0 0x100000 \<union> image_frames L \<union> bitmap_frames L \<union> multiboot_frames m p"

definition boot_frames :: "phys \<Rightarrow> layout \<Rightarrow> memory_region list \<Rightarrow> u32 \<Rightarrow> nat set" where
  "boot_frames m L rs p = {f \<in> usable_frames rs. f < tracked_frames rs} - owned_frames m L p"

definition boot_status :: "phys \<Rightarrow> layout \<Rightarrow> memory \<Rightarrow> u32 \<Rightarrow> kernel_status" where
  "boot_status m L mem p =
     (if p = 0 then KERNEL_STATUS_INVALID_ARGUMENT
      else if \<not> memory_initialized mem \<or> memory_map_truncated mem then KERNEL_STATUS_NOT_READY
      else if stored_regions mem = [] then KERNEL_STATUS_UNAVAILABLE
      else if boot_frames m L (stored_regions mem) p = {} then KERNEL_STATUS_OUT_OF_MEMORY
      else KERNEL_STATUS_OK)"

section \<open>The steps of the initialization\<close>

lemma reset_bitmap_spec:
  assumes "alen (pmm_bitmap st) = 32768" "alen (pmm_allocated_bitmap st) = 32768"
  shows "\<exists>b c. pmm_reset_bitmap st = Some (st\<lparr>pmm_bitmap := b, pmm_allocated_bitmap := c\<rparr>) \<and>
           alen b = 32768 \<and> alen c = 32768 \<and>
           (\<forall>j < 32768. acell b j = 0xFFFFFFFF \<and> acell c j = 0)"
proof -
  let ?P = "\<lambda>i s. \<exists>b c. s = st\<lparr>pmm_bitmap := b, pmm_allocated_bitmap := c\<rparr> \<and>
              alen b = 32768 \<and> alen c = 32768 \<and> (\<forall>j < i. acell b j = 0xFFFFFFFF \<and> acell c j = 0)"
  have start: "?P 0 st"
    using assms by (intro exI [of _ "pmm_bitmap st"] exI [of _ "pmm_allocated_bitmap st"]) simp
  have "\<exists>s'. for_range 0 32768 (\<lambda>i st. do {
       b \<leftarrow> awrite (pmm_bitmap st) i 0xFFFFFFFF;
       c \<leftarrow> awrite (pmm_allocated_bitmap st) i 0;
       Some (st\<lparr>pmm_bitmap := b, pmm_allocated_bitmap := c\<rparr>)
     }) st = Some s' \<and> ?P 32768 s'"
  proof (rule for_range_inv [where P = ?P])
    fix i s assume i: "i < 32768" and "?P i s"
    then obtain b c where
      s: "s = st\<lparr>pmm_bitmap := b, pmm_allocated_bitmap := c\<rparr>" "alen b = 32768" "alen c = 32768"
         "\<forall>j < i. acell b j = 0xFFFFFFFF \<and> acell c j = 0" by blast
    let ?b = "CArray 32768 ((acell b)(i := 0xFFFFFFFF))" and ?c = "CArray 32768 ((acell c)(i := 0))"
    have "?P (Suc i) (st\<lparr>pmm_bitmap := ?b, pmm_allocated_bitmap := ?c\<rparr>)"
      using s(4) by (intro exI [of _ ?b] exI [of _ ?c]) (auto simp: less_Suc_eq)
    then show "\<exists>s'. (do { b \<leftarrow> awrite (pmm_bitmap s) i 0xFFFFFFFF;
        c \<leftarrow> awrite (pmm_allocated_bitmap s) i 0;
        Some (s\<lparr>pmm_bitmap := b, pmm_allocated_bitmap := c\<rparr>) }) = Some s' \<and> ?P (Suc i) s'"
      using i s(1-3) by simp
  qed (use start in simp_all)
  then show ?thesis by (auto simp: pmm_reset_bitmap_def PMM_BITMAP_WORD_COUNT_eq)
qed

lemma get_region_in:
  assumes "memory_inv mem" "i < unat (memory_region_count mem)"
  shows "memory_get_region (of_nat i) mem = Some (Some (stored_regions mem ! i))"
proof -
  have i: "i < 32" using assms by (simp add: memory_inv_def)
  then have "unat (of_nat i :: u32) = i" by (simp add: unat_of_nat)
  then show ?thesis using assms i
    by (simp add: memory_get_region_def stored_regions_def memory_inv_def word_le_nat_alt)
qed

lemma foldl_max_take_Suc:
  "i < length xs \<Longrightarrow> foldl max a (take (Suc i) xs) = max (foldl max a (take i xs)) (xs ! i)"
  by (simp add: take_Suc_conv_app_nth)

lemma PMM_MAX_unat: "unat PMM_MAX_PHYSICAL_MEMORY_BYTES = 4294967296"
  by (simp add: PMM_MAX_PHYSICAL_MEMORY_BYTES_def)

lemma find_highest_spec:
  assumes inv: "memory_inv mem"
  shows "\<exists>h. pmm_find_highest_physical_address mem = Some h \<and>
           unat h = 4096 * tracked_frames (stored_regions mem)"
proof -
  let ?rs = "stored_regions mem"
  let ?P = "\<lambda>i (h :: u64). unat h = foldl max 0 (take i (map region_end ?rs))"
  have "\<exists>h. for_range 0 (unat (memory_get_region_count mem)) (\<lambda>i highest. do {
       region \<leftarrow> memory_get_region (of_nat i) mem;
       case region of
         None \<Rightarrow> Some highest
       | Some r \<Rightarrow>
           let end_address = pmm_range_end (base_address r) (region_length r) in
           Some (if end_address > highest then end_address else highest)
     }) 0 = Some h \<and> ?P (unat (memory_get_region_count mem)) h"
  proof (rule for_range_inv [where P = ?P])
    fix i and h :: u64
    assume "i < unat (memory_get_region_count mem)" and h: "?P i h"
    then have i: "i < unat (memory_region_count mem)" by (simp add: memory_get_region_count_def)
    then have l: "i < length (map region_end ?rs)" by (simp add: length_stored_regions [OF inv])
    let ?e = "pmm_range_end (base_address (?rs ! i)) (region_length (?rs ! i))"
    have "unat (if h < ?e then ?e else h) = max (unat h) (map region_end ?rs ! i)"
      using l by (simp add: word_less_nat_alt range_end_unat region_end_def max_def)
    then show "\<exists>s'. (do { region \<leftarrow> memory_get_region (of_nat i) mem;
        case region of None \<Rightarrow> Some h
        | Some r \<Rightarrow> let end_address = pmm_range_end (base_address r) (region_length r) in
            Some (if end_address > h then end_address else h) }) = Some s' \<and> ?P (Suc i) s'"
      unfolding foldl_max_take_Suc [OF l] h [symmetric]
      by (simp add: get_region_in [OF inv i] Let_def)
  qed simp_all
  then obtain h where h: "unat h = foldl max 0 (map region_end ?rs)"
    and eq: "pmm_find_highest_physical_address mem =
      Some (pmm_align_up (if h > PMM_MAX_PHYSICAL_MEMORY_BYTES then PMM_MAX_PHYSICAL_MEMORY_BYTES else h))"
    by (auto simp: pmm_find_highest_physical_address_def memory_get_region_count_def
        length_stored_regions [OF inv, symmetric] Let_def)
  have "unat (if h > PMM_MAX_PHYSICAL_MEMORY_BYTES then PMM_MAX_PHYSICAL_MEMORY_BYTES else h) =
      min (highest_end ?rs) 4294967296"
    by (simp add: word_less_nat_alt PMM_MAX_unat h highest_end_def)
  then show ?thesis using eq by (simp add: unat_align_up tracked_frames_def)
qed

lemma release_regions_spec:
  assumes inv: "memory_inv mem" and wf: "pmm_wf st"
  shows "\<exists>st'. pmm_release_usable_memory_regions mem st = Some st' \<and> pmm_wf st' \<and>
           pmm_rest st' = pmm_rest st \<and>
           free_set st' = free_set st \<union>
             {f \<in> usable_frames (stored_regions mem). f < unat (pmm_total_frames st)}"
proof -
  let ?rs = "stored_regions mem"
  let ?P = "\<lambda>i s. pmm_wf s \<and> pmm_rest s = pmm_rest st \<and>
     free_set s = free_set st \<union> {f \<in> usable_frames (take i ?rs). f < unat (pmm_total_frames st)}"
  have step: "usable_frames (take (Suc i) ?rs) = usable_frames (take i ?rs) \<union>
      (if usable (?rs ! i) then frames_inside (base_address (?rs ! i)) (region_length (?rs ! i)) else {})"
    if "i < length ?rs" for i
    using that by (auto simp: usable_frames_def take_Suc_conv_app_nth)
  have "\<exists>s'. pmm_release_usable_memory_regions mem st = Some s' \<and> ?P (unat (memory_get_region_count mem)) s'"
    unfolding pmm_release_usable_memory_regions_def
  proof (rule for_range_inv [where P = ?P])
    fix i s
    assume "i < unat (memory_get_region_count mem)" and s: "?P i s"
    then have i: "i < unat (memory_region_count mem)" by (simp add: memory_get_region_count_def)
    then have l: "i < length ?rs" by (simp add: length_stored_regions [OF inv])
    have T: "pmm_total_frames s = pmm_total_frames st" using s by (simp add: pmm_rest_eq)
    from mark_range_free_spec [of s "base_address (?rs ! i)" "region_length (?rs ! i)"] s
    show "\<exists>s'. (do { region \<leftarrow> memory_get_region (of_nat i) mem;
        case region of None \<Rightarrow> Some s
        | Some r \<Rightarrow> if region_type r \<noteq> MEMORY_REGION_USABLE then Some s
                    else pmm_mark_range_free (base_address r) (region_length r) s }) = Some s' \<and>
        ?P (Suc i) s'"
      unfolding step [OF l] T by (auto simp: get_region_in [OF inv i] usable_def)
  next
    show "?P 0 st" using wf by (auto simp: usable_frames_def)
  qed simp
  then show ?thesis
    by (auto simp: memory_get_region_count_def length_stored_regions [OF inv, symmetric])
qed

text \<open>A step that only takes the frames \<open>S\<close> away.\<close>

definition reserves :: "nat set \<Rightarrow> pmm \<Rightarrow> pmm option \<Rightarrow> bool" where
  "reserves S st r \<longleftrightarrow>
     (\<exists>st'. r = Some st' \<and> pmm_wf st' \<and> pmm_rest st' = pmm_rest st \<and> free_set st' = free_set st - S)"

lemma reserves_range: "pmm_wf st \<Longrightarrow> reserves (frames_touched base len) st (pmm_mark_range_used base len st)"
  using mark_range_used_spec by (simp add: reserves_def)

lemma reserves_none: "pmm_wf st \<Longrightarrow> reserves {} st (Some st)"
  by (simp add: reserves_def)

lemma reserves_bind:
  assumes "reserves A st r" and "\<And>s. pmm_wf s \<Longrightarrow> reserves B s (g s)"
  shows "reserves (A \<union> B) st (Option.bind r g)"
proof -
  from assms(1) obtain s where
    s: "r = Some s" "pmm_wf s" "pmm_rest s = pmm_rest st" "free_set s = free_set st - A"
    by (auto simp: reserves_def)
  from assms(2) [OF s(2)] show ?thesis using s by (auto simp: reserves_def)
qed

lemma reserve_low: "pmm_wf st \<Longrightarrow> reserves (frames_touched 0 0x100000) st (pmm_reserve_low_memory st)"
  unfolding pmm_reserve_low_memory_def PMM_LOW_MEMORY_RESERVED_BYTES_def by (rule reserves_range)

lemma reserve_image: "pmm_wf st \<Longrightarrow> reserves (image_frames L) st (pmm_reserve_kernel_image L st)"
  by (simp add: pmm_reserve_kernel_image_def image_frames_def reserves_none reserves_range)

lemma sizeof_pmm_bitmap_eq: "sizeof_pmm_bitmap = 131072"
  by (simp add: sizeof_pmm_bitmap_def PMM_BITMAP_WORD_COUNT_eq)

lemma reserve_bitmaps: "pmm_wf st \<Longrightarrow> reserves (bitmap_frames L) st (pmm_reserve_bitmap_storage L st)"
  unfolding pmm_reserve_bitmap_storage_def bitmap_frames_def sizeof_pmm_bitmap_eq
  by (intro reserves_bind reserves_range)

lemma reserve_multiboot:
  assumes "pmm_wf st" "p \<noteq> 0"
  shows "reserves (multiboot_frames m p) st (pmm_reserve_multiboot_information m p st)"
proof -
  have s: "ucast sizeof_multiboot_info = (52 :: u64)" by (simp add: sizeof_multiboot_info_def)
  show ?thesis
    using assms(2) unfolding pmm_reserve_multiboot_information_def multiboot_frames_def Let_def
      table_present_def [symmetric] s
    by (auto intro!: reserves_bind reserves_range [OF assms(1)] reserves_range reserves_none
        simp: table_present_def [symmetric])
qed

lemma tracked_frames_le: "tracked_frames rs \<le> 1048576"
  by (simp add: tracked_frames_def)

lemma le_foldl_max: "b \<le> foldl max (a :: nat) xs \<longleftrightarrow> b \<le> a \<or> (\<exists>x \<in> set xs. b \<le> x)"
  by (induction xs arbitrary: a) (auto simp: le_max_iff_disj)

lemma tracked_frames_pos:
  assumes "memory_inv mem"
  shows "tracked_frames (stored_regions mem) = 0 \<longleftrightarrow> stored_regions mem = []"
proof (cases "stored_regions mem")
  case Nil
  then show ?thesis by (simp add: tracked_frames_def highest_end_def)
next
  case (Cons r rs)
  then have "region_length r \<noteq> 0" using assms by (simp add: memory_inv_def)
  then have "1 \<le> unat (region_length r)" by (simp add: unat_gt_0 Suc_le_eq)
  then have "1 \<le> region_end r" by (simp add: region_end_def range_limit_def)
  then have "1 \<le> highest_end (stored_regions mem)"
    unfolding highest_end_def le_foldl_max Cons by simp
  then show ?thesis using Cons by (auto simp: tracked_frames_def)
qed

text \<open>The state the usable regions are released into: every tracked frame used.\<close>

lemma all_used:
  assumes "unat T = t" "t \<le> 1048576" "alen b = 32768" "alen c = 32768"
    "\<forall>j < 32768. acell b j = 0xFFFFFFFF \<and> acell c j = 0"
    "s = st\<lparr>pmm_bitmap := b, pmm_allocated_bitmap := c, pmm_total_frames := T, pmm_used_frames := T,
           pmm_free_frames := 0\<rparr>"
  shows "pmm_wf s" "free_set s = {}" "alloc_set s = {}"
proof -
  have in_word: "f div 32 < 32768" if "f < t" for f
    using that assms(2) by (intro less_mult_imp_div_less) simp
  have ones: "bit (0xFFFFFFFF :: u32) (f mod 32)" for f :: nat
  proof -
    have "(0xFFFFFFFF :: u32) = - 1" by simp
    then show ?thesis by (simp only: bit_minus_1_iff possible_bit_word) simp
  qed
  show free: "free_set s = {}" using in_word assms ones
    by (auto simp: free_set_def bitmap_test_def)
  show "alloc_set s = {}" using in_word assms
    by (auto simp: alloc_set_def bitmap_test_def)
  show "pmm_wf s" using free assms by (auto simp: pmm_wf_def)
qed

lemma frames_after_owned:
  assumes "pmm_wf st" "p \<noteq> 0"
  shows "reserves (owned_frames m L p) st (do {
           st5 \<leftarrow> pmm_reserve_low_memory st;
           st6 \<leftarrow> pmm_reserve_kernel_image L st5;
           st7 \<leftarrow> pmm_reserve_bitmap_storage L st6;
           pmm_reserve_multiboot_information m p st7 })"
  using assms unfolding owned_frames_def Un_assoc
  by (intro reserves_bind reserve_low reserve_image reserve_bitmaps reserve_multiboot)

lemma pmm_initialize_ready:
  assumes mem: "memory_inv mem" and p: "p \<noteq> 0"
    and ready: "memory_initialized mem" "\<not> memory_map_truncated mem" "stored_regions mem \<noteq> []"
    and st: "alen (pmm_bitmap st) = 32768" "alen (pmm_allocated_bitmap st) = 32768"
  shows "\<exists>st'. pmm_initialize m L mem p st = Some (boot_status m L mem p, st') \<and>
     pmm_inv st' \<and> alloc_set st' = {} \<and> free_set st' = boot_frames m L (stored_regions mem) p \<and>
     unat (pmm_total_frames st') = tracked_frames (stored_regions mem) \<and>
     pmm_initialized st' = (boot_status m L mem p = KERNEL_STATUS_OK)"
proof -
  let ?rs = "stored_regions mem"
  let ?t = "tracked_frames ?rs"
  define st0 where "st0 = st\<lparr>pmm_initialized := False, pmm_total_frames := 0, pmm_free_frames := 0,
                   pmm_used_frames := 0, pmm_next_search_frame := 0\<rparr>"
  from reset_bitmap_spec [of st0] st obtain b c where
    1: "pmm_reset_bitmap st0 = Some (st0\<lparr>pmm_bitmap := b, pmm_allocated_bitmap := c\<rparr>)"
       "alen b = 32768" "alen c = 32768" "\<forall>j < 32768. acell b j = 0xFFFFFFFF \<and> acell c j = 0"
    by (auto simp: st0_def)
  from find_highest_spec [OF mem] obtain h where
    2: "pmm_find_highest_physical_address mem = Some h" "unat h = 4096 * ?t" by blast
  let ?T = "ucast (h div PMM_FRAME_SIZE_U64) :: u32"
  have T: "unat ?T = ?t"
    using 2(2) tracked_frames_le [of ?rs]
    by (simp add: unat_ucast_u64_u32 unat_div PMM_FRAME_SIZE_U64_def)
  have pos: "?t \<noteq> 0" using tracked_frames_pos [OF mem] ready(3) by simp
  then have nz: "h \<noteq> 0" "?T \<noteq> 0" using 2(2) T by auto
  let ?st3 = "st0\<lparr>pmm_bitmap := b, pmm_allocated_bitmap := c, pmm_total_frames := ?T,
                  pmm_used_frames := ?T, pmm_free_frames := 0\<rparr>"
  note st3 = all_used [OF T tracked_frames_le 1(2-4), of ?st3 st0]
  from release_regions_spec [OF mem st3(1)] obtain st4 where
    4: "pmm_release_usable_memory_regions mem ?st3 = Some st4" "pmm_wf st4" "pmm_rest st4 = pmm_rest ?st3"
       "free_set st4 = {f \<in> usable_frames ?rs. f < ?t}"
    using st3(2) T by auto
  from frames_after_owned [OF 4(2) p, of m L] obtain st8 where
    8: "do { st5 \<leftarrow> pmm_reserve_low_memory st4; st6 \<leftarrow> pmm_reserve_kernel_image L st5;
           st7 \<leftarrow> pmm_reserve_bitmap_storage L st6; pmm_reserve_multiboot_information m p st7 } = Some st8"
       "pmm_wf st8" "pmm_rest st8 = pmm_rest ?st3" "free_set st8 = boot_frames m L ?rs p"
    using 4(3,4) by (auto simp: reserves_def boot_frames_def)
  have run: "pmm_initialize m L mem p st =
      (if pmm_free_frames st8 = 0 then Some (KERNEL_STATUS_OUT_OF_MEMORY, st8)
       else Some (KERNEL_STATUS_OK, st8\<lparr>pmm_initialized := True\<rparr>))"
  proof -
    have "pmm_initialize m L mem p st = Option.bind (Some st8) (\<lambda>st8.
        if pmm_free_frames st8 = 0 then Some (KERNEL_STATUS_OUT_OF_MEMORY, st8)
        else Some (KERNEL_STATUS_OK, st8\<lparr>pmm_initialized := True\<rparr>))"
      unfolding 8(1) [symmetric]
      using p ready(1,2) 1(1) 2(1) nz 4(1)
      by (simp add: pmm_initialize_def st0_def [symmetric] Let_def memory_is_initialized_def
          memory_was_map_truncated_def)
    then show ?thesis by simp
  qed
  have "card (free_set st8) = unat (pmm_free_frames st8)" using 8(2) by (simp add: pmm_wf_def)
  then have zero: "pmm_free_frames st8 = 0 \<longleftrightarrow> boot_frames m L ?rs p = {}"
    unfolding 8(4) [symmetric] by (simp add: word_unat_eq_iff flip: card_0_eq)
  have alloc: "alloc_set st8 = {}" using alloc_set_rest [OF 8(3)] st3(3) by simp
  have rest: "pmm_initialized st8 = False" "pmm_next_search_frame st8 = 0" "pmm_total_frames st8 = ?T"
    using 8(3) by (simp_all add: pmm_rest_eq st0_def)
  let ?u = "st8\<lparr>pmm_initialized := True\<rparr>"
  have u: "pmm_wf ?u" "free_set ?u = free_set st8" "alloc_set ?u = alloc_set st8"
    using 8(2) by (simp_all add: pmm_wf_def free_set_def alloc_set_def)
  show ?thesis
    using run zero 8(2,4) alloc rest T u p ready by (auto simp: boot_status_def pmm_inv_def)
qed

lemma pmm_initialize_refused:
  assumes mem: "memory_inv mem"
    and bad: "p = 0 \<or> \<not> memory_initialized mem \<or> memory_map_truncated mem \<or> stored_regions mem = []"
    and st: "alen (pmm_bitmap st) = 32768" "alen (pmm_allocated_bitmap st) = 32768"
  shows "\<exists>st'. pmm_initialize m L mem p st = Some (boot_status m L mem p, st') \<and>
     \<not> pmm_initialized st' \<and> free_set st' = {} \<and> boot_status m L mem p \<noteq> KERNEL_STATUS_OK"
proof -
  define st0 where "st0 = st\<lparr>pmm_initialized := False, pmm_total_frames := 0, pmm_free_frames := 0,
                   pmm_used_frames := 0, pmm_next_search_frame := 0\<rparr>"
  from reset_bitmap_spec [of st0] st obtain b c where
    1: "pmm_reset_bitmap st0 = Some (st0\<lparr>pmm_bitmap := b, pmm_allocated_bitmap := c\<rparr>)"
    by (auto simp: st0_def)
  from find_highest_spec [OF mem] obtain h where
    2: "pmm_find_highest_physical_address mem = Some h" "unat h = 4096 * tracked_frames (stored_regions mem)"
    by blast
  have h: "h = 0" if "stored_regions mem = []"
  proof -
    have "tracked_frames (stored_regions mem) = 0" using tracked_frames_pos [OF mem] that by simp
    then have "unat h = 0" using 2(2) by simp
    then show ?thesis by (simp add: unat_eq_zero)
  qed
  have st0: "\<not> pmm_initialized st0" "free_set st0 = {}" by (simp_all add: st0_def free_set_def)
  have free1: "free_set (st0\<lparr>pmm_bitmap := b, pmm_allocated_bitmap := c\<rparr>) = {}"
    by (simp add: st0_def free_set_def)
  consider "p = 0" | "p \<noteq> 0" "\<not> memory_initialized mem \<or> memory_map_truncated mem"
    | "p \<noteq> 0" "memory_initialized mem" "\<not> memory_map_truncated mem" "stored_regions mem = []"
    using bad by blast
  then show ?thesis
  proof cases
    case 1
    then show ?thesis using st0 by (simp add: pmm_initialize_def st0_def [symmetric] Let_def boot_status_def)
  next
    case 2
    then show ?thesis using st0
      by (simp add: pmm_initialize_def st0_def [symmetric] Let_def boot_status_def
          memory_is_initialized_def memory_was_map_truncated_def)
  next
    case 3
    then have "pmm_initialize m L mem p st =
        Some (KERNEL_STATUS_UNAVAILABLE, st0\<lparr>pmm_bitmap := b, pmm_allocated_bitmap := c\<rparr>)"
      using 1 2(1) h [OF 3(4)]
      by (simp add: pmm_initialize_def st0_def [symmetric] Let_def
          memory_is_initialized_def memory_was_map_truncated_def)
    then show ?thesis using 3 st0 free1 by (simp add: boot_status_def)
  qed
qed

section \<open>Properties\<close>

lemma touched_bytes:
  assumes "f \<notin> frames_touched base len" "4096 * f \<le> b" "b < 4096 * f + 4096"
    "unat base + unat len < 2 ^ 64"
  shows "\<not> (unat base \<le> b \<and> b < unat base + unat len)"
  using assms by (auto simp: frames_touched_def range_limit_def)

lemma touched_bytes_u32:
  fixes base len :: u32
  assumes "f \<notin> frames_touched (ucast base) (ucast len)" "4096 * f \<le> b" "b < 4096 * f + 4096"
  shows "\<not> (unat base \<le> b \<and> b < unat base + unat len)"
  using touched_bytes [OF assms] unat_lt_u32 [of base] unat_lt_u32 [of len] by simp

text \<open>A map of 8 MiB of usable memory, and a machine whose memory reads as zero.\<close>

definition sample_memory :: memory where
  "sample_memory = memory_static\<lparr>
     memory_initialized := True,
     memory_map_available := True,
     memory_usable_region_count := 1,
     memory_total_usable_bytes := 0x800000,
     memory_regions := CArray 32 ((\<lambda>_. empty_region)
       (0 := \<lparr>base_address = 0, region_length = 0x800000, region_type = MEMORY_REGION_USABLE\<rparr>)),
     memory_region_count := 1\<rparr>"

lemma sample_stored: "stored_regions sample_memory =
    [\<lparr>base_address = 0, region_length = 0x800000, region_type = MEMORY_REGION_USABLE\<rparr>]"
  by (simp add: stored_regions_def sample_memory_def acells_def upt_rec)

lemma sample_memory_inv: "memory_inv sample_memory"
  by (simp add: memory_inv_def sample_stored usable_def)
     (simp add: sample_memory_def memory_static_def)

lemma zero_info: "\<not> table_present (load_multiboot_info (\<lambda>_. 0) p)"
  by (simp add: table_present_def load_multiboot_info_def load32_def load_bytes_def le_value_def upt_rec)

lemma sample_boot_frame: "1024 \<in> boot_frames (\<lambda>_. 0) sample_layout (stored_regions sample_memory) 0x9000"
proof -
  have "1024 \<in> usable_frames (stored_regions sample_memory)"
    by (simp add: usable_frames_def sample_stored frames_inside_def range_limit_def usable_def)
  moreover have "tracked_frames (stored_regions sample_memory) = 2048"
    by (simp add: tracked_frames_def highest_end_def sample_stored region_end_def range_limit_def)
  moreover have "1024 \<notin> owned_frames (\<lambda>_. 0) sample_layout 0x9000"
    by (simp add: owned_frames_def image_frames_def bitmap_frames_def multiboot_frames_def Let_def
        zero_info frames_touched_def range_limit_def sample_layout_def)
  ultimately show ?thesis by (simp add: boot_frames_def)
qed

lemma pmm_static_alen: "alen (pmm_bitmap pmm_static) = 32768" "alen (pmm_allocated_bitmap pmm_static) = 32768"
  by (simp_all add: pmm_static_def PMM_BITMAP_WORD_COUNT_eq)

lemma pmm_initialize_decides:
  assumes "memory_inv mem" "alen (pmm_bitmap st) = 32768" "alen (pmm_allocated_bitmap st) = 32768"
  shows "\<exists>st'. pmm_initialize m L mem p st = Some (boot_status m L mem p, st') \<and>
     (if boot_status m L mem p = KERNEL_STATUS_OK
      then pmm_running st' \<and> alloc_set st' = {} \<and>
           free_set st' = boot_frames m L (stored_regions mem) p \<and> free_set st' \<noteq> {} \<and>
           unat (pmm_total_frames st') = tracked_frames (stored_regions mem)
      else \<not> pmm_initialized st' \<and> free_set st' = {})"
proof (cases "p \<noteq> 0 \<and> memory_initialized mem \<and> \<not> memory_map_truncated mem \<and> stored_regions mem \<noteq> []")
  case True
  then obtain st' where
    st': "pmm_initialize m L mem p st = Some (boot_status m L mem p, st')" "pmm_inv st'" "alloc_set st' = {}"
      "free_set st' = boot_frames m L (stored_regions mem) p"
      "unat (pmm_total_frames st') = tracked_frames (stored_regions mem)"
      "pmm_initialized st' = (boot_status m L mem p = KERNEL_STATUS_OK)"
    using pmm_initialize_ready [OF assms(1) _ _ _ _ assms(2,3)] by blast
  have "boot_status m L mem p = KERNEL_STATUS_OK \<longleftrightarrow> boot_frames m L (stored_regions mem) p \<noteq> {}"
    using True by (simp add: boot_status_def)
  then show ?thesis using st' by (auto simp: pmm_running_def)
next
  case False
  then obtain st' where
    "pmm_initialize m L mem p st = Some (boot_status m L mem p, st')" "\<not> pmm_initialized st'"
    "free_set st' = {}" "boot_status m L mem p \<noteq> KERNEL_STATUS_OK"
    using pmm_initialize_refused [OF assms(1) _ assms(2,3)] by blast
  then show ?thesis by simp
qed

text \<open>C14. \<open>pmm_initialize\<close> never indexes outside a bitmap and decides its status exactly: invalid
  argument for a null information address, not ready without a complete memory map, unavailable
  without a region, out of memory when nothing is left to give, and OK otherwise.  After OK the
  allocator is running, nothing is allocated, and the free frames are exactly the tracked frames
  wholly inside a usable region less those that touch the low megabyte, the kernel image, the
  bitmaps, the Multiboot information or its memory map.  After any other status nothing is free
  and the allocator refuses to run.\<close>

theorem pmm_initialize_exact:
  assumes "memory_inv mem" "alen (pmm_bitmap st) = 32768" "alen (pmm_allocated_bitmap st) = 32768"
  shows "\<exists>st'. pmm_initialize m L mem p st = Some (boot_status m L mem p, st') \<and>
     (if boot_status m L mem p = KERNEL_STATUS_OK
      then pmm_running st' \<and> alloc_set st' = {} \<and>
           free_set st' = boot_frames m L (stored_regions mem) p \<and> free_set st' \<noteq> {} \<and>
           unat (pmm_total_frames st') = tracked_frames (stored_regions mem)
      else \<not> pmm_initialized st' \<and> free_set st' = {})"
  using assms by (rule pmm_initialize_decides)

lemma sample_boot_status: "boot_status (\<lambda>_. 0) sample_layout sample_memory 0x9000 = KERNEL_STATUS_OK"
proof -
  have "boot_frames (\<lambda>_. 0) sample_layout (stored_regions sample_memory) 0x9000 \<noteq> {}"
    using sample_boot_frame by blast
  then show ?thesis
    by (simp add: boot_status_def) (simp add: sample_memory_def memory_static_def stored_regions_def acells_def)
qed

lemma pmm_initialize_exact_witness:
  "\<exists>st'. pmm_initialize (\<lambda>_. 0) sample_layout sample_memory 0x9000 pmm_static = Some (KERNEL_STATUS_OK, st') \<and>
     pmm_running st' \<and> 1024 \<in> free_set st'"
  using pmm_initialize_exact [OF sample_memory_inv pmm_static_alen, of "\<lambda>_. 0" sample_layout "0x9000"]
    sample_boot_frame
  by (auto simp: sample_boot_status)

lemma free_bytes_safe:
  assumes "memory_inv mem" "alen (pmm_bitmap st) = 32768" "alen (pmm_allocated_bitmap st) = 32768"
    and ok: "pmm_initialize m L mem p st = Some (KERNEL_STATUS_OK, st')"
    and b: "f \<in> free_set st'" "4096 * f \<le> b" "b < 4096 * f + 4096"
  shows "(\<exists>r \<in> set (stored_regions mem). usable r \<and>
            unat (base_address r) \<le> b \<and> b < unat (base_address r) + unat (region_length r)) \<and>
     0x100000 \<le> b \<and> b < 2 ^ 32 \<and>
     \<not> (unat (kernel_start_addr L) \<le> b \<and> b < unat (kernel_end_addr L)) \<and>
     \<not> (unat (pmm_bitmap_addr L) \<le> b \<and> b < unat (pmm_bitmap_addr L) + 131072) \<and>
     \<not> (unat (pmm_allocated_bitmap_addr L) \<le> b \<and> b < unat (pmm_allocated_bitmap_addr L) + 131072) \<and>
     \<not> (unat p \<le> b \<and> b < unat p + 52) \<and>
     (table_present (load_multiboot_info m p) \<longrightarrow>
        \<not> (unat (mmap_addr (load_multiboot_info m p)) \<le> b \<and>
           b < unat (mmap_addr (load_multiboot_info m p)) + unat (mmap_length (load_multiboot_info m p))))"
proof -
  let ?rs = "stored_regions mem" and ?info = "load_multiboot_info m p"
  have status: "boot_status m L mem p = KERNEL_STATUS_OK"
  proof (cases "p \<noteq> 0 \<and> memory_initialized mem \<and> \<not> memory_map_truncated mem \<and> ?rs \<noteq> []")
    case True
    then show ?thesis using pmm_initialize_ready [OF assms(1) _ _ _ _ assms(2,3)] ok by fastforce
  next
    case False
    then have "p = 0 \<or> \<not> memory_initialized mem \<or> memory_map_truncated mem \<or> ?rs = []" by blast
    from pmm_initialize_refused [OF assms(1) this assms(2,3), of m L] ok show ?thesis by auto
  qed
  then have "p \<noteq> 0" "memory_initialized mem" "\<not> memory_map_truncated mem" "?rs \<noteq> []"
    by (auto simp: boot_status_def split: if_splits)
  from pmm_initialize_ready [OF assms(1) this assms(2,3), of m L] ok
  have "free_set st' = boot_frames m L ?rs p" by auto
  with b(1) have f: "f \<in> usable_frames ?rs" "f < tracked_frames ?rs" "f \<notin> owned_frames m L p"
    by (auto simp: boot_frames_def)
  from f(1) obtain r where r: "r \<in> set ?rs" "usable r" "f \<in> frames_inside (base_address r) (region_length r)"
    by (auto simp: usable_frames_def)
  then have region: "unat (base_address r) \<le> b" "b < unat (base_address r) + unat (region_length r)"
    using b(2,3) by (auto simp: frames_inside_def range_limit_def)
  have top: "b < 2 ^ 32" using f(2) tracked_frames_le [of ?rs] b(3) by simp
  have low: "0x100000 \<le> b"
    using f(3) touched_bytes [of f 0 "0x100000" b] b(2,3) by (auto simp: owned_frames_def)
  have image: "\<not> (unat (kernel_start_addr L) \<le> b \<and> b < unat (kernel_end_addr L))"
    using f(3) touched_bytes_u32 [of f "kernel_start_addr L" "kernel_end_addr L - kernel_start_addr L" b] b(2,3)
    by (auto simp: owned_frames_def image_frames_def unat_sub_word word_le_nat_alt split: if_splits)
  have bitmaps: "\<not> (unat a \<le> b \<and> b < unat a + 131072)"
    if "a = pmm_bitmap_addr L \<or> a = pmm_allocated_bitmap_addr L" for a
    using f(3) touched_bytes_u32 [of f a 131072 b] b(2,3) that
    by (auto simp: owned_frames_def bitmap_frames_def)
  have info: "\<not> (unat p \<le> b \<and> b < unat p + 52)"
    using f(3) touched_bytes_u32 [of f p 52 b] b(2,3)
    by (auto simp: owned_frames_def multiboot_frames_def Let_def)
  have table: "table_present ?info \<longrightarrow>
      \<not> (unat (mmap_addr ?info) \<le> b \<and> b < unat (mmap_addr ?info) + unat (mmap_length ?info))"
    using f(3) touched_bytes_u32 [of f "mmap_addr ?info" "mmap_length ?info" b] b(2,3)
    by (auto simp: owned_frames_def multiboot_frames_def Let_def)
  show ?thesis using r(1,2) region low top image bitmaps info table by blast
qed

text \<open>C1. No byte of a frame the allocator can ever grant belongs to someone else.  After a successful
  initialization, every byte of every free frame lies in a region the boot loader called usable,
  above the first megabyte, outside the kernel image and both bitmaps, and outside the Multiboot
  information block and the memory-map table it names.\<close>

theorem pmm_free_frames_safe:
  assumes "memory_inv mem" "alen (pmm_bitmap st) = 32768" "alen (pmm_allocated_bitmap st) = 32768"
    and ok: "pmm_initialize m L mem p st = Some (KERNEL_STATUS_OK, st')"
    and b: "f \<in> free_set st'" "4096 * f \<le> b" "b < 4096 * f + 4096"
  shows "(\<exists>r \<in> set (stored_regions mem). usable r \<and>
            unat (base_address r) \<le> b \<and> b < unat (base_address r) + unat (region_length r)) \<and>
     0x100000 \<le> b \<and> b < 2 ^ 32 \<and>
     \<not> (unat (kernel_start_addr L) \<le> b \<and> b < unat (kernel_end_addr L)) \<and>
     \<not> (unat (pmm_bitmap_addr L) \<le> b \<and> b < unat (pmm_bitmap_addr L) + 131072) \<and>
     \<not> (unat (pmm_allocated_bitmap_addr L) \<le> b \<and> b < unat (pmm_allocated_bitmap_addr L) + 131072) \<and>
     \<not> (unat p \<le> b \<and> b < unat p + 52) \<and>
     (table_present (load_multiboot_info m p) \<longrightarrow>
        \<not> (unat (mmap_addr (load_multiboot_info m p)) \<le> b \<and>
           b < unat (mmap_addr (load_multiboot_info m p)) + unat (mmap_length (load_multiboot_info m p))))"
  using assms by (rule free_bytes_safe)

lemma pmm_free_frames_safe_witness:
  "\<exists>st'. pmm_initialize (\<lambda>_. 0) sample_layout sample_memory 0x9000 pmm_static = Some (KERNEL_STATUS_OK, st') \<and>
     \<not> (unat (kernel_start_addr sample_layout) \<le> 4194304 \<and> 4194304 < unat (kernel_end_addr sample_layout))"
proof -
  have ready: "memory_initialized sample_memory" "\<not> memory_map_truncated sample_memory"
      "stored_regions sample_memory \<noteq> []"
    by (simp_all add: sample_stored) (simp_all add: sample_memory_def memory_static_def)
  from pmm_initialize_ready [OF sample_memory_inv _ ready pmm_static_alen, of "0x9000" "\<lambda>_. 0" sample_layout]
  obtain st' where
    st': "pmm_initialize (\<lambda>_. 0) sample_layout sample_memory 0x9000 pmm_static = Some (KERNEL_STATUS_OK, st')"
      "free_set st' = boot_frames (\<lambda>_. 0) sample_layout (stored_regions sample_memory) 0x9000"
    by (auto simp: sample_boot_status)
  then have "1024 \<in> free_set st'" using sample_boot_frame by simp
  from pmm_free_frames_safe [OF sample_memory_inv pmm_static_alen st'(1) this, of 4194304]
  show ?thesis using st'(1) by simp
qed

end
