(* ===== verification/Boot.thy ===== *)
theory Boot
  imports System Pmm_Init
begin

text \<open>
  \<^verbatim>\<open>src/kernel/kernel.c\<close>: the boot sequence of \<open>kernel_main\<close> up to its endless loop, which is the
  step relation of the theory System.
\<close>

section \<open>Operations\<close>

definition MULTIBOOT_BOOTLOADER_MAGIC :: u32 where "MULTIBOOT_BOOTLOADER_MAGIC = 0x2BADB002"

definition kernel_require :: "kernel_status \<Rightarrow> cstring \<Rightarrow> kernel \<Rightarrow> outcome option" where
  "kernel_require status panic_message k =
     (if \<not> kernel_status_is_ok status then panics panic_message k else Some (Returned k))"

text \<open>A condition \<open>kernel_main\<close> panics on.\<close>

definition panic_if :: "bool \<Rightarrow> cstring \<Rightarrow> kernel \<Rightarrow> outcome option" where
  "panic_if b message k = (if b then panics message k else Some (Returned k))"

text \<open>The calls of \<open>kernel_main\<close>, each on the variables of its module.\<close>

definition call_klog_initialize :: "kernel \<Rightarrow> outcome option" where
  "call_klog_initialize k =
     (let (log_status, k1) = klog_initialize k in
      Some (Returned (if log_status = KERNEL_STATUS_UNAVAILABLE
        then console_writestring (Some (''[WARNING] Serial logging unavailable; using VGA only.'' @ [CHR 0x0A])) k1
        else k1)))"

definition call_memory_initialize :: "phys \<Rightarrow> u32 \<Rightarrow> kernel \<Rightarrow> outcome option" where
  "call_memory_initialize m address k = do {
     (status, mem) \<leftarrow> memory_initialize m address (k_memory k);
     kernel_require status ''Memory-map initialization failed'' (k\<lparr>k_memory := mem\<rparr>)
   }"

definition call_pmm_initialize :: "phys \<Rightarrow> layout \<Rightarrow> u32 \<Rightarrow> kernel \<Rightarrow> outcome option" where
  "call_pmm_initialize m L address k = do {
     (status, p) \<leftarrow> pmm_initialize m L (k_memory k) address (k_pmm k);
     kernel_require status ''Physical memory manager initialization failed'' (k\<lparr>k_pmm := p\<rparr>)
   }"

definition call_gdt_initialize :: "layout \<Rightarrow> kernel \<Rightarrow> outcome option" where
  "call_gdt_initialize L k = do {
     (g, k1) \<leftarrow> gdt_initialize L (k_gdt k) k;
     Some (Returned (k1\<lparr>k_gdt := g\<rparr>))
   }"

definition call_vmm_initialize :: "layout \<Rightarrow> kernel \<Rightarrow> outcome option" where
  "call_vmm_initialize L k = do {
     (status, p, v, k1) \<leftarrow> vmm_initialize L (k_paging k) (k_vmm k) k;
     kernel_require status ''Virtual memory manager initialization failed'' (k1\<lparr>k_paging := p, k_vmm := v\<rparr>)
   }"

definition call_heap_initialize :: "layout \<Rightarrow> kernel \<Rightarrow> outcome option" where
  "call_heap_initialize L k =
     (let (status, h) = heap_initialize L (k_heap k) in
      kernel_require status ''Kernel heap backing-region initialization failed'' (k\<lparr>k_heap := h\<rparr>))"

definition call_interrupts_initialize :: "kernel \<Rightarrow> outcome option" where
  "call_interrupts_initialize k = do {
     st \<leftarrow> interrupts_initialize (k_interrupts k);
     Some (Returned (k\<lparr>k_interrupts := st\<rparr>))
   }"

definition call_input_initialize :: "kernel \<Rightarrow> outcome option" where
  "call_input_initialize k = Some (Returned (k\<lparr>k_input := input_initialize (k_input k)\<rparr>))"

definition call_idt_initialize :: "layout \<Rightarrow> kernel \<Rightarrow> outcome option" where
  "call_idt_initialize L k = do {
     (t, k1) \<leftarrow> idt_initialize L (k_idt k) k;
     Some (Returned (k1\<lparr>k_idt := t\<rparr>))
   }"

definition call_register_irq :: "u8 \<Rightarrow> irq_handler \<Rightarrow> cstring \<Rightarrow> kernel \<Rightarrow> outcome option" where
  "call_register_irq irq handler message k = do {
     (registered, st) \<leftarrow> interrupts_register_irq irq (Some handler) (k_interrupts k);
     panic_if (\<not> registered) message (k\<lparr>k_interrupts := st\<rparr>)
   }"

definition call_pit_initialize :: "u32 \<Rightarrow> kernel \<Rightarrow> outcome option" where
  "call_pit_initialize hz k =
     (let (programmed, t, k1) = pit_initialize hz (k_pit k) k in
      panic_if (\<not> programmed) ''PIT initialization failed'' (k1\<lparr>k_pit := t\<rparr>))"

definition call_unmask_irq :: "u8 \<Rightarrow> cstring \<Rightarrow> kernel \<Rightarrow> outcome option" where
  "call_unmask_irq irq message k =
     (let (unmasked, k1) = pic_unmask_irq irq k in panic_if (\<not> unmasked) message k1)"

definition kernel_boot :: "phys \<Rightarrow> layout \<Rightarrow> u32 \<Rightarrow> u32 \<Rightarrow> kernel \<Rightarrow> outcome option" where
  "kernel_boot m L multiboot_magic multiboot_info_address = run_all [
     (\<lambda>k. Some (Returned (console_initialize (cpu_disable_interrupts k)))),
     panic_if (multiboot_magic \<noteq> MULTIBOOT_BOOTLOADER_MAGIC) ''Invalid Multiboot bootloader magic'',
     panic_if (multiboot_info_address = 0) ''Multiboot information address is zero'',
     call_klog_initialize,
     returning (run_steps [log_puts ''wigOSX '', log_puts WIGOSX_VERSION_STRING, log_putc (CHR 0x0A)]),
     returning (log_puts (''Initializing normalized memory map...'' @ [CHR 0x0A])),
     call_memory_initialize m multiboot_info_address,
     (\<lambda>k. returning (memory_print_summary (k_memory k)) k),
     returning (log_puts (''Initializing physical memory manager...'' @ [CHR 0x0A])),
     call_pmm_initialize m L multiboot_info_address,
     (\<lambda>k. returning (pmm_print_summary (k_pmm k)) k),
     returning (log_puts (''Initializing GDT...'' @ [CHR 0x0A])),
     call_gdt_initialize L,
     returning (log_puts (''Initializing virtual memory manager...'' @ [CHR 0x0A])),
     call_vmm_initialize L,
     (\<lambda>k. returning (vmm_print_summary (k_paging k) (k_vmm k)) k),
     returning (log_puts (''Initializing kernel heap backing region...'' @ [CHR 0x0A])),
     call_heap_initialize L,
     returning (log_puts (''Initializing interrupt services...'' @ [CHR 0x0A])),
     call_interrupts_initialize,
     call_input_initialize,
     call_idt_initialize L,
     (\<lambda>k. Some (Returned (pic_mask_all (pic_remap k)))),
     call_register_irq 0 Pit_handle_interrupt ''Failed to register PIT IRQ handler'',
     call_register_irq 1 Input_handle_keyboard_interrupt ''Failed to register keyboard IRQ handler'',
     call_pit_initialize 100,
     returning shell_initialize,
     call_unmask_irq 0 ''Failed to unmask PIT IRQ0'',
     call_unmask_irq 1 ''Failed to unmask keyboard IRQ1'',
     (\<lambda>k. Some (Returned (cpu_enable_interrupts k)))]"

section \<open>Stages of the boot\<close>

text \<open>\<open>f\<close>, started where \<open>P\<close> holds, ends with an outcome that satisfies \<open>R\<close>.\<close>

definition leads :: "(kernel \<Rightarrow> bool) \<Rightarrow> (kernel \<Rightarrow> outcome option) \<Rightarrow> (outcome \<Rightarrow> bool) \<Rightarrow> bool" where
  "leads P f R \<longleftrightarrow> (\<forall>k. P k \<longrightarrow> (\<exists>r. f k = Some r \<and> R r))"

definition stage :: "(kernel \<Rightarrow> bool) \<Rightarrow> (kernel \<Rightarrow> outcome option) \<Rightarrow> (kernel \<Rightarrow> bool) \<Rightarrow> bool" where
  "stage P f Q \<longleftrightarrow> (\<forall>k. P k \<longrightarrow> (\<exists>k'. f k = Some (Returned k') \<and> Q k'))"

lemma leads_next: "stage P f Q \<Longrightarrow> leads Q (run_all fs) R \<Longrightarrow> leads P (run_all (f # fs)) R"
  unfolding stage_def leads_def by fastforce

lemma leads_end: "(\<And>k. P k \<Longrightarrow> R (Returned k)) \<Longrightarrow> leads P (run_all []) R"
  by (simp add: leads_def)

lemma leads_stop: "(\<And>k. P k \<Longrightarrow> \<exists>k'. f k = Some (Stopped k') \<and> R (Stopped k')) \<Longrightarrow> leads P (run_all (f # fs)) R"
  unfolding leads_def by fastforce

text \<open>
  The state during the boot: the kernel \<open>s\<close> up to output and port accesses, the text \<open>t\<close> shown on
  the screen \<open>scr\<close>, and the interrupt controllers in the state \<open>c\<close>.
\<close>

definition same_state :: "kernel \<Rightarrow> kernel \<Rightarrow> bool" where
  "same_state s k \<longleftrightarrow> klog_frame (s\<lparr>io_log := io_log k\<rparr>) k"

definition booting ::
  "pic_chip \<times> pic_chip \<Rightarrow> tscreen \<Rightarrow> kernel \<Rightarrow> pic_chip \<times> pic_chip \<Rightarrow> string \<Rightarrow> kernel \<Rightarrow> bool" where
  "booting chips scr s c t k \<longleftrightarrow>
     console_ok k \<and> screen k = fold ts_putchar t scr \<and> same_state s k \<and> pic_state chips k = c"

lemma same_state_fields:
  assumes "same_state s k"
  shows "k_memory k = k_memory s" "k_pmm k = k_pmm s" "k_paging k = k_paging s" "k_vmm k = k_vmm s"
    "k_heap k = k_heap s" "k_gdt k = k_gdt s" "k_idt k = k_idt s" "k_interrupts k = k_interrupts s"
    "k_input k = k_input s" "k_keyboard k = k_keyboard s" "k_pit k = k_pit s" "k_shell k = k_shell s"
    "reg_if k = reg_if s" "cpu_halted k = cpu_halted s" "reg_cr0 k = reg_cr0 s" "reg_cr3 k = reg_cr3 s"
    "reg_gdtr k = reg_gdtr s" "reg_idtr k = reg_idtr s" "io_device k = io_device s"
  using frame_kernel [OF assms [unfolded same_state_def]] by simp_all

lemma same_state_frame: "same_state s k \<Longrightarrow> klog_frame k k' \<Longrightarrow> same_state s k'"
  by (cases s; cases k; cases k') (simp add: same_state_def klog_frame_def)

lemma same_state_refl: "same_state s s"
  using klog_frame_refl [of s] by (simp add: same_state_def)

lemma same_state_ports: "same_state s (k\<lparr>io_log := l\<rparr>) = same_state s k"
  by (cases s; cases k) (simp add: same_state_def klog_frame_def)

lemma same_state_update:
  assumes "same_state s k"
  shows "same_state (s\<lparr>k_memory := a\<rparr>) (k\<lparr>k_memory := a\<rparr>)" "same_state (s\<lparr>k_pmm := b\<rparr>) (k\<lparr>k_pmm := b\<rparr>)"
    "same_state (s\<lparr>reg_gdtr := c, k_gdt := d\<rparr>) (k\<lparr>reg_gdtr := c, k_gdt := d\<rparr>)"
    "same_state (s\<lparr>reg_cr3 := e, reg_cr0 := f, k_paging := g, k_vmm := h\<rparr>) (k\<lparr>reg_cr3 := e, reg_cr0 := f, k_paging := g, k_vmm := h\<rparr>)"
    "same_state (s\<lparr>k_heap := i\<rparr>) (k\<lparr>k_heap := i\<rparr>)" "same_state (s\<lparr>k_interrupts := j\<rparr>) (k\<lparr>k_interrupts := j\<rparr>)"
    "same_state (s\<lparr>k_input := l\<rparr>) (k\<lparr>k_input := l\<rparr>)"
    "same_state (s\<lparr>reg_idtr := m, k_idt := n\<rparr>) (k\<lparr>reg_idtr := m, k_idt := n\<rparr>)"
    "same_state (s\<lparr>k_pit := p\<rparr>) (k\<lparr>k_pit := p\<rparr>)" "same_state (s\<lparr>k_shell := q\<rparr>) (k\<lparr>k_shell := q\<rparr>)"
    "same_state (s\<lparr>reg_if := u\<rparr>) (k\<lparr>reg_if := u\<rparr>)"
    "same_state (s\<lparr>klog_serial_available := v\<rparr>) (k\<lparr>klog_serial_available := v\<rparr>)"
  using assms by (cases s; cases k; simp add: same_state_def klog_frame_def)+

lemma console_ok_boot [simp]:
  fixes k :: kernel
  shows "console_ok (k\<lparr>reg_gdtr := a\<rparr>) = console_ok k" "console_ok (k\<lparr>reg_idtr := b\<rparr>) = console_ok k"
  "console_ok (k\<lparr>reg_cr0 := c\<rparr>) = console_ok k" "console_ok (k\<lparr>reg_cr3 := d\<rparr>) = console_ok k"
  "console_ok (k\<lparr>k_gdt := e\<rparr>) = console_ok k" "console_ok (k\<lparr>k_idt := f\<rparr>) = console_ok k"
  "console_ok (k\<lparr>k_paging := g\<rparr>) = console_ok k" "console_ok (k\<lparr>k_vmm := h\<rparr>) = console_ok k"
  "console_ok (k\<lparr>k_heap := i\<rparr>) = console_ok k"
  by (simp_all add: console_ok_def vga_ok_def)

lemma screen_boot [simp]:
  fixes k :: kernel
  shows "screen (k\<lparr>reg_gdtr := a\<rparr>) = screen k" "screen (k\<lparr>reg_idtr := b\<rparr>) = screen k"
  "screen (k\<lparr>reg_cr0 := c\<rparr>) = screen k" "screen (k\<lparr>reg_cr3 := d\<rparr>) = screen k"
  "screen (k\<lparr>k_gdt := e\<rparr>) = screen k" "screen (k\<lparr>k_idt := f\<rparr>) = screen k"
  "screen (k\<lparr>k_paging := g\<rparr>) = screen k" "screen (k\<lparr>k_vmm := h\<rparr>) = screen k"
  "screen (k\<lparr>k_heap := i\<rparr>) = screen k"
  by (simp_all add: screen_def cong: if_cong)

text \<open>The controllers see only the accesses to their own ports.\<close>

lemma pic_after_other:
  assumes "ps \<inter> {0x20, 0x21, 0xA0, 0xA1} = {}"
  shows "pic_after chips (other_events ps l) = pic_after chips l"
proof (induction l)
  case (Cons e l)
  have "map_prod (chip_sees 0x20 0x21 e) (chip_sees 0xA0 0xA1 e) c = c" if "event_port e \<in> ps" for c
    using that assms by (cases e; cases c) auto
  then show ?case using Cons by simp
qed simp

lemma pic_state_frame: "klog_frame k k' \<Longrightarrow> pic_state chips k' = pic_state chips k"
  using pic_after_other [of log_ports chips "io_log k"] pic_after_other [of log_ports chips "io_log k'"]
  by (simp add: klog_frame_def pic_state_def log_ports_def)

lemma pic_state_quiet:
  assumes "\<forall>e \<in> set l. event_port e \<notin> {0x20, 0x21, 0xA0, 0xA1}"
  shows "pic_after chips (l @ l') = pic_after chips l'"
  using assms
proof (induction l)
  case (Cons e l)
  have "map_prod (chip_sees 0x20 0x21 e) (chip_sees 0xA0 0xA1 e) c = c" for c
    using Cons.prems by (cases e; cases c) auto
  then show ?case using Cons by simp
qed simp

text \<open>The three kinds of stage: output, an update of variables or registers, port accesses.\<close>

lemma stage_reads:
  assumes "\<And>k. same_state s k \<Longrightarrow> F k = returning g k" "log_prints g u"
  shows "stage (booting chips scr s c t) F (booting chips scr s c (t @ u))"
  unfolding stage_def
proof (intro allI impI)
  fix k assume b: "booting chips scr s c t k"
  then have k: "console_ok k" "screen k = fold ts_putchar t scr" "same_state s k" "pic_state chips k = c"
    by (simp_all add: booting_def)
  from prints_onD [OF assms(2) k(1)] obtain k' where
    k': "g k = Some k'" "console_ok k'" "screen k' = fold ts_putchar u (screen k)" "klog_frame k k'" by (elim exE conjE)
  then have "booting chips scr s c (t @ u) k'"
    using k same_state_frame [OF k(3) k'(4)] pic_state_frame [OF k'(4)] by (simp add: booting_def)
  then show "\<exists>k'. F k = Some (Returned k') \<and> booting chips scr s c (t @ u) k'"
    using assms(1) [OF k(3)] k'(1) by auto
qed

lemma stage_prints:
  "log_prints f u \<Longrightarrow> stage (booting chips scr s c t) (returning f) (booting chips scr s c (t @ u))"
  by (rule stage_reads) simp_all

lemma stage_ports:
  assumes "\<And>k. same_state s k \<Longrightarrow> pic_state chips k = c \<Longrightarrow>
      \<exists>l. f k = Some (Returned (u (k\<lparr>io_log := l @ io_log k\<rparr>))) \<and> (\<forall>e \<in> set l. event_port e \<notin> log_ports) \<and>
        pic_after chips (l @ io_log k) = c'"
    and "\<And>k. same_state s k \<Longrightarrow> same_state s' (u k)"
    and "\<And>k. console_ok (u k) = console_ok k" "\<And>k. screen (u k) = screen k" "\<And>k. io_log (u k) = io_log k"
  shows "stage (booting chips scr s c t) f (booting chips scr s' c' t)"
  unfolding stage_def
proof (intro allI impI)
  fix k assume b: "booting chips scr s c t k"
  then have k: "console_ok k" "screen k = fold ts_putchar t scr" "same_state s k" "pic_state chips k = c"
    by (simp_all add: booting_def)
  from assms(1) [OF k(3,4)] obtain l where
    l: "f k = Some (Returned (u (k\<lparr>io_log := l @ io_log k\<rparr>)))" "\<forall>e \<in> set l. event_port e \<notin> log_ports"
      "pic_after chips (l @ io_log k) = c'" by blast
  have "same_state s' (u (k\<lparr>io_log := l @ io_log k\<rparr>))" by (rule assms(2)) (simp add: same_state_ports k(3))
  then have "booting chips scr s' c' t (u (k\<lparr>io_log := l @ io_log k\<rparr>))"
    using k l(3) ports_quiet [OF l(2)] by (simp add: booting_def assms(3-5) pic_state_def)
  then show "\<exists>k'. f k = Some (Returned k') \<and> booting chips scr s' c' t k'" using l(1) by blast
qed

lemma stage_update:
  assumes "\<And>k. same_state s k \<Longrightarrow> f k = Some (Returned (u k))"
    and "\<And>k. same_state s k \<Longrightarrow> same_state s' (u k)"
    and "\<And>k. console_ok (u k) = console_ok k" "\<And>k. screen (u k) = screen k" "\<And>k. io_log (u k) = io_log k"
  shows "stage (booting chips scr s c t) f (booting chips scr s' c t)"
  by (rule stage_ports [where u = u, OF _ assms(2-5)]) (use assms(1) in \<open>auto simp: pic_state_def intro!: exI [of _ "[]"]\<close>)

lemma stage_check: "\<not> b \<Longrightarrow> stage P (panic_if b msg) P"
  by (simp add: stage_def panic_if_def)

section \<open>The stages of \<open>kernel_main\<close>\<close>

lemma require_ok: "kernel_require KERNEL_STATUS_OK msg k = Some (Returned k)"
  by (simp add: kernel_require_def kernel_status_is_ok_def)

lemma stage_memory:
  assumes "memory_initialize m p (k_memory s) = Some (KERNEL_STATUS_OK, mem)"
  shows "stage (booting chips scr s c t) (call_memory_initialize m p) (booting chips scr (s\<lparr>k_memory := mem\<rparr>) c t)"
  by (rule stage_update [where u = "\<lambda>k. k\<lparr>k_memory := mem\<rparr>"])
     (simp_all add: call_memory_initialize_def same_state_fields assms require_ok same_state_update)

lemma stage_pmm:
  assumes "pmm_initialize m L (k_memory s) p (k_pmm s) = Some (KERNEL_STATUS_OK, st)"
  shows "stage (booting chips scr s c t) (call_pmm_initialize m L p) (booting chips scr (s\<lparr>k_pmm := st\<rparr>) c t)"
  by (rule stage_update [where u = "\<lambda>k. k\<lparr>k_pmm := st\<rparr>"])
     (simp_all add: call_pmm_initialize_def same_state_fields assms require_ok same_state_update)

lemma stage_gdt:
  assumes "\<And>k :: kernel. gdt_initialize L (k_gdt s) k = Some (g, k\<lparr>reg_gdtr := r\<rparr>)"
  shows "stage (booting chips scr s c t) (call_gdt_initialize L) (booting chips scr (s\<lparr>reg_gdtr := r, k_gdt := g\<rparr>) c t)"
  by (rule stage_update [where u = "\<lambda>k. k\<lparr>reg_gdtr := r, k_gdt := g\<rparr>"])
     (simp_all add: call_gdt_initialize_def same_state_fields assms same_state_update)

lemma stage_vmm:
  assumes "\<And>k :: kernel. reg_cr0 k = reg_cr0 s \<Longrightarrow>
    vmm_initialize L (k_paging s) (k_vmm s) k = Some (KERNEL_STATUS_OK, p, v, k\<lparr>reg_cr3 := r3, reg_cr0 := r0\<rparr>)"
  shows "stage (booting chips scr s c t) (call_vmm_initialize L)
     (booting chips scr (s\<lparr>reg_cr3 := r3, reg_cr0 := r0, k_paging := p, k_vmm := v\<rparr>) c t)"
  by (rule stage_update [where u = "\<lambda>k. k\<lparr>reg_cr3 := r3, reg_cr0 := r0, k_paging := p, k_vmm := v\<rparr>"])
     (simp_all add: call_vmm_initialize_def same_state_fields assms require_ok same_state_update)

lemma stage_heap:
  assumes "heap_initialize L (k_heap s) = (KERNEL_STATUS_OK, h)"
  shows "stage (booting chips scr s c t) (call_heap_initialize L) (booting chips scr (s\<lparr>k_heap := h\<rparr>) c t)"
  by (rule stage_update [where u = "\<lambda>k. k\<lparr>k_heap := h\<rparr>"])
     (simp_all add: call_heap_initialize_def same_state_fields assms require_ok same_state_update)

lemma stage_interrupts:
  assumes "interrupts_initialize (k_interrupts s) = Some st"
  shows "stage (booting chips scr s c t) call_interrupts_initialize (booting chips scr (s\<lparr>k_interrupts := st\<rparr>) c t)"
  by (rule stage_update [where u = "\<lambda>k. k\<lparr>k_interrupts := st\<rparr>"])
     (simp_all add: call_interrupts_initialize_def same_state_fields assms same_state_update)

lemma stage_input:
  "stage (booting chips scr s c t) call_input_initialize
     (booting chips scr (s\<lparr>k_input := input_initialize (k_input s)\<rparr>) c t)"
  by (rule stage_update [where u = "\<lambda>k. k\<lparr>k_input := input_initialize (k_input s)\<rparr>"])
     (simp_all add: call_input_initialize_def same_state_fields same_state_update)

lemma stage_idt:
  assumes "\<And>k :: kernel. idt_initialize L (k_idt s) k = Some (i, k\<lparr>reg_idtr := r\<rparr>)"
  shows "stage (booting chips scr s c t) (call_idt_initialize L) (booting chips scr (s\<lparr>reg_idtr := r, k_idt := i\<rparr>) c t)"
  by (rule stage_update [where u = "\<lambda>k. k\<lparr>reg_idtr := r, k_idt := i\<rparr>"])
     (simp_all add: call_idt_initialize_def same_state_fields assms same_state_update)

lemma stage_register:
  assumes "interrupts_register_irq irq (Some h) (k_interrupts s) = Some (True, st)"
  shows "stage (booting chips scr s c t) (call_register_irq irq h msg) (booting chips scr (s\<lparr>k_interrupts := st\<rparr>) c t)"
  by (rule stage_update [where u = "\<lambda>k. k\<lparr>k_interrupts := st\<rparr>"])
     (simp_all add: call_register_irq_def same_state_fields assms panic_if_def same_state_update)

lemma stage_enable:
  "stage (booting chips scr s c t) (\<lambda>k. Some (Returned (cpu_enable_interrupts k)))
     (booting chips scr (s\<lparr>reg_if := True\<rparr>) c t)"
  by (rule stage_update [where u = "\<lambda>k. k\<lparr>reg_if := True\<rparr>"])
     (simp_all add: cpu_enable_interrupts_def same_state_update)

text \<open>The interrupt controllers and the timer.\<close>

lemma pic_port_quiet: "pic_port p \<Longrightarrow> p \<notin> log_ports"
  by (auto simp: pic_port_def log_ports_def)

definition masked :: "pic_chip \<times> pic_chip \<Rightarrow> pic_chip \<times> pic_chip" where
  "masked = map_prod (\<lambda>a. a\<lparr>chip_mask := 0xFF\<rparr>) (\<lambda>b. b\<lparr>chip_mask := 0xFF\<rparr>)"

lemma remapped_ready: "pic_ready (remapped c)" "pic_ready (masked (remapped c))"
  by (cases c; simp add: remapped_def masked_def pic_ready_def)+

lemma pic_stepE:
  fixes m :: "'a machine_scheme"
  assumes "pic_step chips m m' c"
  obtains l where "m' = m\<lparr>io_log := l @ io_log m\<rparr>" "\<forall>e \<in> set l. event_port e \<notin> log_ports" "pic_after chips (l @ io_log m) = c"
proof -
  from assms obtain l where "m' = m\<lparr>io_log := l @ io_log m\<rparr>" "\<forall>e \<in> set l. pic_port (event_port e)"
    "pic_state chips m' = c" unfolding pic_step_def by blast
  then show thesis using that [of l] pic_port_quiet by (auto simp: pic_state_def)
qed

lemma stage_pics:
  assumes "pic_device chips (io_device s)"
  shows "stage (booting chips scr s c t) (\<lambda>k. Some (Returned (pic_mask_all (pic_remap k))))
     (booting chips scr s (masked (remapped c)) t)"
proof (rule stage_ports [where u = "\<lambda>k. k"])
  fix k assume k: "same_state s k" "pic_state chips k = c"
  have dev: "pic_device chips (io_device k)" using assms same_state_fields [OF k(1)] by simp
  from pic_stepE [OF remap_step [OF dev, unfolded k(2)]] obtain l where
    1: "pic_remap k = k\<lparr>io_log := l @ io_log k\<rparr>" "\<forall>e \<in> set l. event_port e \<notin> log_ports"
      "pic_after chips (l @ io_log k) = remapped c" .
  have r: "pic_state chips (pic_remap k) = remapped c" unfolding 1(1) using 1(3) by (simp add: pic_state_def)
  from pic_stepE [OF mask_all_step [of chips "pic_remap k", unfolded r, OF remapped_ready(1)]] obtain l' where
    2: "pic_mask_all (pic_remap k) = (pic_remap k)\<lparr>io_log := l' @ io_log (pic_remap k)\<rparr>"
      "\<forall>e \<in> set l'. event_port e \<notin> log_ports" "pic_after chips (l' @ io_log (pic_remap k)) = masked (remapped c)"
    unfolding masked_def .
  show "\<exists>l. Some (Returned (pic_mask_all (pic_remap k))) = Some (Returned (k\<lparr>io_log := l @ io_log k\<rparr>)) \<and>
      (\<forall>e \<in> set l. event_port e \<notin> log_ports) \<and> pic_after chips (l @ io_log k) = masked (remapped c)"
    using 1(2) 2(2,3) unfolding 2(1) unfolding 1(1) by (intro exI [of _ "l' @ l"]) auto
qed simp_all

lemma stage_unmask:
  assumes "pic_device chips (io_device s)" "pic_ready c" "unat irq < 16"
  shows "stage (booting chips scr s c t) (call_unmask_irq irq msg) (booting chips scr s (unmasked (unat irq) c) t)"
proof (rule stage_ports [where u = "\<lambda>k. k"])
  fix k assume k: "same_state s k" "pic_state chips k = c"
  have dev: "pic_device chips (io_device k)" using assms(1) same_state_fields [OF k(1)] by simp
  have u: "fst (pic_unmask_irq irq k)" "pic_step chips k (snd (pic_unmask_irq irq k)) (unmasked (unat irq) c)"
    using unmask_step [OF dev, unfolded k(2), OF assms(2,3)] by auto
  from pic_stepE [OF u(2)] obtain l where
    l: "snd (pic_unmask_irq irq k) = k\<lparr>io_log := l @ io_log k\<rparr>" "\<forall>e \<in> set l. event_port e \<notin> log_ports"
      "pic_after chips (l @ io_log k) = unmasked (unat irq) c" .
  have "pic_unmask_irq irq k = (True, k\<lparr>io_log := l @ io_log k\<rparr>)" using u(1) l(1) by (cases "pic_unmask_irq irq k") simp
  then show "\<exists>l. call_unmask_irq irq msg k = Some (Returned (k\<lparr>io_log := l @ io_log k\<rparr>)) \<and>
      (\<forall>e \<in> set l. event_port e \<notin> log_ports) \<and> pic_after chips (l @ io_log k) = unmasked (unat irq) c"
    using l(2,3) by (intro exI [of _ l]) (simp add: call_unmask_irq_def panic_if_def)
qed simp_all

lemma pit_100:
  "pit_initialize 100 t m = (True, t\<lparr>pit_ticks := 0\<rparr>, m\<lparr>io_log := [Out 0x40 0x2E, Out 0x40 0x9B, Out 0x43 0x36] @ io_log m\<rparr>)"
  by (simp add: pit_initialize_def min_frequency PIT_MAX_FREQUENCY_HZ_def Let_def outb_def PIT_COMMAND_PORT_def
      PIT_CHANNEL0_PORT_def PIT_COMMAND_CHANNEL0_def PIT_COMMAND_ACCESS_LOHI_def PIT_COMMAND_MODE3_def
      PIT_COMMAND_BINARY_def PIT_MAX_DIVISOR_def PIT_BASE_FREQUENCY_def)

lemma stage_pit:
  "stage (booting chips scr s c t) (call_pit_initialize 100)
     (booting chips scr (s\<lparr>k_pit := (k_pit s)\<lparr>pit_ticks := 0\<rparr>\<rparr>) c t)"
proof (rule stage_ports [where u = "\<lambda>k. k\<lparr>k_pit := (k_pit s)\<lparr>pit_ticks := 0\<rparr>\<rparr>"])
  let ?l = "[Out 0x40 0x2E, Out 0x40 0x9B, Out 0x43 0x36]"
  fix k assume k: "same_state s k" "pic_state chips k = c"
  have "pic_after chips (?l @ io_log k) = pic_after chips (io_log k)" by (rule pic_state_quiet) simp
  then have "pic_after chips (?l @ io_log k) = c" using k(2) by (simp only: pic_state_def)
  then show "\<exists>l. call_pit_initialize 100 k = Some (Returned ((k\<lparr>io_log := l @ io_log k\<rparr>)
        \<lparr>k_pit := (k_pit s)\<lparr>pit_ticks := 0\<rparr>\<rparr>)) \<and> (\<forall>e \<in> set l. event_port e \<notin> log_ports) \<and>
      pic_after chips (l @ io_log k) = c"
    by (intro exI [of _ ?l])
       (simp add: call_pit_initialize_def pit_100 panic_if_def same_state_fields [OF k(1)] log_ports_def del: pic_after.simps)
qed (simp_all add: same_state_update)

text \<open>The shell and the summary of the virtual memory manager.\<close>

lemma stage_shell:
  assumes "shell_reset_buffer (k_shell s) = Some sh"
  shows "stage (booting chips scr s c t) (returning shell_initialize)
     (booting chips scr (s\<lparr>k_shell := sh\<rparr>) c (t @ shell_banner))"
  unfolding stage_def
proof (intro allI impI)
  let ?fs = "run_steps [con_puts WIGOSX_STAGE_LABEL, con_line '' shell ready.'', con_line ''Type 'help' for commands.'',
      shell_print_prompt]"
  fix k assume b: "booting chips scr s c t k"
  then have "same_state s k" by (simp add: booting_def)
  then have reset: "on_shell shell_reset_buffer k = Some (k\<lparr>k_shell := sh\<rparr>)"
    using assms by (simp add: on_shell_def same_state_fields)
  have "booting chips scr (s\<lparr>k_shell := sh\<rparr>) c t (k\<lparr>k_shell := sh\<rparr>)"
    using b by (simp add: booting_def same_state_update pic_state_def)
  with stage_prints [OF banner_prints, of chips scr "s\<lparr>k_shell := sh\<rparr>" c t]
  obtain k' where k': "returning ?fs (k\<lparr>k_shell := sh\<rparr>) = Some (Returned k')"
    "booting chips scr (s\<lparr>k_shell := sh\<rparr>) c (t @ shell_banner) k'" unfolding stage_def by blast
  have "shell_initialize k = ?fs (k\<lparr>k_shell := sh\<rparr>)"
    unfolding shell_initialize_def run_steps.simps(2) [of "on_shell shell_reset_buffer"] reset by simp
  then show "\<exists>k'. returning shell_initialize k = Some (Returned k') \<and>
      booting chips scr (s\<lparr>k_shell := sh\<rparr>) c (t @ shell_banner) k'"
    using k' unfolding returning_def by metis
qed

lemma stage_vmm_summary:
  "stage (booting chips scr s c t) (\<lambda>k. returning (vmm_print_summary (k_paging k) (k_vmm k)) k)
     (booting chips scr s c (t @ vmm_summary_text (vmm_is_enabled (k_vmm s) s) (vmm_get_identity_mapped_bytes (k_paging s))))"
  unfolding stage_def
proof (intro allI impI)
  fix k assume b: "booting chips scr s c t k"
  then have k: "console_ok k" "screen k = fold ts_putchar t scr" "same_state s k" "pic_state chips k = c"
    by (simp_all add: booting_def)
  have e: "vmm_is_enabled (k_vmm k) k = vmm_is_enabled (k_vmm s) s"
    using same_state_fields [OF k(3)] by (simp add: vmm_is_enabled_def i386_paging_is_enabled_def i386_read_cr0_def)
  from vmm_print_summary_spec [OF k(1), of "k_paging k" "k_vmm k"] obtain k' where
    k': "vmm_print_summary (k_paging k) (k_vmm k) k = Some k'" "console_ok k'"
      "screen k' = fold ts_putchar (vmm_summary_text (vmm_is_enabled (k_vmm k) k)
         (vmm_get_identity_mapped_bytes (k_paging k))) (screen k)" "klog_frame k k'" by blast
  have "booting chips scr s c (t @ vmm_summary_text (vmm_is_enabled (k_vmm s) s)
      (vmm_get_identity_mapped_bytes (k_paging s))) k'"
    using k(2,4) k'(2,3) same_state_frame [OF k(3) k'(4)] pic_state_frame [OF k'(4)] same_state_fields [OF k(3)]
    unfolding e by (simp add: booting_def)
  then show "\<exists>k'. returning (vmm_print_summary (k_paging k) (k_vmm k)) k = Some (Returned k') \<and>
      booting chips scr s c (t @ vmm_summary_text (vmm_is_enabled (k_vmm s) s)
        (vmm_get_identity_mapped_bytes (k_paging s))) k'"
    using k'(1) by (auto simp: returning_def)
qed

section \<open>From power-on to the log\<close>

text \<open>The state in which the boot loader enters \<open>kernel_main\<close>: the static variables as compiled, any
  register contents, any text memory, any history of port accesses.\<close>

definition powered_on :: "kernel \<Rightarrow> bool" where
  "powered_on k \<longleftrightarrow> k_memory k = memory_static \<and> k_pmm k = pmm_static \<and> k_paging k = paging_static \<and>
     k_vmm k = vmm_static \<and> k_heap k = heap_static \<and> k_gdt k = gdt_static \<and> k_idt k = idt_static \<and>
     k_interrupts k = interrupts_static \<and> k_input k = input_static \<and> k_keyboard k = keyboard_static \<and>
     k_pit k = pit_static \<and> k_shell k = \<lparr>shell_buffer = afill 64 NUL, shell_buffer_length = 0\<rparr> \<and> \<not> cpu_halted k"

definition boot_screen :: tscreen where
  "boot_screen = ts_clear \<lparr>ts_cell = \<lambda>_ _. 0, ts_row = 0, ts_column = 0, ts_color = 7\<rparr>"

definition entered :: "kernel \<Rightarrow> kernel" where
  "entered k = console_initialize (cpu_disable_interrupts k)"

lemma entered_spec:
  "console_ok (entered k)" "screen (entered k) = boot_screen"
  "klog_frame (k\<lparr>reg_if := False, console_initialized := True\<rparr>) (entered k)"
  "pic_state chips (entered k) = pic_state chips k"
proof -
  let ?k = "k\<lparr>reg_if := False\<rparr>"
  note init = initialize_step [of ?k]
  have f: "klog_frame ?k (terminal_initialize ?k)" using vga_frame_klog(1) init by blast
  have eq: "entered k = (terminal_initialize ?k)\<lparr>console_initialized := True\<rparr>"
    by (simp add: entered_def console_initialize_def cpu_disable_interrupts_def)
  show "console_ok (entered k)" using init unfolding eq by (simp add: console_ok_def vga_ok_def)
  have "screen (x\<lparr>console_initialized := True\<rparr>) = screen x" for x :: kernel by (simp add: screen_def cong: if_cong)
  then show "screen (entered k) = boot_screen" using init unfolding eq boot_screen_def by simp
  show "klog_frame (k\<lparr>reg_if := False, console_initialized := True\<rparr>) (entered k)"
    using f unfolding eq by (cases k; cases "terminal_initialize ?k") (simp add: klog_frame_def)
  show "pic_state chips (entered k) = pic_state chips k"
    using pic_state_frame [OF f] unfolding eq by (simp add: pic_state_def)
qed

lemma stage_entered: "stage (\<lambda>x. x = k) (\<lambda>k. Some (Returned (console_initialize (cpu_disable_interrupts k)))) (\<lambda>x. x = entered k)"
  by (simp add: stage_def entered_def)

text \<open>Whether the serial port answered.\<close>

definition serial_answers :: "kernel \<Rightarrow> bool" where
  "serial_answers k \<longleftrightarrow> klog_serial_available (snd (klog_initialize (entered k)))"

definition serial_warning :: "bool \<Rightarrow> string" where
  "serial_warning available = (if available then []
     else ''[WARNING] Serial logging unavailable; using VGA only.'' @ [CHR 0x0A])"

text \<open>The state once the log works.\<close>

definition logging :: "kernel \<Rightarrow> kernel" where
  "logging k = (entered k)\<lparr>klog_serial_available := serial_answers k\<rparr>"

lemma logging_fields:
  "k_memory (logging k) = k_memory k" "k_pmm (logging k) = k_pmm k" "k_paging (logging k) = k_paging k"
  "k_vmm (logging k) = k_vmm k" "k_heap (logging k) = k_heap k" "k_gdt (logging k) = k_gdt k" "k_idt (logging k) = k_idt k"
  "k_interrupts (logging k) = k_interrupts k" "k_input (logging k) = k_input k" "k_keyboard (logging k) = k_keyboard k"
  "k_pit (logging k) = k_pit k" "k_shell (logging k) = k_shell k" "cpu_halted (logging k) = cpu_halted k"
  "\<not> reg_if (logging k)" "io_device (logging k) = io_device k"
  using frame_kernel [OF entered_spec(3) [of k]] by (simp_all add: logging_def)

lemma stage_klog:
  "stage (\<lambda>x. x = entered k) call_klog_initialize
     (booting chips boot_screen (logging k) (pic_state chips k) (serial_warning (serial_answers k)))"
  unfolding stage_def
proof (intro allI impI)
  fix x assume x: "x = entered k"
  let ?k = "snd (klog_initialize (entered k))"
  note spec = klog_initialize_spec [OF entered_spec(1) [of k]]
  have f: "klog_frame (logging k) ?k" using spec by (simp add: logging_def serial_answers_def)
  have same: "same_state (logging k) ?k" by (rule same_state_frame [OF same_state_refl f])
  have pic: "pic_state chips ?k = pic_state chips k"
    using pic_state_frame [OF f, of chips] entered_spec(4) [of chips k] by (simp add: logging_def pic_state_def)
  let ?w = "''[WARNING] Serial logging unavailable; using VGA only.'' @ [CHR 0x0A]"
  show "\<exists>k'. call_klog_initialize x = Some (Returned k') \<and>
      booting chips boot_screen (logging k) (pic_state chips k) (serial_warning (serial_answers k)) k'"
  proof (cases "serial_answers k")
    case True
    then have "fst (klog_initialize (entered k)) = KERNEL_STATUS_OK" using spec by (simp add: serial_answers_def)
    then have "call_klog_initialize x = Some (Returned ?k)"
      unfolding x by (simp add: call_klog_initialize_def case_prod_beta Let_def)
    then show ?thesis using True spec same pic entered_spec(2) [of k] by (simp add: booting_def serial_warning_def)
  next
    case False
    then have "fst (klog_initialize (entered k)) = KERNEL_STATUS_UNAVAILABLE" using spec by (auto simp: serial_answers_def)
    then have run: "call_klog_initialize x = Some (Returned (console_writestring (Some ?w) ?k))"
      unfolding x by (simp add: call_klog_initialize_def case_prod_beta Let_def)
    have w: "log_prints (con_puts ?w) ?w" by (rule con_prints_puts) (simp add: c_text_no_NUL)
    from prints_onD [OF w, of ?k] spec obtain k' where
      k': "console_writestring (Some ?w) ?k = k'" "console_ok k'" "screen k' = fold ts_putchar ?w (screen ?k)" "klog_frame ?k k'"
      by auto
    have "booting chips boot_screen (logging k) (pic_state chips k) ?w k'"
      using k'(2,3) spec entered_spec(2) [of k] same_state_frame [OF same k'(4)] pic_state_frame [OF k'(4), of chips] pic
      by (simp add: booting_def)
    then show ?thesis using False run k'(1) by (simp add: serial_warning_def)
  qed
qed

section \<open>A boot that succeeds\<close>

definition boot_text :: "bool \<Rightarrow> memory \<Rightarrow> pmm \<Rightarrow> string" where
  "boot_text serial mem st = serial_warning serial @ (''wigOSX '' @ WIGOSX_VERSION_STRING @ [CHR 0x0A]) @
     (''Initializing normalized memory map...'' @ [CHR 0x0A]) @ memory_summary_text mem @
     (''Initializing physical memory manager...'' @ [CHR 0x0A]) @ pmm_summary_text st @
     (''Initializing GDT...'' @ [CHR 0x0A]) @ (''Initializing virtual memory manager...'' @ [CHR 0x0A]) @
     vmm_summary_text True 16777216 @ (''Initializing kernel heap backing region...'' @ [CHR 0x0A]) @
     (''Initializing interrupt services...'' @ [CHR 0x0A]) @ shell_banner"

text \<open>The state of the kernel when its loop starts.\<close>

definition boot_handlers :: "nat \<Rightarrow> irq_handler option" where
  "boot_handlers = (\<lambda>i. None)(0 := Some Pit_handle_interrupt, 1 := Some Input_handle_keyboard_interrupt)"

definition uncounted :: "'h interrupts \<Rightarrow> bool" where
  "uncounted st \<longleftrightarrow> count_of st = (\<lambda>i. 0) \<and> unhandled_irq_count st = 0 \<and> invalid_irq_count st = 0"

definition booted :: "layout \<Rightarrow> memory \<Rightarrow> pmm \<Rightarrow> kernel \<Rightarrow> bool" where
  "booted L mem st k \<longleftrightarrow> kernel_idle_ok k \<and> \<not> cpu_halted k \<and> k_memory k = mem \<and> k_pmm k = st \<and>
     queue_contents (k_input k) = [] \<and> shell_line (k_shell k) = [] \<and> k_keyboard k = keyboard_static \<and>
     handler_of (k_interrupts k) = boot_handlers \<and> uncounted (k_interrupts k) \<and> pit_ticks (k_pit k) = 0 \<and>
     reg_gdtr k = (23, gdt_entries_addr L) \<and> flat_gdt (k_gdt k) \<and>
     reg_idtr k = (2047, idt_entries_addr L) \<and> routed_idt L (k_idt k) \<and>
     paging_wf (k_paging k) \<and> vmm_is_enabled (k_vmm k) k \<and>
     (\<forall>rest va. i386_translate (phys_word L (k_paging k) rest) (reg_cr3 k) va =
        (if unat va < 16 * 1024 * 1024 then Some (va, True) else None)) \<and>
     heap_is_initialized (k_heap k) \<and> unat (heap_get_capacity (k_heap k)) = 256 * 1024 \<and>
     heap_get_start_address (k_heap k) = heap_start_addr L \<and> heap_get_end_address (k_heap k) = heap_end_addr L"

lemma version_prints_line:
  "log_prints (run_steps [log_puts ''wigOSX '', log_puts WIGOSX_VERSION_STRING, log_putc (CHR 0x0A)])
     (''wigOSX '' @ WIGOSX_VERSION_STRING @ [CHR 0x0A])"
proof -
  have shown: "log_prints (run_steps [log_puts ''wigOSX '', log_puts WIGOSX_VERSION_STRING, log_putc (CHR 0x0A)])
     (concat [''wigOSX '', WIGOSX_VERSION_STRING, [CHR 0x0A]])"
    by (intro log_prints_all log_prints_puts) (simp_all add: c_text_no_NUL stage_label_no_NUL)
  show ?thesis by (rule log_prints_eq [OF shown]) simp
qed

lemma log_line: "NUL \<notin> set t \<Longrightarrow> log_prints (log_puts (t @ [CHR 0x0A])) (t @ [CHR 0x0A])"
  by (rule log_prints_puts) (simp add: c_text_no_NUL)

lemma stage_memory_summary:
  assumes "memory_inv (k_memory s)"
  shows "stage (booting chips scr s c t) (\<lambda>k. returning (memory_print_summary (k_memory k)) k)
     (booting chips scr s c (t @ memory_summary_text (k_memory s)))"
  by (rule stage_reads [where g = "memory_print_summary (k_memory s)", OF _ mem_prints [OF assms]])
     (simp add: same_state_fields)

lemma stage_pmm_summary:
  "stage (booting chips scr s c t) (\<lambda>k. returning (pmm_print_summary (k_pmm k)) k)
     (booting chips scr s c (t @ pmm_summary_text (k_pmm s)))"
  by (rule stage_reads [where g = "pmm_print_summary (k_pmm s)", OF _ pmm_print_summary_prints])
     (simp add: same_state_fields)

lemma boot_registers:
  assumes "interrupts_initialize st = Some st0" "interrupts_wf st"
  shows "\<exists>st1 st2. interrupts_register_irq 0 (Some Pit_handle_interrupt) st0 = Some (True, st1) \<and>
     interrupts_register_irq 1 (Some Input_handle_keyboard_interrupt) st1 = Some (True, st2) \<and>
     interrupts_wf st2 \<and> handler_of st2 = boot_handlers \<and> interrupt_context_depth st2 = 0 \<and> uncounted st2"
proof -
  have 0: "interrupts_wf st0" "\<forall>i. handler_of st0 i = None" "interrupt_context_depth st0 = 0" "uncounted st0"
    using initialize_spec [OF assms(2)] assms(1) by (auto simp: uncounted_def)
  then have none: "handler_of st0 = (\<lambda>i. None)" by (simp add: fun_eq_iff)
  from register_spec [OF 0(1), of 0 Pit_handle_interrupt] 0 none obtain st1 where
    1: "interrupts_register_irq 0 (Some Pit_handle_interrupt) st0 = Some (True, st1)" "interrupts_wf st1"
      "handler_of st1 = (\<lambda>i. None)(0 := Some Pit_handle_interrupt)" "interrupt_context_depth st1 = 0" "uncounted st1"
    by (auto simp: uncounted_def)
  from register_spec [OF 1(2), of 1 Input_handle_keyboard_interrupt] 1(3-5) obtain st2 where
    "interrupts_register_irq 1 (Some Input_handle_keyboard_interrupt) st1 = Some (True, st2)" "interrupts_wf st2"
    "handler_of st2 = boot_handlers" "interrupt_context_depth st2 = 0" "uncounted st2" by (auto simp: boot_handlers_def uncounted_def)
  with 1(1) show ?thesis by blast
qed

lemma boot_lines:
  assumes "i < 16"
  shows "irq_open (unmasked 1 (unmasked 0 (masked c))) i \<longleftrightarrow> i = 0 \<or> i = 1"
proof -
  have "(0xFF :: u8) = mask 8" by (simp add: mask_eq_exp_minus_1)
  then have ones: "bit (0xFF :: u8) j \<longleftrightarrow> j < 8" for j by (simp only: bit_mask_iff possible_bit_word) simp
  have m: "bit (chip_mask (fst (unmasked 1 (unmasked 0 (masked c))))) j \<longleftrightarrow> j \<noteq> 0 \<and> j \<noteq> 1"
    "bit (chip_mask (snd (unmasked 1 (unmasked 0 (masked c))))) j" if "j < 8" for j
    using that ones [of j] unmasked_bits [of 1 j "unmasked 0 (masked c)"] unmasked_bits [of 0 j "masked c"]
    by (cases c; simp add: masked_def)+
  show ?thesis
  proof (cases "i < 8")
    case True
    then show ?thesis using m(1) [OF True] by (simp add: irq_open_def)
  next
    case False
    then have "i - 8 < 8" using assms by simp
    from m(2) [OF this] False show ?thesis by (simp add: irq_open_def)
  qed
qed

text \<open>The whole sequence, from the results of the initializers.\<close>

lemma boot_sequence:
  assumes dev: "pic_device chips (io_device k)" and magic: "magic = MULTIBOOT_BOOTLOADER_MAGIC" and p: "p \<noteq> 0"
    and mem: "memory_initialize m p (k_memory k) = Some (KERNEL_STATUS_OK, mem)" "memory_inv mem"
    and pmm: "pmm_initialize m L mem p (k_pmm k) = Some (KERNEL_STATUS_OK, st)"
    and gdt: "\<And>k' :: kernel. gdt_initialize L (k_gdt k) k' = Some (g, k'\<lparr>reg_gdtr := gr\<rparr>)"
    and vmm: "\<And>k' :: kernel. reg_cr0 k' = reg_cr0 (logging k) \<Longrightarrow> vmm_initialize L (k_paging k) (k_vmm k) k' =
        Some (KERNEL_STATUS_OK, pg, v, k'\<lparr>reg_cr3 := r3, reg_cr0 := r0\<rparr>)"
    and heap: "heap_initialize L (k_heap k) = (KERNEL_STATUS_OK, h)"
    and int: "interrupts_initialize (k_interrupts k) = Some i0"
      "interrupts_register_irq 0 (Some Pit_handle_interrupt) i0 = Some (True, i1)"
      "interrupts_register_irq 1 (Some Input_handle_keyboard_interrupt) i1 = Some (True, i2)"
    and idt: "\<And>k' :: kernel. idt_initialize L (k_idt k) k' = Some (t, k'\<lparr>reg_idtr := ir\<rparr>)"
    and shell: "shell_reset_buffer (k_shell k) = Some sh"
    and enabled: "\<And>x :: kernel. reg_cr0 x = r0 \<Longrightarrow> vmm_is_enabled v x"
    and mapped: "vmm_get_identity_mapped_bytes pg = 16777216"
  defines "s4 \<equiv> (logging k)\<lparr>k_memory := mem, k_pmm := st\<rparr>\<lparr>reg_gdtr := gr, k_gdt := g\<rparr>
      \<lparr>reg_cr3 := r3, reg_cr0 := r0, k_paging := pg, k_vmm := v\<rparr>"
  defines "s9 \<equiv> s4\<lparr>k_heap := h, k_interrupts := i0, k_input := input_initialize (k_input k)\<rparr>\<lparr>reg_idtr := ir, k_idt := t\<rparr>
      \<lparr>k_interrupts := i1, k_interrupts := i2\<rparr>"
  defines "s13 \<equiv> s9\<lparr>k_pit := (k_pit k)\<lparr>pit_ticks := 0\<rparr>\<rparr>\<lparr>k_shell := sh, reg_if := True\<rparr>"
  shows "\<exists>k'. kernel_boot m L magic p k = Some (Returned k') \<and>
     booting chips boot_screen s13 (unmasked 1 (unmasked 0 (masked (remapped (pic_state chips k)))))
       (boot_text (serial_answers k) mem st) k'"
proof -
  let ?s1 = "(logging k)\<lparr>k_memory := mem\<rparr>"
  let ?s2 = "?s1\<lparr>k_pmm := st\<rparr>"
  let ?s3 = "?s2\<lparr>reg_gdtr := gr, k_gdt := g\<rparr>"
  let ?s5 = "s4\<lparr>k_heap := h\<rparr>"
  let ?s6 = "?s5\<lparr>k_interrupts := i0\<rparr>"
  let ?s7 = "?s6\<lparr>k_input := input_initialize (k_input k)\<rparr>"
  let ?s8 = "?s7\<lparr>reg_idtr := ir, k_idt := t\<rparr>"
  let ?s10 = "s9\<lparr>k_pit := (k_pit k)\<lparr>pit_ticks := 0\<rparr>\<rparr>"
  let ?s11 = "?s10\<lparr>k_shell := sh\<rparr>"
  let ?B = "booting chips boot_screen" and ?c = "pic_state chips k"
  let ?c1 = "masked (remapped ?c)"
  let ?c2 = "unmasked 0 ?c1" and ?c3 = "unmasked 1 (unmasked 0 ?c1)"
  note f = logging_fields [of k]
  have m1: "stage (?B (logging k) c u) (call_memory_initialize m p) (?B ?s1 c u)" for c u
    by (rule stage_memory) (simp add: f mem)
  have m2: "stage (?B ?s1 c u) (\<lambda>k. returning (memory_print_summary (k_memory k)) k)
      (?B ?s1 c (u @ memory_summary_text mem))" for c u
    using stage_memory_summary [of ?s1 chips boot_screen c u] mem(2) by simp
  have p1: "stage (?B ?s1 c u) (call_pmm_initialize m L p) (?B ?s2 c u)" for c u
    by (rule stage_pmm) (simp add: f pmm)
  have p2: "stage (?B ?s2 c u) (\<lambda>k. returning (pmm_print_summary (k_pmm k)) k) (?B ?s2 c (u @ pmm_summary_text st))" for c u
    using stage_pmm_summary [of chips boot_screen ?s2 c u] by simp
  have g1: "stage (?B ?s2 c u) (call_gdt_initialize L) (?B ?s3 c u)" for c u
    by (rule stage_gdt) (simp add: f gdt)
  have v1: "stage (?B ?s3 c u) (call_vmm_initialize L) (?B s4 c u)" for c u
    unfolding s4_def by (rule stage_vmm) (simp add: f vmm)
  have "vmm_is_enabled (k_vmm s4) s4" "k_paging s4 = pg" using enabled [of s4] by (simp_all add: s4_def)
  then have v2: "stage (?B s4 c u) (\<lambda>k. returning (vmm_print_summary (k_paging k) (k_vmm k)) k)
      (?B s4 c (u @ vmm_summary_text True 16777216))" for c u
    using stage_vmm_summary [of chips boot_screen s4 c u] by (simp add: mapped)
  have h1: "stage (?B s4 c u) (call_heap_initialize L) (?B ?s5 c u)" for c u
    by (rule stage_heap) (simp add: s4_def f heap)
  have i1: "stage (?B ?s5 c u) call_interrupts_initialize (?B ?s6 c u)" for c u
    by (rule stage_interrupts) (simp add: s4_def f int)
  have i2: "stage (?B ?s6 c u) call_input_initialize (?B ?s7 c u)" for c u
    using stage_input [of chips boot_screen ?s6 c u] by (simp add: s4_def f)
  have i3: "stage (?B ?s7 c u) (call_idt_initialize L) (?B ?s8 c u)" for c u
    by (rule stage_idt) (simp add: s4_def f idt)
  have i4: "stage (?B ?s8 c u) (\<lambda>k. Some (Returned (pic_mask_all (pic_remap k)))) (?B ?s8 (masked (remapped c)) u)" for c u
    by (rule stage_pics) (simp add: s4_def f dev)
  have i5: "stage (?B ?s8 c u) (call_register_irq 0 Pit_handle_interrupt msg) (?B (?s8\<lparr>k_interrupts := i1\<rparr>) c u)" for c u msg
    by (rule stage_register) (simp add: int)
  have i6: "stage (?B (?s8\<lparr>k_interrupts := i1\<rparr>) c u) (call_register_irq 1 Input_handle_keyboard_interrupt msg) (?B s9 c u)" for c u msg
    using stage_register [of 1 Input_handle_keyboard_interrupt "?s8\<lparr>k_interrupts := i1\<rparr>" i2 chips boot_screen c u msg] int(3)
    by (simp add: s9_def)
  have t1: "stage (?B s9 c u) (call_pit_initialize 100) (?B ?s10 c u)" for c u
    using stage_pit [of chips boot_screen s9 c u] by (simp add: s9_def s4_def f)
  have sh1: "stage (?B ?s10 c u) (returning shell_initialize) (?B ?s11 c (u @ shell_banner))" for c u
    by (rule stage_shell) (simp add: s9_def s4_def f shell)
  have dev9: "pic_device chips (io_device ?s11)" by (simp add: s9_def s4_def f dev)
  have ready: "pic_ready ?c1" "pic_ready ?c2"
    using remapped_ready(2) [of ?c] by (cases "remapped ?c"; simp add: masked_def unmasked_def pic_ready_def)+
  have u0: "stage (?B ?s11 ?c1 u) (call_unmask_irq 0 msg) (?B ?s11 ?c2 u)" for u msg
    using stage_unmask [OF dev9 ready(1), of 0 boot_screen u msg] by simp
  have u1: "stage (?B ?s11 ?c2 u) (call_unmask_irq 1 msg) (?B ?s11 ?c3 u)" for u msg
    using stage_unmask [OF dev9 ready(2), of 1 boot_screen u msg] by simp
  have e1: "stage (?B ?s11 c u) (\<lambda>k. Some (Returned (cpu_enable_interrupts k))) (?B s13 c u)" for c u
    using stage_enable [of chips boot_screen ?s11 c u] by (simp add: s13_def)
  have "leads (\<lambda>x. x = k) (kernel_boot m L magic p)
      (\<lambda>r. \<exists>k'. r = Returned k' \<and> ?B s13 ?c3 (boot_text (serial_answers k) mem st) k')"
    unfolding kernel_boot_def
    by (rule leads_next [OF stage_entered], rule leads_next [OF stage_check], simp add: magic,
        rule leads_next [OF stage_check], simp add: p, rule leads_next [OF stage_klog],
        rule leads_next [OF stage_prints [OF version_prints_line]],
        rule leads_next [OF stage_prints [OF log_line]], simp, rule leads_next [OF m1], rule leads_next [OF m2],
        rule leads_next [OF stage_prints [OF log_line]], simp, rule leads_next [OF p1], rule leads_next [OF p2],
        rule leads_next [OF stage_prints [OF log_line]], simp, rule leads_next [OF g1],
        rule leads_next [OF stage_prints [OF log_line]], simp, rule leads_next [OF v1], rule leads_next [OF v2],
        rule leads_next [OF stage_prints [OF log_line]], simp, rule leads_next [OF h1],
        rule leads_next [OF stage_prints [OF log_line]], simp, rule leads_next [OF i1], rule leads_next [OF i2],
        rule leads_next [OF i3], rule leads_next [OF i4], rule leads_next [OF i5], rule leads_next [OF i6],
        rule leads_next [OF t1], rule leads_next [OF sh1], rule leads_next [OF u0], rule leads_next [OF u1],
        rule leads_next [OF e1], rule leads_end) (simp add: boot_text_def)
  then show ?thesis unfolding leads_def by blast
qed

text \<open>The power-on state meets what the initializers need.\<close>

lemma boot_succeeds:
  assumes on: "powered_on k" and L: "layout_ok L" and dev: "pic_device chips (io_device k)"
    and magic: "magic = MULTIBOOT_BOOTLOADER_MAGIC" and p: "p \<noteq> 0"
    and mem: "memory_initialize m p memory_static = Some (KERNEL_STATUS_OK, mem)"
    and status: "boot_status m L mem p = KERNEL_STATUS_OK"
  shows "\<exists>k' st. kernel_boot m L magic p k = Some (Returned k') \<and> booted L mem st k' \<and>
     pmm_initialize m L mem p pmm_static = Some (KERNEL_STATUS_OK, st) \<and> pmm_running st \<and>
     free_set st = boot_frames m L (stored_regions mem) p \<and>
     screen k' = fold ts_putchar (boot_text (serial_answers k) mem st) boot_screen \<and>
     pic_ready (pic_state chips k') \<and> chip_base (fst (pic_state chips k')) = 32 \<and>
     chip_base (snd (pic_state chips k')) = 40 \<and> (\<forall>i < 16. irq_open (pic_state chips k') i \<longleftrightarrow> i = 0 \<or> i = 1)"
proof -
  note on = on [unfolded powered_on_def]
  have "alen (memory_regions memory_static) = 32" by (simp add: memory_static_def)
  from memory_initialize_decides [OF this, of m p] mem have inv: "memory_inv mem" by auto
  from pmm_initialize_decides [OF inv pmm_static_alen, of m L p] status obtain st where
    st: "pmm_initialize m L mem p pmm_static = Some (KERNEL_STATUS_OK, st)" "pmm_running st"
      "free_set st = boot_frames m L (stored_regions mem) p" by auto
  have g3: "alen (gdt_entries gdt_static) = 3" and i256: "alen (idt_entries idt_static) = 256"
    by (simp_all add: gdt_static_def idt_static_def GDT_ENTRY_COUNT_def IDT_ENTRY_COUNT_def)
  obtain g where g: "\<And>m :: kernel. gdt_initialize L gdt_static m = Some (g, m\<lparr>reg_gdtr := (23, gdt_entries_addr L)\<rparr>)"
      and flat: "flat_gdt g"
    using gdt_initialize_flat [OF g3, of L] by blast
  obtain t where t: "\<And>m :: kernel. idt_initialize L idt_static m = Some (t, m\<lparr>reg_idtr := (2047, idt_entries_addr L)\<rparr>)"
      and routed: "routed_idt L t"
    using idt_initialize_routed [OF i256, of L] by blast
  from vmm_initialize_spec [OF L paging_static_wf, of vmm_static] obtain pg where
    pg: "\<And>m :: kernel. vmm_initialize L paging_static vmm_static m =
        Some (KERNEL_STATUS_OK, pg, vmm_static\<lparr>vmm_initialized := True\<rparr>,
          m\<lparr>reg_cr3 := paging_directory_addr L, reg_cr0 := reg_cr0 m OR I386_CR0_PAGING_ENABLE\<rparr>)"
      "unat (vmm_get_identity_mapped_bytes pg) = 16 * 1024 * 1024"
      "\<And>rest va. i386_translate (phys_word L pg rest) (paging_directory_addr L) va =
        (if unat va < 16 * 1024 * 1024 then Some (va, True) else None)" "paging_wf pg" by blast
  let ?v = "vmm_static\<lparr>vmm_initialized := True\<rparr>"
  have mapped: "vmm_get_identity_mapped_bytes pg = 16777216" using pg(2) by (simp add: word_unat_eq_iff)
  define r0 where "r0 = reg_cr0 (logging k) OR I386_CR0_PAGING_ENABLE"
  have enabled: "vmm_is_enabled ?v x" if "reg_cr0 x = r0" for x :: kernel
  proof -
    have "x\<lparr>reg_cr0 := r0\<rparr> = x" using that by (cases x) simp
    then show ?thesis using vmm_enabled_after [of vmm_static "reg_cr0 (logging k)" x] by (simp add: r0_def)
  qed
  define h where "h = \<lparr>heap_initialized = True, heap_start_address = heap_start_addr L,
     heap_end_address = heap_end_addr L, heap_capacity = heap_end_addr L - heap_start_addr L\<rparr>"
  have h: "heap_initialize L heap_static = (KERNEL_STATUS_OK, h)"
    using layout_heap_ok [OF L] by (simp add: heap_initialize_eq heap_static_def h_def)
  have cap: "unat (heap_end_addr L - heap_start_addr L) = 256 * 1024"
    using L by (subst unat_sub_word) (auto simp: layout_ok_def word_le_nat_alt)
  obtain i0 where i0: "interrupts_initialize (interrupts_static :: irq_handler interrupts) = Some i0"
    using initialize_spec [OF interrupts_static_wf] by blast
  from boot_registers [OF i0 interrupts_static_wf] obtain i1 i2 where
    i: "interrupts_register_irq 0 (Some Pit_handle_interrupt) i0 = Some (True, i1)"
      "interrupts_register_irq 1 (Some Input_handle_keyboard_interrupt) i1 = Some (True, i2)"
      "interrupts_wf i2" "handler_of i2 = boot_handlers" "interrupt_context_depth i2 = 0" "uncounted i2" by blast
  let ?sh = "\<lparr>shell_buffer = afill 64 NUL, shell_buffer_length = 0\<rparr>"
  from reset_buffer_spec [of ?sh] obtain sh where
    sh: "shell_reset_buffer ?sh = Some sh" "shell_ok sh" "shell_line sh = []" by auto
  have vmm: "vmm_initialize L (k_paging k) (k_vmm k) k' = Some (KERNEL_STATUS_OK, pg, ?v,
      k'\<lparr>reg_cr3 := paging_directory_addr L, reg_cr0 := r0\<rparr>)" if "reg_cr0 k' = reg_cr0 (logging k)" for k' :: kernel
    using that pg(1) [of k'] on by (simp add: r0_def)
  have pics: "pic_state chips (logging k) = pic_state chips k" by (simp add: logging_def pic_state_def entered_spec(4) [unfolded pic_state_def])
  from boot_sequence [OF dev magic p, where m = m and mem = mem and L = L and st = st and g = g and gr = "(23, gdt_entries_addr L)"
      and pg = pg and v = ?v and ?r3.0 = "paging_directory_addr L" and ?r0.0 = r0 and h = h and ?i0.0 = i0 and ?i1.0 = i1
      and ?i2.0 = i2 and t = t and ir = "(2047, idt_entries_addr L)" and sh = sh,
      OF _ inv _ _ vmm _ _ i(1,2) _ _ enabled mapped]
  obtain k' where k': "kernel_boot m L magic p k = Some (Returned k')"
    "booting chips boot_screen ((logging k)\<lparr>k_memory := mem, k_pmm := st\<rparr>\<lparr>reg_gdtr := (23, gdt_entries_addr L), k_gdt := g\<rparr>
      \<lparr>reg_cr3 := paging_directory_addr L, reg_cr0 := r0, k_paging := pg, k_vmm := ?v\<rparr>
      \<lparr>k_heap := h, k_interrupts := i0, k_input := input_initialize (k_input k)\<rparr>\<lparr>reg_idtr := (2047, idt_entries_addr L), k_idt := t\<rparr>
      \<lparr>k_interrupts := i1, k_interrupts := i2\<rparr>\<lparr>k_pit := (k_pit k)\<lparr>pit_ticks := 0\<rparr>\<rparr>\<lparr>k_shell := sh, reg_if := True\<rparr>)
      (unmasked 1 (unmasked 0 (masked (remapped (pic_state chips k))))) (boot_text (serial_answers k) mem st) k'"
    using on mem st(1) g h i0 t sh(1) by auto
  have con: "console_ok k'" "screen k' = fold ts_putchar (boot_text (serial_answers k) mem st) boot_screen"
    and pic: "pic_state chips k' = unmasked 1 (unmasked 0 (masked (remapped (pic_state chips k))))"
    using k'(2) by (simp_all add: booting_def)
  note f = same_state_fields [OF conjunct1 [OF conjunct2 [OF conjunct2 [OF k'(2) [unfolded booting_def]]]]]
  have q: "input_ok (k_input k')" "queue_contents (k_input k') = []"
    using initialized_ok [OF static_alen] f on by simp_all
  have "kernel_ok k'" unfolding kernel_ok_def using con(1) q(1) f inv st(2) i(3) sh(2) by simp
  then have idle: "kernel_idle_ok k'" using f i(5) by (simp add: kernel_idle_ok_def)
  have vm: "vmm_is_enabled (k_vmm k') k'" using enabled [of k'] f by simp
  have "booted L mem st k'" unfolding booted_def
    using idle q(2) vm f on sh(3) i(4,6) pg(3,4) cap flat routed logging_fields [of k]
    by (simp add: heap_is_initialized_def heap_get_capacity_def heap_get_start_address_def
        heap_get_end_address_def h_def pit_static_def)
  moreover have "pic_ready (pic_state chips k')" "chip_base (fst (pic_state chips k')) = 32" "chip_base (snd (pic_state chips k')) = 40"
    unfolding pic by (cases "pic_state chips k"; simp add: unmasked_def masked_def remapped_def pic_ready_def)+
  moreover have "\<forall>i < 16. irq_open (pic_state chips k') i \<longleftrightarrow> i = 0 \<or> i = 1" unfolding pic using boot_lines by blast
  ultimately show ?thesis using k'(1) con(2) st by blast
qed

section \<open>A boot that is refused\<close>

definition boot_refusal :: "phys \<Rightarrow> layout \<Rightarrow> u32 \<Rightarrow> u32 \<Rightarrow> cstring option" where
  "boot_refusal m L magic p =
     (if magic \<noteq> MULTIBOOT_BOOTLOADER_MAGIC then Some ''Invalid Multiboot bootloader magic''
      else if p = 0 then Some ''Multiboot information address is zero''
      else case memory_initialize m p memory_static of
        None \<Rightarrow> None
      | Some (status, mem) \<Rightarrow>
          if status \<noteq> KERNEL_STATUS_OK then Some ''Memory-map initialization failed''
          else if boot_status m L mem p \<noteq> KERNEL_STATUS_OK then Some ''Physical memory manager initialization failed''
          else None)"

text \<open>What is on the screen above the panic.\<close>

definition refusal_text :: "phys \<Rightarrow> u32 \<Rightarrow> u32 \<Rightarrow> bool \<Rightarrow> string" where
  "refusal_text m magic p serial =
     (if magic \<noteq> MULTIBOOT_BOOTLOADER_MAGIC \<or> p = 0 then []
      else serial_warning serial @ (''wigOSX '' @ WIGOSX_VERSION_STRING @ [CHR 0x0A]) @
        (''Initializing normalized memory map...'' @ [CHR 0x0A]) @
        (case memory_initialize m p memory_static of
           Some (KERNEL_STATUS_OK, mem) \<Rightarrow>
             memory_summary_text mem @ (''Initializing physical memory manager...'' @ [CHR 0x0A])
         | _ \<Rightarrow> []))"

definition refused_with :: "string \<Rightarrow> cstring \<Rightarrow> outcome \<Rightarrow> bool" where
  "refused_with t msg r \<longleftrightarrow> (\<exists>k'. r = Stopped k' \<and> console_ok k' \<and>
     screen k' = fold ts_putchar (t @ panic_text (Some msg)) boot_screen \<and> cpu_halted k' \<and> \<not> reg_if k')"

lemma refusedI:
  assumes "console_ok k" "screen k = fold ts_putchar t boot_screen"
  shows "refused_with t msg (Stopped (kernel_panic (Some msg) k))"
proof -
  from kernel_panic_spec [OF assms(1), of "Some msg"] obtain k' where
    k': "kernel_panic (Some msg) k = k'\<lparr>cpu_halted := True\<rparr>" "console_ok k'"
      "screen k' = fold ts_putchar (panic_text (Some msg)) (screen k)" "klog_frame (k\<lparr>reg_if := False\<rparr>) k'" by blast
  then show ?thesis using assms(2) frame_kernel [OF k'(4)]
    by (simp add: refused_with_def)
qed

lemma require_fails: "status \<noteq> KERNEL_STATUS_OK \<Longrightarrow> kernel_require status msg k = Some (Stopped (kernel_panic (Some msg) k))"
  by (cases status) (simp_all add: kernel_require_def kernel_status_is_ok_def)

lemma memory_refused:
  assumes "memory_initialize m p (k_memory s) = Some (status, mem)" "status \<noteq> KERNEL_STATUS_OK"
  shows "leads (booting chips boot_screen s c t) (run_all (call_memory_initialize m p # fs))
     (refused_with t ''Memory-map initialization failed'')"
proof (rule leads_stop)
  fix x assume "booting chips boot_screen s c t x"
  then have x: "console_ok x" "screen x = fold ts_putchar t boot_screen" "same_state s x" by (simp_all add: booting_def)
  have "call_memory_initialize m p x = Some (Stopped (kernel_panic (Some ''Memory-map initialization failed'') (x\<lparr>k_memory := mem\<rparr>)))"
    using assms by (simp add: call_memory_initialize_def same_state_fields [OF x(3)] require_fails)
  then show "\<exists>k'. call_memory_initialize m p x = Some (Stopped k') \<and>
      refused_with t ''Memory-map initialization failed'' (Stopped k')"
    using refusedI [of "x\<lparr>k_memory := mem\<rparr>" t] x(1,2) by simp
qed

lemma pmm_refused:
  assumes "pmm_initialize m L (k_memory s) p (k_pmm s) = Some (status, st)" "status \<noteq> KERNEL_STATUS_OK"
  shows "leads (booting chips boot_screen s c t) (run_all (call_pmm_initialize m L p # fs))
     (refused_with t ''Physical memory manager initialization failed'')"
proof (rule leads_stop)
  fix x assume "booting chips boot_screen s c t x"
  then have x: "console_ok x" "screen x = fold ts_putchar t boot_screen" "same_state s x" by (simp_all add: booting_def)
  have "call_pmm_initialize m L p x =
      Some (Stopped (kernel_panic (Some ''Physical memory manager initialization failed'') (x\<lparr>k_pmm := st\<rparr>)))"
    using assms by (simp add: call_pmm_initialize_def same_state_fields [OF x(3)] require_fails)
  then show "\<exists>k'. call_pmm_initialize m L p x = Some (Stopped k') \<and>
      refused_with t ''Physical memory manager initialization failed'' (Stopped k')"
    using refusedI [of "x\<lparr>k_pmm := st\<rparr>" t] x(1,2) by simp
qed

lemma check_refused:
  "b \<Longrightarrow> leads (\<lambda>x. x = entered k) (run_all (panic_if b msg # fs)) (refused_with [] msg)"
  by (rule leads_stop) (simp add: panic_if_def refusedI [of _ "[]"] entered_spec(1,2))

lemma boot_refused:
  assumes on: "powered_on k" and no: "boot_refusal m L magic p = Some msg"
  shows "\<exists>r. kernel_boot m L magic p k = Some r \<and> refused_with (refusal_text m magic p (serial_answers k)) msg r"
proof -
  note on = on [unfolded powered_on_def]
  note f = logging_fields [of k]
  have alen: "alen (memory_regions memory_static) = 32" by (simp add: memory_static_def)
  from memory_initialize_decides [OF alen, of m p] obtain s mem where
    mem: "memory_initialize m p memory_static = Some (s, mem)" "memory_inv mem" by blast
  from pmm_initialize_decides [OF mem(2) pmm_static_alen, of m L p] obtain st where
    st: "pmm_initialize m L mem p pmm_static = Some (boot_status m L mem p, st)" by blast
  consider (magic) "magic \<noteq> MULTIBOOT_BOOTLOADER_MAGIC" "msg = ''Invalid Multiboot bootloader magic''"
    | (address) "magic = MULTIBOOT_BOOTLOADER_MAGIC" "p = 0" "msg = ''Multiboot information address is zero''"
    | (memory) "magic = MULTIBOOT_BOOTLOADER_MAGIC" "p \<noteq> 0" "s \<noteq> KERNEL_STATUS_OK" "msg = ''Memory-map initialization failed''"
    | (frames) "magic = MULTIBOOT_BOOTLOADER_MAGIC" "p \<noteq> 0" "s = KERNEL_STATUS_OK" "boot_status m L mem p \<noteq> KERNEL_STATUS_OK"
        "msg = ''Physical memory manager initialization failed''"
    using no mem(1) by (auto simp: boot_refusal_def split: if_splits)
  then have "leads (\<lambda>x. x = k) (kernel_boot m L magic p) (refused_with (refusal_text m magic p (serial_answers k)) msg)"
  proof cases
    case magic
    then have shown: "refusal_text m magic p (serial_answers k) = []" by (simp add: refusal_text_def)
    from magic show ?thesis unfolding kernel_boot_def magic(2) shown
      by (intro leads_next [OF stage_entered] check_refused) simp
  next
    case address
    then have shown: "refusal_text m magic p (serial_answers k) = []" by (simp add: refusal_text_def)
    from address show ?thesis unfolding kernel_boot_def address(3) shown
      by (intro leads_next [OF stage_entered] leads_next [OF stage_check] check_refused) simp_all
  next
    case memory
    have shown: "refusal_text m magic p (serial_answers k) =
        (serial_warning (serial_answers k) @ (''wigOSX '' @ WIGOSX_VERSION_STRING @ [CHR 0x0A])) @
        (''Initializing normalized memory map...'' @ [CHR 0x0A])"
      using memory mem(1) by (cases s) (simp_all add: refusal_text_def)
    show ?thesis unfolding kernel_boot_def memory(4) shown
      by (rule leads_next [OF stage_entered], rule leads_next [OF stage_check], simp add: memory,
        rule leads_next [OF stage_check], simp add: memory, rule leads_next [OF stage_klog [where chips = undefined]],
        rule leads_next [OF stage_prints [OF version_prints_line]],
        rule leads_next [OF stage_prints [OF log_line]], simp, rule memory_refused [OF _ memory(3)])
        (simp add: f on mem(1))
  next
    case frames
    let ?s1 = "(logging k)\<lparr>k_memory := mem\<rparr>"
    have m1: "stage (booting undefined boot_screen (logging k) c u) (call_memory_initialize m p) (booting undefined boot_screen ?s1 c u)" for c u
      by (rule stage_memory) (simp add: f on mem(1) frames(3))
    have m2: "stage (booting undefined boot_screen ?s1 c u) (\<lambda>k. returning (memory_print_summary (k_memory k)) k)
        (booting undefined boot_screen ?s1 c (u @ memory_summary_text mem))" for c u
      using stage_memory_summary [of ?s1 undefined boot_screen c u] mem(2) by simp
    have shown: "refusal_text m magic p (serial_answers k) =
        (((serial_warning (serial_answers k) @ (''wigOSX '' @ WIGOSX_VERSION_STRING @ [CHR 0x0A])) @
        (''Initializing normalized memory map...'' @ [CHR 0x0A])) @ memory_summary_text mem) @
        (''Initializing physical memory manager...'' @ [CHR 0x0A])"
      using frames mem(1) by (simp add: refusal_text_def)
    show ?thesis unfolding kernel_boot_def frames(5) shown
      by (rule leads_next [OF stage_entered], rule leads_next [OF stage_check], simp add: frames,
        rule leads_next [OF stage_check], simp add: frames, rule leads_next [OF stage_klog [where chips = undefined]],
        rule leads_next [OF stage_prints [OF version_prints_line]],
        rule leads_next [OF stage_prints [OF log_line]], simp, rule leads_next [OF m1], rule leads_next [OF m2],
        rule leads_next [OF stage_prints [OF log_line]], simp, rule pmm_refused [OF _ frames(4)])
        (simp add: f on st)
  qed
  then show ?thesis unfolding leads_def by blast
qed

text \<open>A boot that returns is one that succeeds.\<close>

lemma boot_returns:
  assumes on: "powered_on k" and L: "layout_ok L" and dev: "pic_device chips (io_device k)"
    and ret: "kernel_boot m L magic p k = Some (Returned k')"
  shows "\<exists>mem st. booted L mem st k' \<and> memory_inv mem \<and> pmm_initialize m L mem p pmm_static = Some (KERNEL_STATUS_OK, st)"
proof -
  have "boot_refusal m L magic p = None"
  proof (rule ccontr)
    assume "boot_refusal m L magic p \<noteq> None"
    then obtain msg where "boot_refusal m L magic p = Some msg" by blast
    from boot_refused [OF on this] ret show False by (auto simp: refused_with_def)
  qed
  moreover have alen: "alen (memory_regions memory_static) = 32" by (simp add: memory_static_def)
  moreover from memory_initialize_decides [OF alen, of m p] obtain s mem where
    "memory_initialize m p memory_static = Some (s, mem)" "memory_inv mem" by blast
  ultimately have ok: "magic = MULTIBOOT_BOOTLOADER_MAGIC" "p \<noteq> 0" "memory_inv mem"
    "memory_initialize m p memory_static = Some (KERNEL_STATUS_OK, mem)" "boot_status m L mem p = KERNEL_STATUS_OK"
    by (auto simp: boot_refusal_def split: if_splits)
  from boot_succeeds [OF on L dev ok(1,2,4,5)] ret ok(3) show ?thesis by auto
qed

lemma booted_start: "booted L mem st k \<Longrightarrow> system_ok (start k)"
  by (intro start_ok) (simp_all add: booted_def)

section \<open>Properties\<close>

text \<open>A power-on state with 8259 chips as a BIOS leaves them and a serial port, booted from a table of
  three entries.\<close>

definition boot_device :: "io_event list \<Rightarrow> u16 \<Rightarrow> u8" where
  "boot_device l p = (if p = 0x21 then chip_mask (fst (pic_after bios_chips l))
     else if p = 0xA1 then chip_mask (snd (pic_after bios_chips l)) else 0x20)"

lemma boot_device_pic: "pic_device bios_chips boot_device"
  by (simp add: pic_device_def boot_device_def)

lemma static_powered_on: "powered_on (kernel_static dev)" "io_device (kernel_static dev) = dev"
  by (simp_all add: powered_on_def kernel_static_def)

lemma sample_boot: "\<exists>mem. memory_initialize sample_phys 0x1000 memory_static = Some (KERNEL_STATUS_OK, mem) \<and>
    boot_status sample_phys sample_layout mem 0x1000 = KERNEL_STATUS_OK"
proof -
  from sample_table_read obtain mem where
    mem: "memory_initialize sample_phys 0x1000 memory_static = Some (KERNEL_STATUS_OK, mem)" "memory_is_initialized mem"
      "stored_regions mem = normalized (map fst sample_entries)" by blast
  have "alen (memory_regions memory_static) = 32" by (simp add: memory_static_def)
  from memory_initialize_decides [OF this, of sample_phys "0x1000"] mem(1)
  have trunc: "\<not> memory_map_truncated mem" by (auto simp: memory_was_map_truncated_def)
  let ?rs = "stored_regions mem"
  have "1024 \<in> usable_frames ?rs"
    unfolding mem(3) sample_normalized usable_frames_def
    by (rule UN_I [of "\<lparr>base_address = 0x100000, region_length = 0xF00000, region_type = MEMORY_REGION_USABLE\<rparr>"])
       (simp_all add: frames_inside_def range_limit_def usable_def)
  moreover have "tracked_frames ?rs = 4096"
    unfolding mem(3) sample_normalized by (simp add: tracked_frames_def highest_end_def region_end_def range_limit_def)
  moreover have "1024 \<notin> owned_frames sample_phys sample_layout 0x1000"
    by (simp add: owned_frames_def image_frames_def bitmap_frames_def multiboot_frames_def Let_def
        sample_info frames_touched_def range_limit_def sample_layout_def)
  ultimately have "boot_frames sample_phys sample_layout ?rs 0x1000 \<noteq> {}" by (auto simp: boot_frames_def)
  then have "boot_status sample_phys sample_layout mem 0x1000 = KERNEL_STATUS_OK"
    using mem(2,3) trunc by (simp add: boot_status_def memory_is_initialized_def sample_normalized)
  then show ?thesis using mem(1) by blast
qed

text \<open>C4. The kernel boots whenever it can.  Entered by a Multiboot loader with a valid memory map that leaves
  a frame to give, in any register state, with any text memory, any earlier port traffic, any
  state of the 8259 chips and any answers of the serial port, \<open>kernel_main\<close> reaches its loop
  without a panic or a fault: every subsystem is initialized and consistent, the descriptor tables
  are loaded and paging maps the first 16 MiB to themselves, the timer and keyboard handlers are
  registered, exactly IRQ 0 and 1 are open at vectors 32 and 33, the queue and the shell's line are empty,
  the screen shows exactly the boot messages and the prompt, and interrupts are on.\<close>

theorem kernel_boots:
  assumes "powered_on k" "layout_ok L" "pic_device chips (io_device k)"
    and "magic = MULTIBOOT_BOOTLOADER_MAGIC" "p \<noteq> 0"
    and "memory_initialize m p memory_static = Some (KERNEL_STATUS_OK, mem)"
    and "boot_status m L mem p = KERNEL_STATUS_OK"
  shows "\<exists>k' st. kernel_boot m L magic p k = Some (Returned k') \<and> booted L mem st k' \<and>
     pmm_initialize m L mem p pmm_static = Some (KERNEL_STATUS_OK, st) \<and> pmm_running st \<and>
     free_set st = boot_frames m L (stored_regions mem) p \<and>
     screen k' = fold ts_putchar (boot_text (serial_answers k) mem st) boot_screen \<and>
     pic_ready (pic_state chips k') \<and> chip_base (fst (pic_state chips k')) = 32 \<and>
     chip_base (snd (pic_state chips k')) = 40 \<and> (\<forall>i < 16. irq_open (pic_state chips k') i \<longleftrightarrow> i = 0 \<or> i = 1)"
  by (rule boot_succeeds [OF assms])

lemma kernel_boots_witness:
  "\<exists>k'. kernel_boot sample_phys sample_layout 0x2BADB002 0x1000 (kernel_static boot_device) = Some (Returned k') \<and>
     irq_open (pic_state bios_chips k') 1"
proof -
  from sample_boot obtain mem where
    mem: "memory_initialize sample_phys 0x1000 memory_static = Some (KERNEL_STATUS_OK, mem)"
      "boot_status sample_phys sample_layout mem 0x1000 = KERNEL_STATUS_OK" by blast
  have "\<exists>k' st. kernel_boot sample_phys sample_layout 0x2BADB002 0x1000 (kernel_static boot_device) = Some (Returned k') \<and>
      booted sample_layout mem st k' \<and>
      pmm_initialize sample_phys sample_layout mem 0x1000 pmm_static = Some (KERNEL_STATUS_OK, st) \<and> pmm_running st \<and>
      free_set st = boot_frames sample_phys sample_layout (stored_regions mem) 0x1000 \<and>
      screen k' = fold ts_putchar (boot_text (serial_answers (kernel_static boot_device)) mem st) boot_screen \<and>
      pic_ready (pic_state bios_chips k') \<and> chip_base (fst (pic_state bios_chips k')) = 32 \<and>
      chip_base (snd (pic_state bios_chips k')) = 40 \<and> (\<forall>i < 16. irq_open (pic_state bios_chips k') i \<longleftrightarrow> i = 0 \<or> i = 1)"
    by (rule kernel_boots [OF static_powered_on(1) sample_layout_ok _ _ _ mem])
       (simp_all add: static_powered_on boot_device_pic MULTIBOOT_BOOTLOADER_MAGIC_def)
  then show ?thesis by auto
qed

text \<open>C15. A boot that cannot succeed stops safely and says why.  A wrong Multiboot magic, a null information
  address, a memory map that is refused and a memory map that leaves the frame allocator nothing to
  give each end in the panic with that step's message, below exactly what the steps before it logged,
  the processor halted with interrupts off; the first failing check decides, and no later step runs.\<close>

theorem kernel_boot_refuses:
  assumes "powered_on k" "boot_refusal m L magic p = Some msg"
  shows "\<exists>k'. kernel_boot m L magic p k = Some (Stopped k') \<and>
     screen k' = fold ts_putchar (refusal_text m magic p (serial_answers k) @ panic_text (Some msg)) boot_screen \<and> cpu_halted k' \<and> \<not> reg_if k'"
  using boot_refused [OF assms] by (auto simp: refused_with_def)

lemma kernel_boot_refuses_witness:
  "\<exists>k'. kernel_boot (\<lambda>_. 0) sample_layout 0 0x1000 (kernel_static boot_device) = Some (Stopped k') \<and>
     screen k' = fold ts_putchar (panic_text (Some ''Invalid Multiboot bootloader magic'')) boot_screen"
proof -
  have "boot_refusal (\<lambda>_. 0) sample_layout 0 0x1000 = Some ''Invalid Multiboot bootloader magic''"
    by (simp add: boot_refusal_def MULTIBOOT_BOOTLOADER_MAGIC_def)
  moreover have "refusal_text (\<lambda>_. 0) 0 0x1000 b = []" for b
    by (simp add: refusal_text_def MULTIBOOT_BOOTLOADER_MAGIC_def)
  ultimately show ?thesis using kernel_boot_refuses [OF static_powered_on(1)] by fastforce
qed

text \<open>
  No later state of a booted kernel, as long as its frames, heap and tables are those of the boot,
  has a free or allocated frame inside the kernel.
\<close>

lemma booted_frames_apart:
  assumes "powered_on k" "layout_ok L" "pic_device chips (io_device k)"
    and "kernel_boot m L magic p k = Some (Returned k')" and const: "system_const k' k2"
    and f: "f \<in> free_set (k_pmm k2) \<union> alloc_set (k_pmm k2)" "4096 * f \<le> b" "b < 4096 * f + 4096"
  shows "\<not> (unat (kernel_start_addr L) \<le> b \<and> b < unat (kernel_end_addr L)) \<and>
     \<not> (unat (heap_get_start_address (k_heap k2)) \<le> b \<and> b < unat (heap_get_end_address (k_heap k2))) \<and>
     \<not> (unat (paging_directory_addr L) \<le> b \<and> b < unat (paging_directory_addr L) + 4096) \<and>
     \<not> (unat (paging_tables_addr L) \<le> b \<and> b < unat (paging_tables_addr L) + 16384) \<and>
     \<not> (unat (pmm_bitmap_addr L) \<le> b \<and> b < unat (pmm_bitmap_addr L) + 131072) \<and> 0x100000 \<le> b"
proof -
  from boot_returns [OF assms(1-4)] obtain mem st where
    b: "booted L mem st k'" "memory_inv mem" "pmm_initialize m L mem p pmm_static = Some (KERNEL_STATUS_OK, st)" by blast
  have "boot_status m L mem p = KERNEL_STATUS_OK" "alloc_set st = {}"
    using pmm_initialize_decides [OF b(2) pmm_static_alen, of m L p] b(3) by auto
  then have "f \<in> free_set st" using f(1) const b(1) by (simp add: system_const_def same_frames_def booted_def)
  note safe = free_bytes_safe [OF b(2) pmm_static_alen b(3) this f(2,3)]
  have heap: "k_heap k2 = k_heap k'" using const by (simp add: system_const_def)
  have bounds: "heap_get_start_address (k_heap k2) = heap_start_addr L" "heap_get_end_address (k_heap k2) = heap_end_addr L"
    using b(1) unfolding heap by (simp_all add: booted_def)
  have image: "\<not> (unat (kernel_start_addr L) \<le> b \<and> b < unat (kernel_end_addr L))" using safe by blast
  have inside: "unat (kernel_start_addr L) \<le> unat (heap_start_addr L)" "heap_end_addr L = kernel_end_addr L"
    "in_image L (paging_directory_addr L) 4096" "in_image L (paging_tables_addr L) 16384"
    using assms(2) by (auto simp: layout_ok_def)
  show ?thesis unfolding bounds using image inside safe unfolding in_image_def by auto
qed

text \<open>Whatever is typed and whichever interrupts arrive, the running kernel never offers memory that is
  its own: in every configuration reachable from a boot that returned, no byte of a free or
  allocated frame lies in the heap region, the page directory, the page tables, the allocator's
  bitmaps or anywhere else in the kernel image, and the heap region keeps its bounds.\<close>

theorem frames_never_overlap_kernel:
  assumes "powered_on k" "layout_ok L" "pic_device chips (io_device k)"
    and "kernel_boot m L magic p k = Some (Returned k')" "system_run (start k') s"
    and "f \<in> free_set (k_pmm (sys_kernel s)) \<union> alloc_set (k_pmm (sys_kernel s))"
    and "4096 * f \<le> b" "b < 4096 * f + 4096"
  shows "\<not> (unat (kernel_start_addr L) \<le> b \<and> b < unat (kernel_end_addr L)) \<and>
     \<not> (unat (heap_get_start_address (k_heap (sys_kernel s))) \<le> b \<and> b < unat (heap_get_end_address (k_heap (sys_kernel s)))) \<and>
     \<not> (unat (paging_directory_addr L) \<le> b \<and> b < unat (paging_directory_addr L) + 4096) \<and>
     \<not> (unat (paging_tables_addr L) \<le> b \<and> b < unat (paging_tables_addr L) + 16384) \<and>
     \<not> (unat (pmm_bitmap_addr L) \<le> b \<and> b < unat (pmm_bitmap_addr L) + 131072) \<and> 0x100000 \<le> b"
proof -
  from boot_returns [OF assms(1-4)] obtain mem st where "booted L mem st k'" by blast
  from system_run_const [OF assms(5) booted_start [OF this]] have "system_const k' (sys_kernel s)" by (simp add: start_def)
  from booted_frames_apart [OF assms(1-4) this assms(6-8)] show ?thesis .
qed

lemma frames_never_overlap_kernel_witness:
  "\<exists>k'. kernel_boot sample_phys sample_layout 0x2BADB002 0x1000 (kernel_static boot_device) = Some (Returned k') \<and>
     (\<forall>f \<in> free_set (k_pmm k'). \<not> (0x200000 \<le> 4096 * f \<and> 4096 * f < 0x300000))"
proof -
  from sample_boot obtain mem where
    mem: "memory_initialize sample_phys 0x1000 memory_static = Some (KERNEL_STATUS_OK, mem)"
      "boot_status sample_phys sample_layout mem 0x1000 = KERNEL_STATUS_OK" by blast
  have dev: "pic_device bios_chips (io_device (kernel_static boot_device))"
    by (simp add: static_powered_on boot_device_pic)
  from boot_succeeds [OF static_powered_on(1) sample_layout_ok dev _ _ mem, of "0x2BADB002"] obtain k' where
    k': "kernel_boot sample_phys sample_layout 0x2BADB002 0x1000 (kernel_static boot_device) = Some (Returned k')"
    by (auto simp: MULTIBOOT_BOOTLOADER_MAGIC_def)
  have "\<not> (0x200000 \<le> 4096 * f \<and> 4096 * f < 0x300000)" if "f \<in> free_set (k_pmm k')" for f
    using frames_never_overlap_kernel [OF static_powered_on(1) sample_layout_ok dev k' run_start, of f "4096 * f"] that
    by (simp add: start_def sample_layout_def)
  then show ?thesis using k' by blast
qed

end
