(* ===== verification/Entry.thy ===== *)
theory Entry
  imports Stubs Boot
begin

text \<open>
  The assembly that is called or entered once: \<^verbatim>\<open>boot/multiboot.s\<close>, \<^verbatim>\<open>arch/i386/memory/gdt_flush.s\<close>
  and \<^verbatim>\<open>arch/i386/interrupts/idt_flush.s\<close>.  Then what the whole machine does: from the entry point
  to the loop of the kernel, and from an interrupted instruction through the stub and the C handler
  back to it.
\<close>

section \<open>\<^verbatim>\<open>multiboot.s\<close>\<close>

definition ALIGN :: u32 where "ALIGN = push_bit 0 1"
definition MEMINFO :: u32 where "MEMINFO = push_bit 1 1"
definition FLAGS :: u32 where "FLAGS = ALIGN OR MEMINFO"
definition MAGIC :: u32 where "MAGIC = 0x1BADB002"
definition CHECKSUM :: u32 where "CHECKSUM = - (MAGIC + FLAGS)"

text \<open>The three words a loader looks for, and what it checks of them.\<close>

definition multiboot_header :: "u32 list" where
  "multiboot_header = [MAGIC, FLAGS, CHECKSUM]"

definition header_accepted :: "u32 list \<Rightarrow> bool" where
  "header_accepted ws \<longleftrightarrow> length ws = 3 \<and> ws ! 0 = 0x1BADB002 \<and> sum_list ws = 0"

lemma multiboot_header_ok: "header_accepted multiboot_header" "bit (multiboot_header ! 1) 1"
  by (simp_all add: header_accepted_def multiboot_header_def CHECKSUM_def MAGIC_def FLAGS_def ALIGN_def MEMINFO_def)

datatype entry_call = Kernel_main

text \<open>The code at \<open>_start\<close>, up to the endless \<open>hlt\<close> after it.\<close>

definition start_code :: "u32 \<Rightarrow> entry_call instr list" where
  "start_code stack_top =
     [Mov_imm stack_top ESP,
      Push EBX,
      Push EAX,
      Call Kernel_main,
      Add_imm 8 ESP,
      Cli]"

text \<open>
  \<open>kernel_main\<close> finds its two arguments on the stack and does not return: it ends in a panic, or its
  loop starts in the state the boot has led to.
\<close>

definition outcome_state :: "outcome \<Rightarrow> kernel" where
  "outcome_state r = (case r of Returned k \<Rightarrow> k | Stopped k \<Rightarrow> k)"

definition call_kernel_main :: "phys \<Rightarrow> layout \<Rightarrow> entry_call \<Rightarrow> cpu \<Rightarrow> kernel \<Rightarrow> kernel progress option" where
  "call_kernel_main m L f c k =
     map_option (\<lambda>r. Stays (outcome_state r)) (kernel_boot m L (tos c) (cells c (regs c ESP + 4)) k)"

text \<open>The registers in which a loader passes its magic number and its information are the arguments.\<close>

lemma start_code_calls:
  "exec d (call_kernel_main m L) (start_code stack_top) c k =
     map_option (\<lambda>r. Stays (outcome_state r)) (kernel_boot m L (regs c EAX) (regs c EBX) k)"
proof -
  have "stack_top - 4 \<noteq> stack_top - 8" by simp
  then show ?thesis
    by (simp add: start_code_def call_kernel_main_def set_reg_def push_def tos_def Let_def split: option.split)
qed

text \<open>
  The stack is aligned to 16 bytes before the two arguments are pushed, so it is not where
  \<open>kernel_main\<close> is called: the convention asks for a multiple of 16 there.
\<close>

lemma kernel_main_stack_unaligned:
  assumes "unat stack_top mod 16 = 0" "stack_top \<noteq> 0"
  shows "\<exists>c'. exec d call (take 3 (start_code stack_top)) c s = Some (Running c' s) \<and>
     regs c' ESP = stack_top - 8 \<and> unat (regs c' ESP) mod 16 = 8"
proof -
  have "16 \<le> unat stack_top" using assms by (metis mod_less not_less unat_eq_zero)
  then have "unat (stack_top - 8) = unat stack_top - 8" by (simp add: unat_sub word_le_nat_alt)
  moreover obtain q where "unat stack_top = 16 * q" using assms(1) by auto
  moreover from this have "16 * q - 8 = 8 + 16 * (q - 1)" using \<open>16 \<le> unat stack_top\<close> by simp
  ultimately have "unat (stack_top - 8) mod 16 = 8" by simp
  then show ?thesis by (simp add: start_code_def set_reg_def push_def Let_def numeral_3_eq_3)
qed

section \<open>\<^verbatim>\<open>gdt_flush.s\<close> and \<^verbatim>\<open>idt_flush.s\<close>\<close>

definition GDT_KERNEL_CODE_SELECTOR :: u16 where "GDT_KERNEL_CODE_SELECTOR = 0x08"
definition GDT_KERNEL_DATA_SELECTOR :: u16 where "GDT_KERNEL_DATA_SELECTOR = 0x10"

datatype table_load = Lgdt reg | Lidt reg

definition gdt_flush_code :: "table_load instr list" where
  "gdt_flush_code =
     [Mov_stack 4 EAX,
      On_state (Lgdt EAX),
      Mov_imm16 GDT_KERNEL_DATA_SELECTOR EAX,
      Mov_to_segment EAX DS,
      Mov_to_segment EAX ES,
      Mov_to_segment EAX FS,
      Mov_to_segment EAX GS,
      Mov_to_segment EAX SS,
      Ljmp GDT_KERNEL_CODE_SELECTOR,
      Ret]"

definition idt_flush_code :: "table_load instr list" where
  "idt_flush_code =
     [Mov_stack 4 EAX,
      On_state (Lidt EAX),
      Ret]"

text \<open>The limit and the base are read where the register points: \<open>pseudo\<close> is what memory holds there.\<close>

definition load_table ::
  "(u32 \<Rightarrow> u16 \<times> u32) \<Rightarrow> table_load \<Rightarrow> cpu \<Rightarrow> 'a machine_scheme \<Rightarrow> 'a machine_scheme progress option"
where
  "load_table pseudo f c m =
     (case f of
        Lgdt r \<Rightarrow> Some (Running c (m\<lparr>reg_gdtr := pseudo (regs c r)\<rparr>))
      | Lidt r \<Rightarrow> Some (Running c (m\<lparr>reg_idtr := pseudo (regs c r)\<rparr>)))"

text \<open>The calls return to the caller, with \<open>EAX\<close> used, \<open>GDTR\<close> loaded and every segment the kernel's.\<close>

definition returned :: "cpu \<Rightarrow> cpu \<Rightarrow> bool" where
  "returned c c' \<longleftrightarrow> eip c' = tos c \<and> regs c' ESP = regs c ESP + 4 \<and>
     (\<forall>r. r \<noteq> EAX \<and> r \<noteq> ESP \<longrightarrow> regs c' r = regs c r) \<and> eflags c' = eflags c \<and> cells c' = cells c"

lemma gdt_flush_runs:
  fixes m :: "'a machine_scheme"
  assumes flat: "flat_gdt g" and ptr: "pseudo (cells c (regs c ESP + 4)) = (23, gdt_entries_addr L)"
  shows "\<exists>c'. exec (\<lambda>m :: 'a machine_scheme. table_at L g (reg_gdtr m)) (load_table pseudo) gdt_flush_code c m =
       Some (Running c' (gdt_flush (23, gdt_entries_addr L) m)) \<and> returned c c' \<and> in_kernel c'"
proof -
  have seg: "load_segment (table_at L g (23, gdt_entries_addr L)) s v x = Some (x\<lparr>segs := (segs x)(s := v)\<rparr>)"
    if "(s = CS \<and> v = 8) \<or> (s \<noteq> CS \<and> v = 0x10)" for s v x
    using flat_kernel_segments [OF flat, of L] that
    by (cases s) (auto simp: load_segment_def kernel_segments_def)
  show ?thesis
    by (simp add: gdt_flush_code_def load_table_def set_reg_def ptr GDT_KERNEL_DATA_SELECTOR_def
        GDT_KERNEL_CODE_SELECTOR_def seg gdt_flush_def ret_def drop_top_def tos_def returned_def in_kernel_def)
      (auto simp: fun_eq_iff intro: segment.exhaust)
qed

lemma idt_flush_runs:
  fixes m :: "'a machine_scheme"
  assumes "pseudo (cells c (regs c ESP + 4)) = ptr"
  shows "\<exists>c'. exec d (load_table pseudo) idt_flush_code c m = Some (Running c' (idt_flush ptr m)) \<and>
     returned c c' \<and> segs c' = segs c"
  by (simp add: idt_flush_code_def load_table_def set_reg_def assms idt_flush_def ret_def drop_top_def tos_def returned_def)

text \<open>What C prepares and the assembly loads: both initializers, down to their last instruction.\<close>

lemma tables_flushed:
  fixes m :: "'a machine_scheme"
  assumes g: "alen (gdt_entries g) = 3" "gdt_initialize L g m = Some (g', m')" "pseudo (cells c (regs c ESP + 4)) = gdt_ptr g'"
    and t: "alen (idt_entries t) = 256" "idt_initialize L t n = Some (t', n')"
      "pseudo (cells b (regs b ESP + 4)) = idt_ptr t'"
  shows "(\<exists>c'. exec (\<lambda>m :: 'a machine_scheme. table_at L g' (reg_gdtr m)) (load_table pseudo) gdt_flush_code c m = Some (Running c' m') \<and>
       returned c c' \<and> in_kernel c') \<and>
     (\<exists>b'. exec d (load_table pseudo) idt_flush_code b n = Some (Running b' n') \<and> returned b b' \<and> segs b' = segs b)"
proof
  have "flat_gdt g'" "gdt_ptr g' = (23, gdt_entries_addr L)" "m' = gdt_flush (23, gdt_entries_addr L) m"
    using g(2) unfolding gdt_initialize_eq [OF g(1)] by (auto simp: flat_gdt_def gdt_flush_def)
  then show "\<exists>c'. exec (\<lambda>m :: 'a machine_scheme. table_at L g' (reg_gdtr m)) (load_table pseudo) gdt_flush_code c m =
      Some (Running c' m') \<and> returned c c' \<and> in_kernel c'"
    using gdt_flush_runs [of g' pseudo c L m] g(3) by simp
  have "n' = idt_flush (idt_ptr t') n"
    using t(2) unfolding idt_initialize_eq [OF t(1)] by (auto simp: idt_flush_def)
  then show "\<exists>b'. exec d (load_table pseudo) idt_flush_code b n = Some (Running b' n') \<and> returned b b' \<and> segs b' = segs b"
    using idt_flush_runs [of pseudo b "idt_ptr t'" d n] t(3) by simp
qed

section \<open>Interrupts of the running kernel\<close>

lemma booted_tables: "booted L mem st k \<Longrightarrow> tables_loaded L k"
  by (simp add: booted_def tables_loaded_def)

lemma tables_loaded_const: "system_const k k' \<Longrightarrow> tables_loaded L k' = tables_loaded L k"
  by (simp add: system_const_def tables_loaded_def)

lemma tables_loaded_if [simp]:
  "tables_loaded L (k\<lparr>reg_if := b\<rparr>) = tables_loaded L k" "tables_loaded L (k\<lparr>cpu_halted := b\<rparr>) = tables_loaded L k"
  by (simp_all add: tables_loaded_def)

lemma interrupted_number:
  assumes "v < 48"
  shows "unat (frame_interrupt_number (interrupted_frame c (of_nat v) e)) = v"
  using assms by (simp add: interrupted_frame_def saved_frame_def unat_of_nat)

text \<open>A hardware interrupt whose C handler returns, with the tables loaded.\<close>

lemma hardware_frame_built:
  assumes "32 \<le> v" "v < 48"
  shows "hardware_frame (interrupted_frame c (of_nat v) e)" "frame_irq (interrupted_frame c (of_nat v) e) = v - 32"
  using assms interrupted_number [OF assms(2)] by (simp_all add: hardware_frame_def frame_irq_def)

lemma stub_runs_handler:
  assumes tables: "tables_loaded L k" "tables_loaded L k'"
    and env: "stubs_placed L" "abi_ok compiled" "in_kernel c" "60 \<le> unat (regs c ESP)"
    and v: "32 \<le> v" "v < 48"
    and k': "irq_handler (Some (interrupted_frame c (of_nat v) (vector_error v error))) k = Some (Returned k')"
  shows "\<exists>w. take_interrupt L compiled v error c k = Some (Running (c\<lparr>cells := w\<rparr>) k') \<and> (\<forall>a \<ge> regs c ESP. w a = cells c a)"
proof -
  have handler: "handler_outcome (vector_handler v) (Some (interrupted_frame c (of_nat v) (vector_error v error))) k = Some (Returned k')"
    using v(1) k' by (simp add: handler_outcome_def vector_handler_def)
  have keep: "tables_loaded L k''"
    if "handler_outcome (vector_handler v) (Some (interrupted_frame c (of_nat v) (vector_error v error))) k = Some (Returned k'')" for k''
    using that tables(2) unfolding handler by simp
  from take_interrupt_runs [where error = error, OF tables(1) env v(2) keep] show ?thesis
    unfolding handler by auto
qed

text \<open>In a sound system it returns.\<close>

lemma hardware_interrupt_runs:
  assumes ok: "system_ok s" and tables: "tables_loaded L (sys_kernel s)"
    and env: "stubs_placed L" "abi_ok compiled" "in_kernel c" "60 \<le> unat (regs c ESP)"
    and v: "32 \<le> v" "v < 48"
  shows "\<exists>m k' s'. take_interrupt L compiled v error c ((sys_kernel s)\<lparr>reg_if := False, cpu_halted := False\<rparr>) =
       Some (Running (c\<lparr>cells := m\<rparr>) k') \<and> (\<forall>a \<ge> regs c ESP. m a = cells c a) \<and>
     interrupt_step s s' \<and> sys_kernel s' = k'\<lparr>reg_if := True\<rparr> \<and>
     sys_queued s' = sys_queued s @ typed_char (handler_of (k_interrupts (sys_kernel s)) (v - 32)) (sys_kernel s) \<and>
     tables_loaded L (sys_kernel s')"
proof -
  let ?k = "(sys_kernel s)\<lparr>reg_if := False, cpu_halted := False\<rparr>"
  let ?f = "interrupted_frame c (of_nat v) (vector_error v error)"
  note f = hardware_frame_built [OF v]
  from interrupt_returns [OF ok f(1)] obtain k' where k': "irq_handler (Some ?f) ?k = Some (Returned k')" by blast
  let ?s' = "s\<lparr>sys_kernel := k'\<lparr>reg_if := True\<rparr>,
      sys_queued := sys_queued s @ typed_char (handler_of (k_interrupts (sys_kernel s)) (frame_irq ?f)) (sys_kernel s)\<rparr>"
  have "reg_if (sys_kernel s)" using ok by (simp add: system_ok_def kernel_idle_ok_def)
  then have step: "interrupt_step s ?s'" using f(1) k' by (rule interrupt_step.interrupt)
  have after: "tables_loaded L (sys_kernel ?s')"
    using tables_loaded_const [OF interrupt_step_const [OF step ok]] tables by simp
  have "tables_loaded L ?k" "tables_loaded L k'" using tables after by simp_all
  from stub_runs_handler [OF this env v k'] obtain m where
    "take_interrupt L compiled v error c ?k = Some (Running (c\<lparr>cells := m\<rparr>) k')" "\<forall>a \<ge> regs c ESP. m a = cells c a" by blast
  then show ?thesis using step after f(2) by (intro exI [of _ m] exI [of _ k'] exI [of _ ?s']) simp
qed

lemma exception_runs:
  assumes con: "console_ok k" and tables: "tables_loaded L k"
    and env: "stubs_placed L" "abi_ok compiled" "in_kernel c" "60 \<le> unat (regs c ESP)" and v: "v < 32"
  shows "\<exists>k'. take_interrupt L compiled v error c k = Some (Stays k') \<and>
     stopped_after k (exception_text (interrupted_frame c (of_nat v) (vector_error v error)) @
       panic_text (Some ''Unhandled CPU exception'')) (Some (Stopped k'))"
proof -
  let ?f = "interrupted_frame c (of_nat v) (vector_error v error)"
  from isr_handler_spec [OF con, of ?f] obtain k1 where
    k1: "isr_handler (Some ?f) k = Some (Stopped (kernel_panic (Some ''Unhandled CPU exception'') k1))"
      "console_ok k1" "screen k1 = fold ts_putchar (exception_text ?f) (screen k)" "klog_frame k k1" by blast
  have handler: "handler_outcome (vector_handler v) (Some ?f) k = Some (Stopped (kernel_panic (Some ''Unhandled CPU exception'') k1))"
    using v k1(1) by (simp add: handler_outcome_def vector_handler_def)
  have v': "v < 48" using v by simp
  have keep: "tables_loaded L k''" if "handler_outcome (vector_handler v) (Some ?f) k = Some (Returned k'')" for k''
    using that handler by simp
  from take_interrupt_runs [where error = error, OF tables env v' keep]
  have "take_interrupt L compiled v error c k = Some (Stays (kernel_panic (Some ''Unhandled CPU exception'') k1))"
    unfolding handler by auto
  moreover have "stopped_after k (exception_text ?f @ panic_text (Some ''Unhandled CPU exception''))
      (Some (Stopped (kernel_panic (Some ''Unhandled CPU exception'') k1)))"
    by (rule panic_stops [OF k1(2,3)]) (use frame_kernel [OF k1(4)] in simp_all)
  ultimately show ?thesis by blast
qed

text \<open>The text an exception leaves names the vector and the processor's error code, or zero.\<close>

lemma exception_text_vector:
  "v < 48 \<Longrightarrow> exception_text (interrupted_frame c (of_nat v) e) =
     ''Exception vector: '' @ decimal_text v @ [CHR 0x0A] @ ''Exception error code: '' @ hex_text e @ [CHR 0x0A]"
  using interrupted_number [of v c e] by (simp add: exception_text_def) (simp add: interrupted_frame_def saved_frame_def)

text \<open>The configurations a boot reaches.\<close>

lemma reached:
  assumes "powered_on k" "layout_ok L" "pic_device chips (io_device k)"
    and "kernel_boot m L magic p k = Some (Returned k0)" "system_run (start k0) s"
  shows "system_ok s \<and> tables_loaded L (sys_kernel s) \<and> handler_of (k_interrupts (sys_kernel s)) = boot_handlers"
proof -
  from boot_returns [OF assms(1-4)] obtain mem st where b: "booted L mem st k0" by blast
  have const: "system_const k0 (sys_kernel s)"
    using system_run_const [OF assms(5) booted_start [OF b]] by (simp add: start_def)
  then have "handler_of (k_interrupts (sys_kernel s)) = boot_handlers" using b by (simp add: system_const_def booted_def)
  then show ?thesis
    using system_run_ok [OF assms(5) booted_start [OF b]] tables_loaded_const [OF const] booted_tables [OF b] by blast
qed

section \<open>Properties\<close>

text \<open>A kernel booted from the table of three entries, interrupted at its first instruction.\<close>

definition sample_cpu :: cpu where
  "sample_cpu = \<lparr>regs = (\<lambda>_. 0x210000), segs = (\<lambda>_. 0x10)(CS := 8), eip = 0x200000, eflags = 0x202, cells = (\<lambda>_. 0)\<rparr>"

lemma sample_cpu_ok: "in_kernel sample_cpu" "60 \<le> unat (regs sample_cpu ESP)"
  by (simp_all add: sample_cpu_def in_kernel_def)

lemma sample_stubs_placed: "stubs_placed sample_layout"
  by (simp add: stubs_placed_def stub_table_eq vector_address_def sample_layout_def upt_rec)

lemma identity_abi_ok: "abi_ok (\<lambda>k c. c)"
  by (simp add: abi_ok_def)

lemma sample_booted:
  "\<exists>k0 mem st. kernel_boot sample_phys sample_layout 0x2BADB002 0x1000 (kernel_static boot_device) = Some (Returned k0) \<and>
     booted sample_layout mem st k0"
proof -
  from sample_boot obtain mem where
    mem: "memory_initialize sample_phys 0x1000 memory_static = Some (KERNEL_STATUS_OK, mem)"
      "boot_status sample_phys sample_layout mem 0x1000 = KERNEL_STATUS_OK" by blast
  have dev: "pic_device bios_chips (io_device (kernel_static boot_device))" by (simp add: static_powered_on boot_device_pic)
  from boot_succeeds [OF static_powered_on(1) sample_layout_ok dev _ _ mem, of "0x2BADB002"] show ?thesis
    by (auto simp: MULTIBOOT_BOOTLOADER_MAGIC_def)
qed

text \<open>Between two calls of the shell no code can see a hardware interrupt.  In every configuration
  reachable from a boot that returned, whatever the registers, the flags and the stack of the processor are,
  an interrupt on any of the 16 lines goes through the loaded table to the stub of its vector, the
  stub hands \<open>irq_handler\<close> the frame of exactly this state with the number of the vector, the handler
  returns, and \<open>iret\<close> gives back every register, segment, flag and the instruction pointer, with no
  word of the stack at or above the interrupted stack pointer changed.  For the system it is
  exactly one interrupt step, run by the handler registered for the line.\<close>

theorem interrupts_are_transparent:
  assumes "powered_on k" "layout_ok L" "pic_device chips (io_device k)"
    and "kernel_boot m L magic p k = Some (Returned k0)" "system_run (start k0) s"
    and "stubs_placed L" "abi_ok compiled" "in_kernel c" "60 \<le> unat (regs c ESP)" "32 \<le> v" "v < 48"
  shows "\<exists>w k' s'. take_interrupt L compiled v error c ((sys_kernel s)\<lparr>reg_if := False, cpu_halted := False\<rparr>) =
       Some (Running (c\<lparr>cells := w\<rparr>) k') \<and> (\<forall>a \<ge> regs c ESP. w a = cells c a) \<and>
     interrupt_step s s' \<and> sys_kernel s' = k'\<lparr>reg_if := True\<rparr> \<and>
     sys_queued s' = sys_queued s @ typed_char (boot_handlers (v - 32)) (sys_kernel s) \<and>
     tables_loaded L (sys_kernel s')"
proof -
  from reached [OF assms(1-5)] have
    s: "system_ok s" "tables_loaded L (sys_kernel s)" "handler_of (k_interrupts (sys_kernel s)) = boot_handlers" by blast+
  show ?thesis by (rule hardware_interrupt_runs [OF s(1,2) assms(6-11), unfolded s(3)])
qed

lemma interrupts_are_transparent_witness:
  "\<exists>k0 w k'. kernel_boot sample_phys sample_layout 0x2BADB002 0x1000 (kernel_static boot_device) = Some (Returned k0) \<and>
     take_interrupt sample_layout (\<lambda>k c. c) 33 0 sample_cpu (k0\<lparr>reg_if := False, cpu_halted := False\<rparr>) =
       Some (Running (sample_cpu\<lparr>cells := w\<rparr>) k')"
proof -
  from sample_booted obtain k0 where
    k0: "kernel_boot sample_phys sample_layout 0x2BADB002 0x1000 (kernel_static boot_device) = Some (Returned k0)" by blast
  have dev: "pic_device bios_chips (io_device (kernel_static boot_device))" by (simp add: static_powered_on boot_device_pic)
  have "(32 :: nat) \<le> 33" "(33 :: nat) < 48" by simp_all
  from interrupts_are_transparent [where error = 0, OF static_powered_on(1) sample_layout_ok dev k0 run_start sample_stubs_placed
      identity_abi_ok sample_cpu_ok this] k0
  show ?thesis by (auto simp: start_def)
qed

text \<open>C24. Every processor exception stops the kernel and names itself.  Whatever the processor was doing on
  the kernel's segments, with the tables loaded, an exception of any vector below 32 ends in the
  panic of \<open>isr_handler\<close>, halted with interrupts off, and the screen shows the number of exactly this
  vector and the error code the processor pushed, or zero for a vector without one.\<close>

theorem exceptions_stop_visibly:
  assumes "console_ok k" "tables_loaded L k" "stubs_placed L" "abi_ok compiled"
    and "in_kernel c" "60 \<le> unat (regs c ESP)" "v < 32"
  shows "\<exists>k'. take_interrupt L compiled v error c k = Some (Stays k') \<and>
     stopped_after k
       (''Exception vector: '' @ decimal_text v @ [CHR 0x0A] @
        ''Exception error code: '' @ hex_text (if has_error_code v then error else 0) @ [CHR 0x0A] @
        panic_text (Some ''Unhandled CPU exception'')) (Some (Stopped k'))"
  using exception_runs [OF assms, of error] exception_text_vector [of v c "vector_error v error"] assms(7)
  by (simp add: vector_error_def)

lemma exceptions_stop_visibly_witness:
  "\<exists>k0 k'. kernel_boot sample_phys sample_layout 0x2BADB002 0x1000 (kernel_static boot_device) = Some (Returned k0) \<and>
     take_interrupt sample_layout (\<lambda>k c. c) 13 0x10 sample_cpu k0 = Some (Stays k') \<and> cpu_halted k'"
proof -
  from sample_booted obtain k0 mem st where
    k0: "kernel_boot sample_phys sample_layout 0x2BADB002 0x1000 (kernel_static boot_device) = Some (Returned k0)"
      "booted sample_layout mem st k0" by blast
  have con: "console_ok k0" using k0(2) by (simp add: booted_def kernel_idle_ok_def kernel_ok_def)
  have "(13 :: nat) < 32" by simp
  from exceptions_stop_visibly [where error = "0x10", OF con booted_tables [OF k0(2)] sample_stubs_placed identity_abi_ok sample_cpu_ok this]
    k0(1) show ?thesis by (auto simp: stopped_after_def)
qed

text \<open>C5. From the entry point to the loop.  The header is one a loader accepts.  A loader that jumps to
  \<open>_start\<close> with its magic number in \<open>EAX\<close>, the address of its information in \<open>EBX\<close> and anything in
  the other registers and on the stack makes \<open>kernel_main\<close> boot with exactly these two arguments; with a usable memory map the loop starts in a sound configuration with the
  tables loaded, and the code after the call is not reached.\<close>

theorem entry_reaches_the_loop:
  assumes "powered_on k" "layout_ok L" "pic_device chips (io_device k)"
    and "regs c EAX = MULTIBOOT_BOOTLOADER_MAGIC" "regs c EBX \<noteq> 0"
    and "memory_initialize m (regs c EBX) memory_static = Some (KERNEL_STATUS_OK, mem)"
    and "boot_status m L mem (regs c EBX) = KERNEL_STATUS_OK"
  shows "header_accepted multiboot_header \<and>
     (\<exists>k0 st. exec d (call_kernel_main m L) (start_code stack_top) c k = Some (Stays k0) \<and>
       kernel_boot m L MULTIBOOT_BOOTLOADER_MAGIC (regs c EBX) k = Some (Returned k0) \<and>
       booted L mem st k0 \<and> system_ok (start k0) \<and> tables_loaded L k0)"
proof -
  from boot_succeeds [OF assms] obtain k0 st where
    k0: "kernel_boot m L (regs c EAX) (regs c EBX) k = Some (Returned k0)" "booted L mem st k0" by blast
  have "exec d (call_kernel_main m L) (start_code stack_top) c k = Some (Stays k0)"
    unfolding start_code_calls k0(1) by (simp add: outcome_state_def)
  then show ?thesis
    using k0 booted_start [OF k0(2)] booted_tables [OF k0(2)] multiboot_header_ok(1) unfolding assms(4) by blast
qed

lemma entry_reaches_the_loop_witness:
  "\<exists>k0. exec (\<lambda>_ _. None) (call_kernel_main sample_phys sample_layout) (start_code 0x2B0000)
       (sample_cpu\<lparr>regs := (\<lambda>_. 0)(EAX := 0x2BADB002, EBX := 0x1000)\<rparr>) (kernel_static boot_device) = Some (Stays k0) \<and>
     system_ok (start k0)"
proof -
  from sample_boot obtain mem where
    mem: "memory_initialize sample_phys 0x1000 memory_static = Some (KERNEL_STATUS_OK, mem)"
      "boot_status sample_phys sample_layout mem 0x1000 = KERNEL_STATUS_OK" by blast
  have dev: "pic_device bios_chips (io_device (kernel_static boot_device))" by (simp add: static_powered_on boot_device_pic)
  show ?thesis
    using entry_reaches_the_loop [where c = "sample_cpu\<lparr>regs := (\<lambda>_. 0)(EAX := 0x2BADB002, EBX := 0x1000)\<rparr>"
        and m = sample_phys and mem = mem and d = "\<lambda>_ _. None" and stack_top = "0x2B0000", OF static_powered_on(1) sample_layout_ok dev] mem
    by (auto simp: MULTIBOOT_BOOTLOADER_MAGIC_def)
qed

text \<open>C37. The assembly that loads the tables does what the C code relies on.  Called with the address of the
  structure \<open>gdt_initialize\<close> or \<open>idt_initialize\<close> has filled, each helper ends, without a fault, in the
  machine state its C declaration stands for, and returns to its caller with only \<open>EAX\<close> used;
  after \<open>gdt_flush\<close> all six segment registers hold the kernel's selectors, each loaded from a
  descriptor of the new table that permits it.\<close>

theorem flushes_load_the_tables:
  fixes m :: "'a machine_scheme"
  assumes "alen (gdt_entries g) = 3" "gdt_initialize L g m = Some (g', m')" "pseudo (cells c (regs c ESP + 4)) = gdt_ptr g'"
    and "alen (idt_entries t) = 256" "idt_initialize L t n = Some (t', n')"
      "pseudo (cells b (regs b ESP + 4)) = idt_ptr t'"
  shows "(\<exists>c'. exec (\<lambda>m :: 'a machine_scheme. table_at L g' (reg_gdtr m)) (load_table pseudo) gdt_flush_code c m = Some (Running c' m') \<and>
       returned c c' \<and> in_kernel c') \<and>
     (\<exists>b'. exec d (load_table pseudo) idt_flush_code b n = Some (Running b' n') \<and> returned b b' \<and> segs b' = segs b)"
  by (rule tables_flushed [OF assms])

lemma flushes_load_the_tables_witness:
  "\<exists>g' m' pseudo c'. gdt_initialize sample_layout gdt_static bios_machine = Some (g', m') \<and>
     exec (\<lambda>m. table_at sample_layout g' (reg_gdtr m)) (load_table pseudo) gdt_flush_code sample_cpu bios_machine = Some (Running c' m')"
proof -
  have alen: "alen (gdt_entries gdt_static) = 3" "alen (idt_entries idt_static) = 256"
    by (simp_all add: gdt_static_def idt_static_def GDT_ENTRY_COUNT_def IDT_ENTRY_COUNT_def)
  from gdt_initialize_flat [OF alen(1)] obtain g' m' where
    g: "gdt_initialize sample_layout gdt_static bios_machine = Some (g', m')" by blast
  from idt_initialize_routed [OF alen(2)] obtain t' n' where
    t: "idt_initialize sample_layout idt_static bios_machine = Some (t', n')" by blast
  let ?b = "sample_cpu\<lparr>cells := \<lambda>_. 1\<rparr>"
  have "(if cells sample_cpu (regs sample_cpu ESP + 4) = 0 then gdt_ptr g' else idt_ptr t') = gdt_ptr g'"
    "(if cells ?b (regs ?b ESP + 4) = 0 then gdt_ptr g' else idt_ptr t') = idt_ptr t'"
    by (simp_all add: sample_cpu_def)
  note pseudo = this
  show ?thesis
    using flushes_load_the_tables [where pseudo = "\<lambda>a. if a = 0 then gdt_ptr g' else idt_ptr t'",
        OF alen(1) g pseudo(1) alen(2) t pseudo(2)] g
    by blast
qed

end
