(* ===== verification/Kernel_Session.thy ===== *)
theory Kernel_Session
  imports Session Entry
begin

text \<open>
  The sessions of a kernel that was booted: Session's system from the state in which \<open>kernel_main\<close>
  enters its loop.  What no step changes (frames, tables, paging, heap) is what the boot left, so
  the facts of Boot and Entry hold at every statement of every call.
\<close>

section \<open>Configurations of a booted kernel\<close>

lemma booted_session:
  assumes "powered_on k" "layout_ok L" "pic_device chips (io_device k)"
    and "kernel_boot m L magic p k = Some (Returned k0)" "session_run (begin_session k0) s"
  shows "session_ok k0 s" "system_const k0 (sys_kernel s)" "\<exists>mem st. booted L mem st k0"
proof -
  from boot_returns [OF assms(1-4)] show b: "\<exists>mem st. booted L mem st k0" by blast
  then have start: "system_ok (start k0)" using booted_start by blast
  show ok: "session_ok k0 s" by (rule session_from_start [OF assms(5) start])
  show "system_const k0 (sys_kernel s)" by (rule session_sound [OF ok])
qed

section \<open>Arrays and the variables that index them\<close>

text \<open>
  Every array has the length it is declared with, and every variable that indexes one or counts
  its elements is inside.
\<close>

definition kernel_typed :: "kernel \<Rightarrow> bool" where
  "kernel_typed k \<longleftrightarrow>
     alen (pmm_bitmap (k_pmm k)) = 32768 \<and> alen (pmm_allocated_bitmap (k_pmm k)) = 32768 \<and>
     unat (pmm_total_frames (k_pmm k)) \<le> 32 * 32768 \<and>
     alen (memory_regions (k_memory k)) = 32 \<and> unat (memory_region_count (k_memory k)) \<le> 32 \<and>
     alen (gdt_entries (k_gdt k)) = 3 \<and> alen (idt_entries (k_idt k)) = 256 \<and>
     alen (paging_directory (k_paging k)) = 1024 \<and> alen (paging_tables (k_paging k)) = 4 \<and>
     (\<forall>t < 4. alen (acell (paging_tables (k_paging k)) t) = 1024) \<and>
     alen (irq_handlers (k_interrupts k)) = 16 \<and> alen (irq_dispatch_counts (k_interrupts k)) = 16 \<and>
     alen (input_queue (k_input k)) = 64 \<and> queue_length (k_input k) \<le> 64 \<and>
     alen (shell_buffer (k_shell k)) = 64 \<and> unat (shell_buffer_length (k_shell k)) < 64 \<and>
     terminal_row k < 25 \<and> terminal_column k < 80 \<and> terminal_view_start k < 16384"

text \<open>Frames, map, tables and paging come from the boot; the rest every step keeps.\<close>

lemma booted_typed:
  assumes b: "booted L mem st k0" and const: "system_const k0 k"
    and k: "console_ok k" "input_ok (k_input k)" "interrupts_wf (k_interrupts k)" "shell_typed (k_shell k)"
  shows "kernel_typed k"
proof -
  have "pmm_running (k_pmm k)" and same: "k_memory k = k_memory k0" "k_gdt k = k_gdt k0" "k_idt k = k_idt k0" "k_paging k = k_paging k0"
    using const by (simp_all add: system_const_def same_frames_def)
  moreover have "memory_inv (k_memory k0)" "paging_wf (k_paging k0)" "flat_gdt (k_gdt k0)" "routed_idt L (k_idt k0)"
    using b unfolding booted_def kernel_idle_ok_def kernel_ok_def by blast+
  ultimately show ?thesis
    using k unfolding kernel_typed_def same
    by (simp add: pmm_running_def pmm_inv_def pmm_wf_def memory_inv_def flat_gdt_def routed_idt_def paging_wf_def
        console_ok_def vga_ok_def input_ok_def interrupts_wf_def shell_typed_def)
qed

section \<open>Properties\<close>

text \<open>C12. No array is ever the wrong size and no index variable ever out of range.  In every
  configuration reachable from a boot that returned, in the middle of an edit or a command as well
  as between two calls, both bitmaps, the region table, the descriptor tables, the page directory
  and tables, the handler and counter tables, the input queue and the shell's buffer have the
  lengths they are declared with, and the counts, the fill of the queue, the length of the line,
  the cursor and the start of the view stay inside them.\<close>

theorem kernel_stays_typed:
  assumes "powered_on k" "layout_ok L" "pic_device chips (io_device k)"
    and "kernel_boot m L magic p k = Some (Returned k0)" "session_run (begin_session k0) s"
  shows "kernel_typed (sys_kernel s)"
proof -
  note s = booted_session [OF assms]
  from s(3) obtain mem st where "booted L mem st k0" by blast
  from booted_typed [OF this s(2) session_parts [OF s(1)]] show ?thesis .
qed

lemma kernel_stays_typed_witness:
  "\<exists>k0. kernel_boot sample_phys sample_layout 0x2BADB002 0x1000 (kernel_static boot_device) = Some (Returned k0) \<and> kernel_typed k0"
proof -
  from sample_booted obtain k0 where
    k0: "kernel_boot sample_phys sample_layout 0x2BADB002 0x1000 (kernel_static boot_device) = Some (Returned k0)" by blast
  have dev: "pic_device bios_chips (io_device (kernel_static boot_device))" by (simp add: static_powered_on boot_device_pic)
  from kernel_stays_typed [OF static_powered_on(1) sample_layout_ok dev k0 session_start] k0
  show ?thesis by (auto simp: begin_session_def)
qed

lemma boot_handler_cases:
  "boot_handlers n = Some Pit_handle_interrupt \<longleftrightarrow> n = 0" "boot_handlers n = None \<longleftrightarrow> n \<noteq> 0 \<and> n \<noteq> 1"
  by (auto simp: boot_handlers_def)

text \<open>C11. The counters tell the truth.  After any run from a boot that returned, in which interrupts came
  on the lines \<open>ns\<close>, the tick counter is the number of timer interrupts modulo \<open>2 ^ 32\<close>; each line's
  counter is the number of its interrupts and the unhandled counter that of the interrupts on
  lines other than 0 and 1, both stopping at \<open>2 ^ 32 - 1\<close>; no interrupt was invalid and none is
  being handled.  These are the numbers the commands \<open>ticks\<close> and \<open>irq\<close> read.\<close>

theorem counters_are_exact:
  assumes "powered_on k" "layout_ok L" "pic_device chips (io_device k)"
    and "kernel_boot m L magic p k = Some (Returned k0)" "session_history (begin_session k0) ns s"
  shows "unat (ktime_get_ticks (k_pit (sys_kernel s))) = count_list ns 0 mod 2 ^ 32 \<and>
     (\<forall>i. unat i < 16 \<longrightarrow> (\<exists>c. interrupts_get_irq_count i (k_interrupts (sys_kernel s)) = Some c \<and>
        unat c = min (2 ^ 32 - 1) (count_list ns (unat i)))) \<and>
     unat (interrupts_get_unhandled_irq_count (k_interrupts (sys_kernel s))) =
       min (2 ^ 32 - 1) (length (filter (\<lambda>n. n \<noteq> 0 \<and> n \<noteq> 1) ns)) \<and>
     interrupts_get_invalid_irq_count (k_interrupts (sys_kernel s)) = 0 \<and>
     interrupts_get_context_depth (k_interrupts (sys_kernel s)) = 0"
proof -
  let ?k = "sys_kernel s"
  note s = booted_session [OF assms(1-4) history_run [OF assms(5)]]
  from s(3) obtain mem st where b: "booted L mem st k0" by blast
  then have k0: "handler_of (k_interrupts k0) = boot_handlers" "uncounted (k_interrupts k0)" "pit_ticks (k_pit k0) = 0"
    by (simp_all add: booted_def)
  have c: "counted ns k0 ?k" using session_counted [OF assms(5) booted_start [OF b]] by blast
  have zero: "count_list ns 0 = length (filter (\<lambda>n. n = 0) ns)" by (induction ns) auto
  have ticks: "unat (ktime_get_ticks (k_pit ?k)) = count_list ns 0 mod 2 ^ 32"
    using c k0 by (simp add: counted_def boot_handler_cases zero ktime_get_ticks_def pit_get_ticks_def unat_of_nat)
  have lines: "\<exists>c. interrupts_get_irq_count i (k_interrupts ?k) = Some c \<and> unat c = min (2 ^ 32 - 1) (count_list ns (unat i))"
    if "unat i < 16" for i
  proof -
    have "count_of (k_interrupts ?k) (unat i) = saturating (count_list ns (unat i))"
      using c k0(2) that by (simp add: counted_def uncounted_def)
    then show ?thesis using that session_parts(3) [OF s(1)]
      by (simp add: count_of_def saturating_def interrupts_get_irq_count_def irq_in_range interrupts_wf_def)
  qed
  have "unat (unhandled_irq_count (k_interrupts ?k)) = min (2 ^ 32 - 1) (length (filter (\<lambda>n. n \<noteq> 0 \<and> n \<noteq> 1) ns))"
    "invalid_irq_count (k_interrupts ?k) = 0"
    using c k0(1,2) by (simp_all add: counted_def uncounted_def saturating_def boot_handler_cases)
  then show ?thesis using ticks lines session_sound(2) [OF s(1)]
    by (simp add: interrupts_get_unhandled_irq_count_def interrupts_get_invalid_irq_count_def interrupts_get_context_depth_def)
qed

text \<open>One timer interrupt is one tick.\<close>

lemma counters_are_exact_witness:
  "\<exists>k0 s. kernel_boot sample_phys sample_layout 0x2BADB002 0x1000 (kernel_static boot_device) = Some (Returned k0) \<and>
     session_interrupt 0 (begin_session k0) s \<and> unat (ktime_get_ticks (k_pit (sys_kernel s))) = 1"
proof -
  from sample_booted obtain k0 where
    k0: "kernel_boot sample_phys sample_layout 0x2BADB002 0x1000 (kernel_static boot_device) = Some (Returned k0)" by blast
  have dev: "pic_device bios_chips (io_device (kernel_static boot_device))" by (simp add: static_powered_on boot_device_pic)
  have frame: "hardware_frame (sample_frame 32)" "frame_irq (sample_frame 32) = 0"
    by (simp_all add: hardware_frame_def sample_frame_def frame_irq_def)
  note ok = booted_session(1) [OF static_powered_on(1) sample_layout_ok dev k0 session_start]
  from session_interrupt_returns [OF ok frame(1)] obtain k' where
    "irq_handler (Some (sample_frame 32)) ((sys_kernel (begin_session k0))\<lparr>reg_if := False, cpu_halted := False\<rparr>) = Some (Returned k')"
    by blast
  from session_interrupt.interrupt [OF session_sound(1) [OF ok] frame(1) this, unfolded frame(2)] obtain s where
    s: "session_interrupt 0 (begin_session k0) s" by blast
  from counters_are_exact [OF static_powered_on(1) sample_layout_ok dev k0 history_interrupt [OF history_start s]] s k0
  show ?thesis by auto
qed

text \<open>C6. Hardware interrupts are invisible to the code they interrupt.  In every configuration reachable
  from a boot that returned, at any statement of the shell and whatever the registers, the flags
  and the stack of the processor are, an interrupt on any of the 16 lines goes through the loaded
  table to the stub of its vector, the frame it builds and the C handler it calls, and \<open>iret\<close> comes
  back with every register, segment, flag and word of the stack above the pointer as they were; the
  kernel has made exactly the interrupt's step, and its tables are still loaded.\<close>

theorem interrupts_are_transparent_anywhere:
  assumes "powered_on k" "layout_ok L" "pic_device chips (io_device k)"
    and "kernel_boot m L magic p k = Some (Returned k0)" "session_run (begin_session k0) s"
    and "stubs_placed L" "abi_ok compiled" "in_kernel c" "60 \<le> unat (regs c ESP)" "32 \<le> v" "v < 48"
  shows "\<exists>w k' s'. take_interrupt L compiled v error c ((sys_kernel s)\<lparr>reg_if := False, cpu_halted := False\<rparr>) =
       Some (Running (c\<lparr>cells := w\<rparr>) k') \<and> (\<forall>a \<ge> regs c ESP. w a = cells c a) \<and>
     session_interrupt (v - 32) s s' \<and> sys_kernel s' = k'\<lparr>reg_if := True\<rparr> \<and> ses_call s' = ses_call s \<and>
     sys_queued s' = sys_queued s @ typed_char (boot_handlers (v - 32)) (sys_kernel s) \<and>
     tables_loaded L (sys_kernel s')"
proof -
  note s = booted_session [OF assms(1-5)]
  from s(3) obtain mem st where b: "booted L mem st k0" by blast
  let ?k = "(sys_kernel s)\<lparr>reg_if := False, cpu_halted := False\<rparr>"
  let ?f = "interrupted_frame c (of_nat v) (vector_error v error)"
  note f = hardware_frame_built [OF assms(10,11), of c "vector_error v error"]
  have handlers: "handler_of (k_interrupts (sys_kernel s)) = boot_handlers" using b s(2) by (simp add: system_const_def booted_def)
  from session_interrupt_returns [OF s(1) f(1)] obtain k' where k': "irq_handler (Some ?f) ?k = Some (Returned k')" by blast
  let ?s' = "s\<lparr>sys_kernel := k'\<lparr>reg_if := True\<rparr>,
      sys_queued := sys_queued s @ typed_char (handler_of (k_interrupts (sys_kernel s)) (frame_irq ?f)) (sys_kernel s)\<rparr>"
  have step: "session_interrupt (v - 32) s ?s'"
    using session_interrupt.interrupt [OF session_sound(1) [OF s(1)] f(1) k'] unfolding f(2) .
  have "system_const k0 (sys_kernel ?s')" by (rule session_sound [OF session_interrupt_keeps [OF step s(1)]])
  then have after: "tables_loaded L (sys_kernel ?s')" using tables_loaded_const booted_tables [OF b] by blast
  have "tables_loaded L ?k" "tables_loaded L k'"
    using tables_loaded_const [OF s(2)] booted_tables [OF b] after by simp_all
  from stub_runs_handler [OF this assms(6-11) k'] obtain w where
    "take_interrupt L compiled v error c ?k = Some (Running (c\<lparr>cells := w\<rparr>) k')" "\<forall>a \<ge> regs c ESP. w a = cells c a" by blast
  then show ?thesis using step after f(2) handlers by (intro exI [of _ w] exI [of _ k'] exI [of _ ?s']) simp
qed

lemma interrupts_are_transparent_anywhere_witness:
  "\<exists>k0 w k'. kernel_boot sample_phys sample_layout 0x2BADB002 0x1000 (kernel_static boot_device) = Some (Returned k0) \<and>
     take_interrupt sample_layout (\<lambda>k c. c) 33 0 sample_cpu (k0\<lparr>reg_if := False, cpu_halted := False\<rparr>) =
       Some (Running (sample_cpu\<lparr>cells := w\<rparr>) k')"
proof -
  from sample_booted obtain k0 where
    k0: "kernel_boot sample_phys sample_layout 0x2BADB002 0x1000 (kernel_static boot_device) = Some (Returned k0)" by blast
  have dev: "pic_device bios_chips (io_device (kernel_static boot_device))" by (simp add: static_powered_on boot_device_pic)
  have "(32 :: nat) \<le> 33" "(33 :: nat) < 48" by simp_all
  from interrupts_are_transparent_anywhere [where error = 0, OF static_powered_on(1) sample_layout_ok dev k0 session_start
      sample_stubs_placed identity_abi_ok sample_cpu_ok this] k0
  show ?thesis by (auto simp: begin_session_def)
qed

text \<open>C16. Whatever is typed and wherever interrupts come, the running kernel never offers memory that is
  its own: in every configuration reachable from a boot that returned, no byte of a free or
  allocated frame lies in the heap region, the page directory, the page tables, the allocator's
  bitmaps or anywhere else in the kernel image, and the heap region keeps its bounds.\<close>

theorem frames_stay_apart:
  assumes "powered_on k" "layout_ok L" "pic_device chips (io_device k)"
    and "kernel_boot m L magic p k = Some (Returned k0)" "session_run (begin_session k0) s"
    and "f \<in> free_set (k_pmm (sys_kernel s)) \<union> alloc_set (k_pmm (sys_kernel s))"
    and "4096 * f \<le> b" "b < 4096 * f + 4096"
  shows "\<not> (unat (kernel_start_addr L) \<le> b \<and> b < unat (kernel_end_addr L)) \<and>
     \<not> (unat (heap_get_start_address (k_heap (sys_kernel s))) \<le> b \<and> b < unat (heap_get_end_address (k_heap (sys_kernel s)))) \<and>
     \<not> (unat (paging_directory_addr L) \<le> b \<and> b < unat (paging_directory_addr L) + 4096) \<and>
     \<not> (unat (paging_tables_addr L) \<le> b \<and> b < unat (paging_tables_addr L) + 16384) \<and>
     \<not> (unat (pmm_bitmap_addr L) \<le> b \<and> b < unat (pmm_bitmap_addr L) + 131072) \<and> 0x100000 \<le> b"
  by (rule booted_frames_apart [OF assms(1-4) booted_session(2) [OF assms(1-5)] assms(6-8)])

lemma frames_stay_apart_witness:
  "\<exists>k0. kernel_boot sample_phys sample_layout 0x2BADB002 0x1000 (kernel_static boot_device) = Some (Returned k0) \<and>
     (\<forall>f \<in> free_set (k_pmm k0). \<not> (0x200000 \<le> 4096 * f \<and> 4096 * f < 0x300000))"
proof -
  from sample_booted obtain k0 where
    k0: "kernel_boot sample_phys sample_layout 0x2BADB002 0x1000 (kernel_static boot_device) = Some (Returned k0)" by blast
  have dev: "pic_device bios_chips (io_device (kernel_static boot_device))" by (simp add: static_powered_on boot_device_pic)
  have "\<not> (0x200000 \<le> 4096 * f \<and> 4096 * f < 0x300000)" if "f \<in> free_set (k_pmm k0)" for f
    using frames_stay_apart [OF static_powered_on(1) sample_layout_ok dev k0 session_start, of f "4096 * f"] that
    by (simp add: begin_session_def sample_layout_def)
  then show ?thesis using k0 by blast
qed

text \<open>C8. From power-on to what the user sees.  With a Multiboot loader and a usable memory map the kernel
  boots, and whatever is typed afterwards, however interrupts fall, once the loop has come to rest
  the screen is the boot messages and the prompt followed by a transcript of exactly the characters
  the keyboard queued: the echo of each and the output of each command, in order, on a terminal
  that was clear before.\<close>

theorem power_on_to_screen:
  assumes "powered_on k" "layout_ok L" "pic_device chips (io_device k)"
    and "magic = MULTIBOOT_BOOTLOADER_MAGIC" "p \<noteq> 0"
    and "memory_initialize m p memory_static = Some (KERNEL_STATUS_OK, mem)"
    and "boot_status m L mem p = KERNEL_STATUS_OK"
  shows "\<exists>k0 st. kernel_boot m L magic p k = Some (Returned k0) \<and>
     pmm_initialize m L mem p pmm_static = Some (KERNEL_STATUS_OK, st) \<and>
     (\<forall>s. session_run (begin_session k0) s \<longrightarrow>
        (\<exists>n s' t. (session_foreground ^^ n) s s' \<and> cpu_halted (sys_kernel s') \<and> sys_handled s' = sys_queued s \<and>
           t \<in> transcript k0 [] (sys_queued s) \<and>
           screen (sys_kernel s') = fold ts_putchar (boot_text (serial_answers k) mem st @ t) boot_screen))"
proof -
  from boot_succeeds [OF assms] obtain k0 st where
    k0: "kernel_boot m L magic p k = Some (Returned k0)" "booted L mem st k0"
      "pmm_initialize m L mem p pmm_static = Some (KERNEL_STATUS_OK, st)"
      "screen k0 = fold ts_putchar (boot_text (serial_answers k) mem st) boot_screen" by blast
  have "\<exists>n s' t. (session_foreground ^^ n) s s' \<and> cpu_halted (sys_kernel s') \<and> sys_handled s' = sys_queued s \<and>
      t \<in> transcript k0 [] (sys_queued s) \<and>
      screen (sys_kernel s') = fold ts_putchar (boot_text (serial_answers k) mem st @ t) boot_screen"
    if "session_run (begin_session k0) s" for s
  proof -
    from session_at_rest [OF that booted_start [OF k0(2)]] obtain n s' t where
      "(session_foreground ^^ n) s s'" "cpu_halted (sys_kernel s')" "sys_handled s' = sys_queued s"
      "t \<in> transcript k0 [] (sys_queued s)" "screen (sys_kernel s') = fold ts_putchar t (screen k0)" by blast
    then show ?thesis using k0(4) by (intro exI [of _ n] exI [of _ s'] exI [of _ t]) simp
  qed
  then show ?thesis using k0(1,3) by blast
qed

lemma power_on_to_screen_witness:
  "\<exists>k0 n s' t. kernel_boot sample_phys sample_layout 0x2BADB002 0x1000 (kernel_static boot_device) = Some (Returned k0) \<and>
     (session_foreground ^^ n) (begin_session k0) s' \<and> cpu_halted (sys_kernel s') \<and>
     screen (sys_kernel s') = fold ts_putchar t boot_screen"
proof -
  from sample_boot obtain mem where
    mem: "memory_initialize sample_phys 0x1000 memory_static = Some (KERNEL_STATUS_OK, mem)"
      "boot_status sample_phys sample_layout mem 0x1000 = KERNEL_STATUS_OK" by blast
  have dev: "pic_device bios_chips (io_device (kernel_static boot_device))" by (simp add: static_powered_on boot_device_pic)
  have magic: "(0x2BADB002 :: u32) = MULTIBOOT_BOOTLOADER_MAGIC" "(0x1000 :: u32) \<noteq> 0"
    by (simp_all add: MULTIBOOT_BOOTLOADER_MAGIC_def)
  from power_on_to_screen [OF static_powered_on(1) sample_layout_ok dev magic mem] session_start show ?thesis by blast
qed

end
