(* ===== verification/Linker.thy ===== *)
theory Linker
  imports Layout
begin

text \<open>
  \<^verbatim>\<open>linker/kernel.ld\<close>: the symbols of the image as a function of the sizes of its sections, and
  that every image this script links has the layout the other theories rely on.
\<close>

section \<open>The script\<close>

text \<open>Input the script does not name, such as string literals, is counted with the section the linker
  puts it behind.\<close>

record section_sizes =
  text_bytes :: nat
  rodata_bytes :: nat
  data_bytes :: nat
  bss_bytes :: nat

text \<open>The \<open>ALIGN\<close> of the script.\<close>

definition align_to :: "nat \<Rightarrow> nat \<Rightarrow> nat" where
  "align_to n a = (a + n - 1) div n * n"

definition ld_kernel_start :: nat where
  "ld_kernel_start = 2 * 1024 * 1024"

definition text_start :: nat where
  "text_start = align_to 4096 ld_kernel_start"

definition rodata_start :: "section_sizes \<Rightarrow> nat" where
  "rodata_start sz = align_to 4096 (text_start + text_bytes sz)"

definition data_start :: "section_sizes \<Rightarrow> nat" where
  "data_start sz = align_to 4096 (rodata_start sz + rodata_bytes sz)"

definition bss_start :: "section_sizes \<Rightarrow> nat" where
  "bss_start sz = align_to 4096 (data_start sz + data_bytes sz)"

definition ld_heap_start :: "section_sizes \<Rightarrow> nat" where
  "ld_heap_start sz = align_to 4096 (bss_start sz + bss_bytes sz)"

definition ld_heap_end :: "section_sizes \<Rightarrow> nat" where
  "ld_heap_end sz = align_to 4096 (ld_heap_start sz + 256 * 1024)"

text \<open>The four symbols; where the linker puts objects inside a section is its own choice.\<close>

definition kernel_ld :: "section_sizes \<Rightarrow> layout \<Rightarrow> layout" where
  "kernel_ld sz L = L\<lparr>
     kernel_start_addr := of_nat ld_kernel_start,
     heap_start_addr := of_nat (ld_heap_start sz),
     heap_end_addr := of_nat (ld_heap_end sz),
     kernel_end_addr := of_nat (ld_heap_end sz)\<rparr>"

text \<open>A static object of \<open>n\<close> bytes in the section of uninitialized data.\<close>

definition in_bss :: "section_sizes \<Rightarrow> u32 \<Rightarrow> nat \<Rightarrow> bool" where
  "in_bss sz a n \<longleftrightarrow> bss_start sz \<le> unat a \<and> unat a + n \<le> bss_start sz + bss_bytes sz"

text \<open>The two bitmaps and the page tables, with the alignment their declarations ask for, apart from
  each other.\<close>

definition objects_placed :: "section_sizes \<Rightarrow> layout \<Rightarrow> bool" where
  "objects_placed sz L \<longleftrightarrow>
     in_bss sz (pmm_bitmap_addr L) 131072 \<and> in_bss sz (pmm_allocated_bitmap_addr L) 131072 \<and>
     in_bss sz (paging_directory_addr L) 4096 \<and> unat (paging_directory_addr L) mod 4096 = 0 \<and>
     in_bss sz (paging_tables_addr L) 16384 \<and> unat (paging_tables_addr L) mod 4096 = 0 \<and>
     (unat (paging_directory_addr L) + 4096 \<le> unat (paging_tables_addr L) \<or>
      unat (paging_tables_addr L) + 16384 \<le> unat (paging_directory_addr L))"

section \<open>What it promises\<close>

lemma align_to_page: "align_to 4096 a mod 4096 = 0" "a \<le> align_to 4096 a" "align_to 4096 a < a + 4096"
  unfolding align_to_def by simp linarith+

lemma align_to_same: "align_to 4096 (4096 * n) = 4096 * n"
proof -
  have "(4096 * n + 4096 - 1) div 4096 = n" by linarith
  then show ?thesis by (simp only: align_to_def mult.commute)
qed

lemma heap_end_eq: "ld_heap_end sz = ld_heap_start sz + 0x40000"
proof -
  obtain n where "ld_heap_start sz = 4096 * n"
    using that [of "(bss_start sz + bss_bytes sz + 4095) div 4096"] by (simp add: ld_heap_start_def align_to_def)
  moreover from this have "ld_heap_start sz + 256 * 1024 = 4096 * (n + 64)" by simp
  ultimately show ?thesis unfolding ld_heap_end_def using align_to_same [of "n + 64"] by simp
qed

lemma sections_ordered:
  "ld_kernel_start \<le> text_start" "text_start + text_bytes sz \<le> rodata_start sz"
  "rodata_start sz + rodata_bytes sz \<le> data_start sz" "data_start sz + data_bytes sz \<le> bss_start sz"
  "bss_start sz + bss_bytes sz \<le> ld_heap_start sz" "ld_heap_start sz mod 4096 = 0"
  unfolding text_start_def rodata_start_def data_start_def bss_start_def ld_heap_start_def
  by (rule align_to_page)+

lemma linked_symbols:
  assumes "ld_heap_end sz < 2 ^ 32"
  shows "unat (kernel_start_addr (kernel_ld sz L)) = 0x200000" "unat (heap_start_addr (kernel_ld sz L)) = ld_heap_start sz"
    "unat (heap_end_addr (kernel_ld sz L)) = ld_heap_end sz" "unat (kernel_end_addr (kernel_ld sz L)) = ld_heap_end sz"
proof -
  have unat: "unat (of_nat n :: u32) = n" if "n \<le> ld_heap_end sz" for n
    using assms that by (simp add: unat_of_nat)
  show "unat (kernel_start_addr (kernel_ld sz L)) = 0x200000" by (simp add: kernel_ld_def ld_kernel_start_def)
  show "unat (heap_start_addr (kernel_ld sz L)) = ld_heap_start sz"
    using unat [of "ld_heap_start sz"] heap_end_eq [of sz] by (simp add: kernel_ld_def)
  show "unat (heap_end_addr (kernel_ld sz L)) = ld_heap_end sz" "unat (kernel_end_addr (kernel_ld sz L)) = ld_heap_end sz"
    using unat [of "ld_heap_end sz"] by (simp_all add: kernel_ld_def)
qed

lemma in_bss_in_image:
  assumes "ld_heap_end sz < 2 ^ 32" "in_bss sz a n"
  shows "in_image (kernel_ld sz L) a n"
  using assms(2) sections_ordered(1) sections_ordered(2-5) [of sz] heap_end_eq [of sz]
  by (simp add: in_image_def in_bss_def linked_symbols [OF assms(1)] ld_kernel_start_def)

lemma linked_layout:
  assumes "ld_heap_end sz < 2 ^ 32" "objects_placed sz L"
  shows "layout_ok (kernel_ld sz L)"
proof -
  have "in_bss sz (paging_tables_addr L) 16384" using assms(2) by (simp add: objects_placed_def)
  then have "0x200000 < ld_heap_start sz"
    using sections_ordered(1) sections_ordered(2-5) [of sz] by (simp add: in_bss_def ld_kernel_start_def)
  moreover have "kernel_start_addr (kernel_ld sz L) = 0x200000" "heap_end_addr (kernel_ld sz L) = kernel_end_addr (kernel_ld sz L)"
    by (simp_all add: kernel_ld_def ld_kernel_start_def)
  moreover have "in_image (kernel_ld sz L) (pmm_bitmap_addr L) 131072" "in_image (kernel_ld sz L) (pmm_allocated_bitmap_addr L) 131072"
    "in_image (kernel_ld sz L) (paging_directory_addr L) 4096" "in_image (kernel_ld sz L) (paging_tables_addr L) 16384"
    using assms(2) by (auto simp: objects_placed_def intro: in_bss_in_image [OF assms(1)])
  moreover have "pmm_bitmap_addr (kernel_ld sz L) = pmm_bitmap_addr L" "pmm_allocated_bitmap_addr (kernel_ld sz L) = pmm_allocated_bitmap_addr L"
    "paging_directory_addr (kernel_ld sz L) = paging_directory_addr L" "paging_tables_addr (kernel_ld sz L) = paging_tables_addr L"
    by (simp_all add: kernel_ld_def)
  ultimately show ?thesis
    using assms(2) linked_symbols [OF assms(1), of L] heap_end_eq [of sz] sections_ordered(6) [of sz]
    by (simp add: layout_ok_def objects_placed_def)
qed

section \<open>Properties\<close>

text \<open>C38. Every image the linker script produces has the layout the kernel relies on, whatever the sizes of
  its sections are, as long as the image ends within the 32-bit address space: it starts at 2 MiB;
  the sections follow in order without overlap, each on a page boundary; the heap region is page
  aligned, exactly 256 KiB long, behind every section and the end of the image; and the
  allocator's bitmaps and the page tables, being uninitialized data, lie inside it.\<close>

theorem linked_image_layout:
  assumes "ld_heap_end sz < 2 ^ 32" "objects_placed sz L"
  shows "layout_ok (kernel_ld sz L) \<and>
     unat (kernel_start_addr (kernel_ld sz L)) \<le> text_start \<and> text_start + text_bytes sz \<le> rodata_start sz \<and>
     rodata_start sz + rodata_bytes sz \<le> data_start sz \<and> data_start sz + data_bytes sz \<le> bss_start sz \<and>
     bss_start sz + bss_bytes sz \<le> unat (heap_start_addr (kernel_ld sz L)) \<and>
     unat (heap_end_addr (kernel_ld sz L)) - unat (heap_start_addr (kernel_ld sz L)) = 256 * 1024"
  using linked_layout [OF assms] sections_ordered(1) sections_ordered(2-5) [of sz] linked_symbols [OF assms(1), of L] heap_end_eq [of sz]
  by (simp add: ld_kernel_start_def)

text \<open>Sections that give the sample layout.\<close>

definition sample_sections :: section_sizes where
  "sample_sections = \<lparr>text_bytes = 0x10123, rodata_bytes = 0x2345, data_bytes = 0x100, bss_bytes = 0xAB000\<rparr>"

lemma linked_image_layout_witness:
  "layout_ok (kernel_ld sample_sections sample_layout) \<and> heap_start_addr (kernel_ld sample_sections sample_layout) = 0x2C0000"
proof -
  have starts: "bss_start sample_sections = 0x215000" "ld_heap_start sample_sections = 0x2C0000" "ld_heap_end sample_sections = 0x300000"
    by (simp_all add: ld_heap_end_def ld_heap_start_def bss_start_def data_start_def rodata_start_def text_start_def
        ld_kernel_start_def align_to_def sample_sections_def)
  have "objects_placed sample_sections sample_layout"
    by (simp add: objects_placed_def in_bss_def starts) (simp add: sample_sections_def sample_layout_def)
  with starts linked_image_layout [of sample_sections sample_layout] show ?thesis
    by (simp add: kernel_ld_def)
qed

end
