(* ===== verification/Serial_Preemption.thy ===== *)
theory Serial_Preemption
  imports Pit
begin

text \<open>
  The serial port under preemption.  The foreground sends text with interrupts on, and the timer
  interrupt sends its heartbeat through the same port.  Here a transfer of \<^verbatim>\<open>drivers/serial.c\<close> is its
  single port accesses, and the timer interrupt may come between any two of them: nothing is lost
  while the port answers, but the guard of a byte is.
\<close>

section \<open>A transfer, access by access\<close>

datatype phase = Byte_start | Waiting u32 | Sending | Timed_out

record transfer =
  tr_phase :: phase
  tr_left :: "u8 list"
  tr_pit :: pit
  tr_serial :: serial

text \<open>
  \<open>serial_putchar\<close> on the bytes that are left.  A byte is dropped when the port is off, waits for the
  transmitter, and is written; the wait that runs out turns the port off, in a step after its last
  read.  The last rule is the interrupt.
\<close>

inductive transfer_step :: "transfer \<Rightarrow> transfer \<Rightarrow> bool" where
  skip: "tr_phase x = Byte_start \<Longrightarrow> tr_left x = v # vs \<Longrightarrow> \<not> serial_initialized (tr_serial x) \<Longrightarrow>
    transfer_step x (x\<lparr>tr_left := vs\<rparr>)"
| begin_wait: "tr_phase x = Byte_start \<Longrightarrow> tr_left x = v # vs \<Longrightarrow> serial_initialized (tr_serial x) \<Longrightarrow>
    transfer_step x (x\<lparr>tr_phase := Waiting SERIAL_TRANSMIT_TIMEOUT\<rparr>)"
| ready: "tr_phase x = Waiting n \<Longrightarrow> serial_can_transmit (tr_serial x) = (True, s) \<Longrightarrow>
    transfer_step x (x\<lparr>tr_phase := Sending, tr_serial := s\<rparr>)"
| busy: "tr_phase x = Waiting n \<Longrightarrow> serial_can_transmit (tr_serial x) = (False, s) \<Longrightarrow> n \<noteq> 0 \<Longrightarrow>
    transfer_step x (x\<lparr>tr_phase := Waiting (n - 1), tr_serial := s\<rparr>)"
| timeout: "tr_phase x = Waiting n \<Longrightarrow> serial_can_transmit (tr_serial x) = (False, s) \<Longrightarrow> n = 0 \<Longrightarrow>
    transfer_step x (x\<lparr>tr_phase := Timed_out, tr_serial := s\<rparr>)"
| give_up: "tr_phase x = Timed_out \<Longrightarrow> tr_left x = v # vs \<Longrightarrow>
    transfer_step x (x\<lparr>tr_phase := Byte_start, tr_left := vs, tr_serial := (tr_serial x)\<lparr>serial_initialized := False\<rparr>\<rparr>)"
| send: "tr_phase x = Sending \<Longrightarrow> tr_left x = v # vs \<Longrightarrow>
    transfer_step x (x\<lparr>tr_phase := Byte_start, tr_left := vs, tr_serial := outb SERIAL_PORT_COM1 v (tr_serial x)\<rparr>)"
| tick: "pit_handle_interrupt (tr_pit x) (tr_serial x) = (t, s) \<Longrightarrow>
    transfer_step x (x\<lparr>tr_pit := t, tr_serial := s\<rparr>)"

inductive_cases transfer_stepE: "transfer_step x y"

definition transfer_start :: "u8 list \<Rightarrow> pit \<Rightarrow> serial \<Rightarrow> transfer" where
  "transfer_start vs t s = \<lparr>tr_phase = Byte_start, tr_left = vs, tr_pit = t, tr_serial = s\<rparr>"

abbreviation transfers :: "transfer \<Rightarrow> transfer \<Rightarrow> bool" where
  "transfers \<equiv> transfer_step\<^sup>*\<^sup>*"

section \<open>Alone it is the function of the source\<close>

lemma wait_alone:
  "serial_wait_loop n s = (b, s') \<Longrightarrow>
     transfers \<lparr>tr_phase = Waiting n, tr_left = v # vs, tr_pit = t, tr_serial = s\<rparr>
       (if b then \<lparr>tr_phase = Sending, tr_left = v # vs, tr_pit = t, tr_serial = s'\<rparr>
        else transfer_start vs t (s'\<lparr>serial_initialized := False\<rparr>))"
proof (induction n s rule: serial_wait_loop.induct)
  case (1 n s)
  obtain r s1 where r: "serial_can_transmit s = (r, s1)" by (cases "serial_can_transmit s")
  let ?x = "\<lparr>tr_phase = Waiting n, tr_left = v # vs, tr_pit = t, tr_serial = s\<rparr>"
  consider (ready) r | (timeout) "\<not> r" "n = 0" | (busy) "\<not> r" "n \<noteq> 0" by blast
  then show ?case
  proof cases
    case ready
    then have "b" "s' = s1" using 1(2) r by (simp_all add: serial_wait_loop.simps [of n s])
    then show ?thesis using transfer_step.ready [of ?x n s1] r ready by (auto intro: r_into_rtranclp)
  next
    case timeout
    then have "\<not> b" "s' = s1" using 1(2) r by (simp_all add: serial_wait_loop.simps [of 0 s])
    let ?y = "\<lparr>tr_phase = Timed_out, tr_left = v # vs, tr_pit = t, tr_serial = s1\<rparr>"
    have "transfer_step ?x ?y" "transfer_step ?y (transfer_start vs t (s1\<lparr>serial_initialized := False\<rparr>))"
      using transfer_step.timeout [of ?x n s1] transfer_step.give_up [of ?y v vs] r timeout
      by (simp_all add: transfer_start_def)
    then show ?thesis using \<open>\<not> b\<close> \<open>s' = s1\<close> by (auto intro: converse_rtranclp_into_rtranclp)
  next
    case busy
    then have "serial_wait_loop (n - 1) s1 = (b, s')" using 1(2) r by (simp add: serial_wait_loop.simps [of n s])
    note rest = 1(1) [OF r [symmetric] refl _ _ this]
    show ?thesis using rest transfer_step.busy [of ?x n s1] r busy by (auto intro: converse_rtranclp_into_rtranclp)
  qed
qed

lemma byte_alone:
  assumes "serial_initialized s"
  shows "transfers (transfer_start (v # vs) t s) (transfer_start vs t
     (let (ready, s2) = serial_wait_can_transmit s in
      if \<not> ready then s2\<lparr>serial_initialized := False\<rparr> else outb SERIAL_PORT_COM1 v s2))"
proof -
  obtain b s' where w: "serial_wait_can_transmit s = (b, s')" by (cases "serial_wait_can_transmit s")
  have 1: "transfer_step (transfer_start (v # vs) t s)
      \<lparr>tr_phase = Waiting SERIAL_TRANSMIT_TIMEOUT, tr_left = v # vs, tr_pit = t, tr_serial = s\<rparr>"
    using transfer_step.begin_wait [of "transfer_start (v # vs) t s" v vs] assms by (simp add: transfer_start_def)
  note 2 = wait_alone [OF w [unfolded serial_wait_can_transmit_def], of v vs t]
  show ?thesis
  proof (cases b)
    case True
    have "transfer_step \<lparr>tr_phase = Sending, tr_left = v # vs, tr_pit = t, tr_serial = s'\<rparr> (transfer_start vs t (outb SERIAL_PORT_COM1 v s'))"
      using transfer_step.send [of "\<lparr>tr_phase = Sending, tr_left = v # vs, tr_pit = t, tr_serial = s'\<rparr>" v vs]
      by (simp add: transfer_start_def)
    then show ?thesis using 1 2 True w by (auto intro: converse_rtranclp_into_rtranclp rtranclp.rtrancl_into_rtrancl)
  next
    case False
    then show ?thesis using 1 2 w by (auto intro: converse_rtranclp_into_rtranclp)
  qed
qed

lemma skip_alone: "\<not> serial_initialized s \<Longrightarrow> transfers (transfer_start (us @ vs) t s) (transfer_start vs t s)"
proof (induction us)
  case (Cons u us)
  then show ?case using transfer_step.skip [of "transfer_start (u # us @ vs) t s" u "us @ vs"]
    by (auto simp: transfer_start_def intro: converse_rtranclp_into_rtranclp)
qed simp

lemma putchar_alone: "transfers (transfer_start (crlf c @ vs) t s) (transfer_start vs t (serial_putchar c s))"
proof -
  have one: "transfers (transfer_start (of_char c # vs) t s) (transfer_start vs t (serial_putchar c s))"
    if "serial_initialized s" "c \<noteq> CHR 0x0A" for c vs s
    using byte_alone [OF that(1), of "of_char c" vs t] that by (simp add: serial_putchar.simps [of c s])
  consider (off) "\<not> serial_initialized s" | (plain) "serial_initialized s" "c \<noteq> CHR 0x0A"
    | (newline) "serial_initialized s" "c = CHR 0x0A" by blast
  then show ?thesis
  proof cases
    case off
    then show ?thesis using skip_alone [of s "crlf c" vs t] by (simp add: serial_putchar.simps [of c s])
  next
    case plain
    then show ?thesis using one [of s c vs] by (simp add: crlf_def)
  next
    case newline
    let ?s1 = "serial_putchar CHR 0x0D s"
    have nl: "serial_putchar c s = (if \<not> serial_initialized ?s1 then ?s1 else
        let (ready, s2) = serial_wait_can_transmit ?s1 in
        if \<not> ready then s2\<lparr>serial_initialized := False\<rparr> else outb SERIAL_PORT_COM1 (of_char c) s2)"
      unfolding serial_putchar.simps [of c s] using newline by simp
    have bytes: "crlf c = [of_char CHR 0x0D, of_char c]" using newline by (simp add: crlf_def)
    have cr: "transfers (transfer_start (crlf c @ vs) t s) (transfer_start ([of_char c] @ vs) t ?s1)"
      using one [of s "CHR 0x0D" "of_char c # vs"] newline(1) unfolding bytes by simp
    have "transfers (transfer_start ([of_char c] @ vs) t ?s1) (transfer_start vs t (serial_putchar c s))"
    proof (cases "serial_initialized ?s1")
      case True
      from byte_alone [OF True, of "of_char c" vs t] show ?thesis using True by (simp add: nl)
    next
      case False
      from skip_alone [OF False, of "[of_char c]" vs t] show ?thesis using False by (simp add: nl)
    qed
    then show ?thesis using cr by (rule rtranclp_trans [rotated])
  qed
qed

lemma text_alone: "transfers (transfer_start (concat (map crlf (c_text u))) t s) (transfer_start [] t (serial_writestring u s))"
proof -
  have "transfers (transfer_start (concat (map crlf w)) t s) (transfer_start [] t (fold serial_putchar w s))" for w s
  proof (induction w arbitrary: s)
    case (Cons c w)
    then show ?case using putchar_alone [of c "concat (map crlf w)" t s] by (auto intro: rtranclp_trans)
  qed simp
  then show ?thesis by (simp add: serial_writestring_eq_fold)
qed

section \<open>With the interrupt\<close>

text \<open>What the first \<open>n\<close> interrupts after the count \<open>t\<close> send.\<close>

definition beats :: "u32 \<Rightarrow> nat \<Rightarrow> u8 list" where
  "beats t n = concat (map (\<lambda>i. concat (map crlf (heartbeat (t + of_nat i + 1)))) [0..<n])"

lemma beats_Suc: "beats t (Suc n) = beats t n @ concat (map crlf (heartbeat (t + of_nat n + 1)))"
  by (simp add: beats_def)

lemma snoc_in_shuffles: "ys @ [x] \<in> shuffles [x] ys"
  by (induction ys) (auto simp: Cons_in_shuffles_iff)

lemma shuffles_snoc1: "zs \<in> shuffles xs ys \<Longrightarrow> zs @ [x] \<in> shuffles (xs @ [x]) ys"
proof (induction xs ys arbitrary: zs rule: shuffles.induct)
  case (3 a xs b ys)
  then show ?case by (auto simp: Cons_in_shuffles_iff)
qed (auto simp: Cons_in_shuffles_iff snoc_in_shuffles)

lemma shuffles_snoc2: "zs \<in> shuffles xs ys \<Longrightarrow> zs @ us \<in> shuffles xs (ys @ us)"
proof (induction us arbitrary: zs ys)
  case (Cons u us)
  have "zs @ [u] \<in> shuffles xs (ys @ [u])"
    using shuffles_snoc1 [of zs ys xs u] Cons.prems by (simp add: shuffles_commutes)
  from Cons.IH [OF this] show ?case by simp
qed simp

lemma tick_sends:
  assumes "serial_ok s"
  shows "serial_ok (snd (pit_handle_interrupt t s)) \<and>
     serial_sent (snd (pit_handle_interrupt t s)) = serial_sent s @ concat (map crlf (heartbeat (pit_ticks t + 1))) \<and>
     fst (pit_handle_interrupt t s) = t\<lparr>pit_ticks := pit_ticks t + 1\<rparr>"
  using pit_tick_counts [OF assms, of t] handle_interrupt_eq(2) [of t s] by simp

definition transfer_inv :: "u8 list \<Rightarrow> u8 list \<Rightarrow> u32 \<Rightarrow> transfer \<Rightarrow> bool" where
  "transfer_inv sent vs t0 x \<longleftrightarrow> serial_ok (tr_serial x) \<and> (tr_phase x \<noteq> Byte_start \<longrightarrow> tr_left x \<noteq> []) \<and>
     tr_phase x \<noteq> Timed_out \<and> (\<exists>n us zs. vs = us @ tr_left x \<and> pit_ticks (tr_pit x) = t0 + of_nat n \<and>
        serial_sent (tr_serial x) = sent @ zs \<and> zs \<in> shuffles us (beats t0 n))"

lemma can_transmit_ok:
  assumes "serial_ok s" "serial_can_transmit s = (r, s')"
  shows "r \<and> serial_ok s' \<and> serial_sent s' = serial_sent s"
  using assms by (auto simp: can_transmit_eq Let_def serial_ok_def uart_ready_def serial_effect_def serial_sent_def)

lemma transfer_step_inv:
  assumes "transfer_step x y" "transfer_inv sent vs t0 x"
  shows "transfer_inv sent vs t0 y"
proof -
  from assms(2) obtain n us zs where
    ok: "serial_ok (tr_serial x)" "tr_phase x \<noteq> Byte_start \<longrightarrow> tr_left x \<noteq> []" "tr_phase x \<noteq> Timed_out" and
    x: "vs = us @ tr_left x" "pit_ticks (tr_pit x) = t0 + of_nat n" "serial_sent (tr_serial x) = sent @ zs" "zs \<in> shuffles us (beats t0 n)"
    unfolding transfer_inv_def by blast
  show ?thesis
    using assms(1)
  proof (cases rule: transfer_stepE [consumes 1, case_names skip begin_wait ready busy timeout give_up send tick])
    case (skip v vs')
    then show ?thesis using ok by (simp add: serial_ok_def)
  next
    case (begin_wait v vs')
    then show ?thesis using ok x by (auto simp: transfer_inv_def)
  next
    case (ready n s)
    then show ?thesis using ok x can_transmit_ok [OF ok(1) ready(3)] by (auto simp: transfer_inv_def)
  next
    case (busy n s)
    then show ?thesis using can_transmit_ok [OF ok(1) busy(3)] by simp
  next
    case (timeout s)
    then show ?thesis using can_transmit_ok [OF ok(1)] by fastforce
  next
    case (give_up v vs')
    then show ?thesis using ok(3) by simp
  next
    case (send v vs')
    have "serial_ok (tr_serial y)" "serial_sent (tr_serial y) = sent @ (zs @ [v])" "vs = (us @ [v]) @ tr_left y"
      using ok x send by (simp_all add: serial_ok_def outb_def serial_sent_def SERIAL_PORT_COM1_def)
    moreover have "zs @ [v] \<in> shuffles (us @ [v]) (beats t0 n)" by (rule shuffles_snoc1 [OF x(4)])
    ultimately show ?thesis using x(2) send(1) unfolding transfer_inv_def
      by (intro conjI exI [of _ n] exI [of _ "us @ [v]"] exI [of _ "zs @ [v]"]) simp_all
  next
    case (tick t s)
    have t: "serial_ok s" "serial_sent s = sent @ (zs @ concat (map crlf (heartbeat (t0 + of_nat n + 1))))"
      "pit_ticks t = t0 + of_nat (Suc n)"
      using tick_sends [OF ok(1), of "tr_pit x"] x(2,3) tick(2) by simp_all
    moreover have "zs @ concat (map crlf (heartbeat (t0 + of_nat n + 1))) \<in> shuffles us (beats t0 (Suc n))"
      unfolding beats_Suc by (rule shuffles_snoc2 [OF x(4)])
    ultimately show ?thesis using ok(2,3) x(1) unfolding tick(1) transfer_inv_def
      by (intro conjI exI [of _ "Suc n"] exI [of _ us] exI [of _ "zs @ concat (map crlf (heartbeat (t0 + of_nat n + 1)))"]) simp_all
  qed
qed

lemma transfers_inv: "transfers x y \<Longrightarrow> transfer_inv sent vs t0 x \<Longrightarrow> transfer_inv sent vs t0 y"
  by (induction rule: rtranclp_induct) (auto intro: transfer_step_inv)

text \<open>The last access of the heartbeat is its last byte.\<close>

lemma newline_last:
  assumes "serial_ok s"
  shows "\<exists>l. io_log (serial_putchar CHR 0x0A s) = Out 0x3F8 0x0A # l"
proof -
  let ?s1 = "serial_putchar CHR 0x0D s"
  have ok: "serial_ok ?s1" "serial_initialized s" using serial_line.putc [OF assms, of "CHR 0x0D"] assms by (simp_all add: serial_ok_def)
  then have "fst (serial_wait_can_transmit ?s1)" by (intro wait_ready) (simp add: serial_ok_def)
  then have "serial_putchar CHR 0x0A s = outb SERIAL_PORT_COM1 0x0A (snd (serial_wait_can_transmit ?s1))"
    using ok unfolding serial_putchar.simps [of "CHR 0x0A" s]
    by (auto simp: serial_ok_def case_prod_beta Let_def)
  then show ?thesis by (simp add: SERIAL_PORT_COM1_def)
qed

lemma line_last:
  assumes "serial_ok s" "NUL \<notin> set u"
  shows "\<exists>l. io_log (serial_writestring (u @ [CHR 0x0A]) s) = Out 0x3F8 0x0A # l"
proof -
  have "c_text (u @ [CHR 0x0A]) = u @ [CHR 0x0A]" using assms(2) by (intro c_text_no_NUL) simp
  then have "serial_writestring (u @ [CHR 0x0A]) s = serial_putchar (CHR 0x0A) (fold serial_putchar u s)"
    by (simp add: serial_writestring_eq_fold)
  then show ?thesis using newline_last [of "fold serial_putchar u s"] serial_line.put_all [OF assms(1), of u] by simp
qed

lemma heartbeat_last:
  assumes "serial_ok s" "(pit_ticks t + 1) mod 100 = 0"
  shows "\<exists>l. io_log (snd (pit_handle_interrupt t s)) = Out 0x3F8 0x0A # l"
proof -
  let ?s1 = "serial_writestring ''[wigOSX] PIT tick: '' s"
  have "serial_ok ?s1" using serial_line.puts [OF assms(1)] by blast
  from line_last [OF this, of "''100''"] line_last [OF this, of "''200''"] line_last [OF this, of "''300''"]
    line_last [OF this, of "''another second passed''"] assms(2) show ?thesis
    by (simp add: pit_handle_interrupt_def Let_def)
qed

text \<open>A byte whose guard the interrupt has used up.\<close>

lemma unguarded_byte:
  assumes ok: "serial_ok s" and t: "(pit_ticks t + 1) mod 100 = 0"
  shows "\<exists>x l. transfers (transfer_start (v # vs) t s) x \<and> tr_left x = vs \<and>
     io_log (tr_serial x) = Out 0x3F8 v # Out 0x3F8 0x0A # l"
proof -
  obtain r s1 where r: "serial_can_transmit s = (r, s1)" by (cases "serial_can_transmit s")
  have s1: "r" "serial_ok s1" using can_transmit_ok [OF ok r] by blast+
  obtain t2 s2 where p: "pit_handle_interrupt t s1 = (t2, s2)" by (cases "pit_handle_interrupt t s1")
  from heartbeat_last [OF s1(2) t] p obtain l where l: "io_log s2 = Out 0x3F8 0x0A # l" by auto
  let ?a = "\<lparr>tr_phase = Waiting SERIAL_TRANSMIT_TIMEOUT, tr_left = v # vs, tr_pit = t, tr_serial = s\<rparr>"
  let ?b = "\<lparr>tr_phase = Sending, tr_left = v # vs, tr_pit = t, tr_serial = s1\<rparr>"
  let ?c = "\<lparr>tr_phase = Sending, tr_left = v # vs, tr_pit = t2, tr_serial = s2\<rparr>"
  let ?d = "\<lparr>tr_phase = Byte_start, tr_left = vs, tr_pit = t2, tr_serial = outb SERIAL_PORT_COM1 v s2\<rparr>"
  have "transfer_step (transfer_start (v # vs) t s) ?a" "transfer_step ?a ?b" "transfer_step ?b ?c" "transfer_step ?c ?d"
    using transfer_step.begin_wait [of "transfer_start (v # vs) t s" v vs] transfer_step.ready [of ?a _ s1]
      transfer_step.tick [of ?b t2 s2] transfer_step.send [of ?c v vs] ok r s1(1) p
    by (simp_all add: transfer_start_def serial_ok_def)
  note steps = this
  have "transfers (transfer_start (v # vs) t s) ?d"
    using r_into_rtranclp [where r = transfer_step, OF steps(4)] steps(1-3)
    by (iprover intro: converse_rtranclp_into_rtranclp)
  then show ?thesis using l by (intro exI [of _ ?d] exI [of _ l]) (simp add: SERIAL_PORT_COM1_def)
qed

section \<open>Properties\<close>

text \<open>C31. The serial port is shared with the timer interrupt without a lock.  A transfer, as single accesses,
  is what \<open>serial_writestring\<close> does when no interrupt comes.  With any number of timer interrupts
  between any two accesses and a port that answers, no byte is lost, repeated or reordered: the line carries the
  bytes sent so far and the heartbeats, each in their order, one merged into the other.  But the guard
  of a byte is not kept: on every hundredth tick the heartbeat can come between the read that finds the
  transmitter empty and the write it allows, and the byte follows the heartbeat's last byte directly,
  with no read in between.\<close>

theorem serial_transfer_preempted:
  assumes "serial_ok s"
  shows "transfers (transfer_start (concat (map crlf (c_text u))) t s) (transfer_start [] t (serial_writestring u s)) \<and>
     (\<forall>x. transfers (transfer_start vs t s) x \<longrightarrow>
        (\<exists>n us. vs = us @ tr_left x \<and> pit_ticks (tr_pit x) = pit_ticks t + of_nat n \<and>
           (\<exists>zs \<in> shuffles us (beats (pit_ticks t) n). serial_sent (tr_serial x) = serial_sent s @ zs))) \<and>
     (vs = v # ws \<and> (pit_ticks t + 1) mod 100 = 0 \<longrightarrow>
        (\<exists>x l. transfers (transfer_start vs t s) x \<and> tr_left x = ws \<and>
           io_log (tr_serial x) = Out 0x3F8 v # Out 0x3F8 0x0A # l))"
proof -
  have "transfer_inv (serial_sent s) vs (pit_ticks t) (transfer_start vs t s)"
    using assms unfolding transfer_inv_def transfer_start_def
    by (intro conjI exI [of _ 0] exI [of _ "[]"]) (simp_all add: beats_def)
  then have inv: "transfer_inv (serial_sent s) vs (pit_ticks t) x" if "transfers (transfer_start vs t s) x" for x
    using that transfers_inv by blast
  have "\<exists>n us. vs = us @ tr_left x \<and> pit_ticks (tr_pit x) = pit_ticks t + of_nat n \<and>
      (\<exists>zs \<in> shuffles us (beats (pit_ticks t) n). serial_sent (tr_serial x) = serial_sent s @ zs)"
    if "transfers (transfer_start vs t s) x" for x
    using inv [OF that] unfolding transfer_inv_def by blast
  moreover have "\<exists>x l. transfers (transfer_start vs t s) x \<and> tr_left x = ws \<and> io_log (tr_serial x) = Out 0x3F8 v # Out 0x3F8 0x0A # l"
    if "vs = v # ws \<and> (pit_ticks t + 1) mod 100 = 0"
    using unguarded_byte [OF assms, of t v ws] that by simp
  ultimately show ?thesis using text_alone [of u t s] by (intro conjI allI impI)
qed

lemma serial_transfer_preempted_witness:
  "\<exists>x l. transfers (transfer_start [0x41] \<lparr>pit_ticks = 99\<rparr> sample_serial) x \<and>
     io_log (tr_serial x) = Out 0x3F8 0x41 # Out 0x3F8 0x0A # l"
proof -
  have "serial_ok sample_serial" by (simp add: serial_ok_def uart_ready_def sample_serial_def)
  from serial_transfer_preempted [OF this, of "[]" "\<lparr>pit_ticks = 99\<rparr>" "[0x41]" "0x41" "[]"] show ?thesis by auto
qed

end
