(* ===== verification/Vga_Tests.thy ===== *)
theory Vga_Tests
  imports Vga
begin

text \<open>
  \<^verbatim>\<open>src/kernel/test.c\<close>: the visual tests of the terminal, each a sequence of terminal calls that
  ends in a line saying what should be visible.  The text a test leaves is computed on a sheet
  of paper: the lines above the cursor, the current line around the cursor and the color.  The
  terminal keeps its screen in step with the paper, so the expectations become theorems.
\<close>

section \<open>Operations\<close>

definition in_order :: "('s \<Rightarrow> 's) list \<Rightarrow> 's \<Rightarrow> 's" where
  "in_order fs s = fold (\<lambda>f. f) fs s"

definition reset_color :: "'a vga_scheme \<Rightarrow> 'a vga_scheme" where
  "reset_color = terminal_setcolor (vga_entry_color VGA_COLOR_LIGHT_GREY VGA_COLOR_BLACK)"

definition print_section :: "cstring \<Rightarrow> 'a vga_scheme \<Rightarrow> 'a vga_scheme" where
  "print_section title = in_order
     [terminal_writestring [CHR 0x0A],
      terminal_setcolor (vga_entry_color VGA_COLOR_LIGHT_CYAN VGA_COLOR_BLACK),
      terminal_writestring ''== '',
      terminal_writestring title,
      terminal_writestring ('' =='' @ [CHR 0x0A]),
      reset_color]"

definition print_expected :: "cstring \<Rightarrow> 'a vga_scheme \<Rightarrow> 'a vga_scheme" where
  "print_expected txt = in_order
     [terminal_setcolor (vga_entry_color VGA_COLOR_LIGHT_BROWN VGA_COLOR_BLACK),
      terminal_writestring ''Expected: '',
      terminal_writestring txt,
      terminal_writestring [CHR 0x0A],
      reset_color]"

definition test_terminal_writestring :: "'a vga_scheme \<Rightarrow> 'a vga_scheme" where
  "test_terminal_writestring = in_order
     [print_section ''terminal_writestring'',
      terminal_writestring (''This line was printed with terminal_writestring().'' @ [CHR 0x0A]),
      print_expected ''A full sentence should appear above.'']"

definition test_terminal_putchar :: "'a vga_scheme \<Rightarrow> 'a vga_scheme" where
  "test_terminal_putchar = in_order
     [print_section ''terminal_putchar'',
      terminal_putchar CHR ''O'',
      terminal_putchar CHR ''K'',
      terminal_putchar (CHR 0x0A),
      print_expected ''OK'']"

definition test_terminal_write :: "'a vga_scheme \<Rightarrow> 'a vga_scheme" where
  "test_terminal_write = in_order
     [print_section ''terminal_write with explicit size'',
      terminal_write ''ABCDE-THIS-SHOULD-NOT-PRINT'' 5,
      terminal_putchar (CHR 0x0A),
      print_expected ''ABCDE'']"

definition test_newline :: "'a vga_scheme \<Rightarrow> 'a vga_scheme" where
  "test_newline = in_order
     [print_section (''newline: '' @ [CHR 0x5C] @ ''n''),
      terminal_writestring (''Line 1'' @ [CHR 0x0A]),
      terminal_writestring (''Line 2'' @ [CHR 0x0A]),
      terminal_writestring (''Line 3'' @ [CHR 0x0A]),
      print_expected ''Three separate lines.'']"

definition test_tab :: "'a vga_scheme \<Rightarrow> 'a vga_scheme" where
  "test_tab = in_order
     [print_section (''tab: '' @ [CHR 0x5C] @ ''t''),
      terminal_writestring (''A'' @ [CHR 0x09] @ ''B'' @ [CHR 0x09] @ ''C'' @ [CHR 0x0A]),
      print_expected ''A, B, and C should be spaced apart by tab stops.'']"

definition test_backspace_same_line :: "'a vga_scheme \<Rightarrow> 'a vga_scheme" where
  "test_backspace_same_line = in_order
     [print_section (''backspace on same line: '' @ [CHR 0x5C] @ ''b''),
      terminal_writestring (''ABC'' @ [CHR 0x08] @ ''D'' @ [CHR 0x0A]),
      print_expected ''ABD'']"

definition test_backspace_multiple_chars :: "'a vga_scheme \<Rightarrow> 'a vga_scheme" where
  "test_backspace_multiple_chars = in_order
     [print_section ''multiple backspaces'',
      terminal_writestring (''HELLO'' @ [CHR 0x08, CHR 0x08, CHR 0x08] @ ''P!'' @ [CHR 0x0A]),
      print_expected ''HEP!'']"

definition test_backspace_at_line_start :: "'a vga_scheme \<Rightarrow> 'a vga_scheme" where
  "test_backspace_at_line_start = in_order
     [print_section ''backspace at start of line'',
      terminal_writestring (''ABC'' @ [CHR 0x0A, CHR 0x08] @ ''Z'' @ [CHR 0x0A]),
      print_expected ''Z should appear at the far right of the previous line.'']"

definition test_carriage_return :: "'a vga_scheme \<Rightarrow> 'a vga_scheme" where
  "test_carriage_return = in_order
     [print_section (''carriage return: '' @ [CHR 0x5C] @ ''r''),
      terminal_writestring (''ABC'' @ [CHR 0x0D] @ ''Z'' @ [CHR 0x0A]),
      print_expected ''ZBC'']"

definition test_color_output :: "'a vga_scheme \<Rightarrow> 'a vga_scheme" where
  "test_color_output = in_order
     [print_section ''VGA color output'',
      terminal_setcolor (vga_entry_color VGA_COLOR_LIGHT_GREEN VGA_COLOR_BLACK),
      terminal_writestring (''This should be light green on black.'' @ [CHR 0x0A]),
      terminal_setcolor (vga_entry_color VGA_COLOR_LIGHT_RED VGA_COLOR_BLACK),
      terminal_writestring (''This should be light red on black.'' @ [CHR 0x0A]),
      terminal_setcolor (vga_entry_color VGA_COLOR_WHITE VGA_COLOR_BLUE),
      terminal_writestring (''This should be white text on a blue background.'' @ [CHR 0x0A]),
      reset_color,
      print_expected ''Three different color styles.'']"

definition test_line_wrapping :: "'a vga_scheme \<Rightarrow> 'a vga_scheme" where
  "test_line_wrapping = in_order
     [print_section ''line wrapping'',
      fold (\<lambda>i. terminal_putchar CHR ''X'') [0..<85],
      terminal_putchar (CHR 0x0A),
      print_expected ''80 X characters should fill one row, then wrap to the next row.'']"

definition test_tab_near_end_of_line :: "'a vga_scheme \<Rightarrow> 'a vga_scheme" where
  "test_tab_near_end_of_line = in_order
     [print_section ''tab near end of line'',
      fold (\<lambda>i. terminal_putchar CHR ''.'') [0..<77],
      terminal_writestring ([CHR 0x09] @ ''T'' @ [CHR 0x0A]),
      print_expected ''The T should not corrupt memory. It may wrap to the next line.'']"

definition test_terminal_clear_function :: "'a vga_scheme \<Rightarrow> 'a vga_scheme" where
  "test_terminal_clear_function = in_order
     [print_section ''terminal_clear'',
      terminal_writestring (''This text will disappear after terminal_clear().'' @ [CHR 0x0A]),
      terminal_clear,
      terminal_writestring (''terminal_clear() worked if this is near the top-left.'' @ [CHR 0x0A])]"

definition test_form_feed :: "'a vga_scheme \<Rightarrow> 'a vga_scheme" where
  "test_form_feed = in_order
     [print_section (''form feed: '' @ [CHR 0x5C] @ ''f''),
      terminal_writestring (''This text will disappear after form feed.'' @ [CHR 0x0A]),
      terminal_writestring [CHR 0x0C],
      terminal_writestring (''Form feed worked if the screen was cleared.'' @ [CHR 0x0A])]"

definition run_vga_tests :: "'a vga_scheme \<Rightarrow> 'a vga_scheme" where
  "run_vga_tests = in_order
     [terminal_initialize,
      terminal_setcolor (vga_entry_color VGA_COLOR_WHITE VGA_COLOR_BLUE),
      terminal_writestring (''wigOSX Stage 2 VGA Test Suite'' @ [CHR 0x0A]),
      reset_color,
      terminal_writestring (''These are visual tests. Read the Expected lines.'' @ [CHR 0x0A]),
      test_terminal_writestring, test_terminal_putchar, test_terminal_write,
      test_newline, test_tab, test_backspace_same_line, test_backspace_multiple_chars,
      test_backspace_at_line_start, test_carriage_return,
      test_color_output, test_line_wrapping, test_tab_near_end_of_line,
      test_terminal_clear_function, test_form_feed,
      terminal_writestring ([CHR 0x0A] @ ''All VGA visual tests finished.'' @ [CHR 0x0A])]"

section \<open>Paper\<close>

text \<open>
  A glyph is a character with its color, or in any color (a blank a line is filled up with).  The line the cursor is in is split at the cursor, the
  part before it reversed; what is right of a line is blank.  The lines above are newest first,
  at most 24 of them are remembered.
\<close>

type_synonym glyph = "char \<times> u8 option"

record paper =
  p_above :: "glyph list list"
  p_left :: "glyph list"
  p_right :: "glyph list"
  p_color :: u8

definition p_blank :: "u8 \<Rightarrow> paper" where
  "p_blank col = \<lparr>p_above = [], p_left = [], p_right = [], p_color = col\<rparr>"

definition p_line :: "paper \<Rightarrow> glyph list" where
  "p_line p = rev (p_left p) @ p_right p"

definition p_newline :: "paper \<Rightarrow> paper" where
  "p_newline p = p\<lparr>p_above := take 24 (p_line p # p_above p), p_left := [], p_right := []\<rparr>"

definition p_glyph :: "char \<Rightarrow> paper \<Rightarrow> paper" where
  "p_glyph c p =
     (let p1 = p\<lparr>p_left := (c, Some (p_color p)) # p_left p, p_right := tl (p_right p)\<rparr>
      in if length (p_left p1) = 80 then p_newline p1 else p1)"

definition p_erase :: "paper \<Rightarrow> paper option" where
  "p_erase p = (case p_left p of
       g # l \<Rightarrow> Some (p\<lparr>p_left := l, p_right := (CHR '' '', Some (p_color p)) # p_right p\<rparr>)
     | [] \<Rightarrow> (case p_above p of
           [] \<Rightarrow> None
         | l # ls \<Rightarrow>
             if p_right p \<noteq> [] then None
             else Some (p\<lparr>p_above := ls, p_left := rev (take 79 (l @ replicate 79 (CHR '' '', None))),
                    p_right := [(CHR '' '', Some (p_color p))]\<rparr>)))"

definition p_putchar :: "char \<Rightarrow> paper \<Rightarrow> paper option" where
  "p_putchar c p =
     (if c = CHR 0x0A then Some (p_newline p)
      else if c = CHR 0x0D then Some (p\<lparr>p_left := [], p_right := p_line p\<rparr>)
      else if c = CHR 0x09 then Some ((p_glyph CHR '' '' ^^ (4 - length (p_left p) mod 4)) p)
      else if c = CHR 0x08 then p_erase p
      else if c = CHR 0x0C then Some (p_blank (p_color p))
      else Some (p_glyph c p))"

fun p_write :: "string \<Rightarrow> paper \<Rightarrow> paper option" where
  "p_write [] p = Some p"
| "p_write (c # cs) p = Option.bind (p_putchar c p) (p_write cs)"

text \<open>A line of the screen shows a line of the paper when every glyph is in its cell in its color, blanks
  included, and every cell right of the line is blank in some color.\<close>

definition line_at :: "glyph list \<Rightarrow> nat \<Rightarrow> glyph" where
  "line_at l c = (if c < length l then l ! c else (CHR '' '', None))"

definition shows_glyph :: "u16 \<Rightarrow> glyph \<Rightarrow> bool" where
  "shows_glyph v g \<longleftrightarrow> (case snd g of Some col \<Rightarrow> v = vga_entry (fst g) col
     | None \<Rightarrow> \<exists>col. v = vga_entry (fst g) col)"

definition shows_line :: "(nat \<Rightarrow> u16) \<Rightarrow> glyph list \<Rightarrow> bool" where
  "shows_line row l \<longleftrightarrow> (\<forall>c<80. shows_glyph (row c) (line_at l c))"

definition on_paper :: "tscreen \<Rightarrow> paper \<Rightarrow> bool" where
  "on_paper t p \<longleftrightarrow>
     ts_row t < 25 \<and> ts_column t < 80 \<and> ts_column t = length (p_left p) \<and> ts_color t = p_color p \<and>
     length (p_above p) \<le> ts_row t \<and> shows_line (ts_cell t (ts_row t)) (p_line p) \<and>
     (\<forall>k<length (p_above p). shows_line (ts_cell t (ts_row t - 1 - k)) (p_above p ! k)) \<and>
     (\<forall>r. ts_row t < r \<and> r < 25 \<longrightarrow> shows_line (ts_cell t r) [])"

section \<open>The screen keeps in step with the paper\<close>

lemma shows_entry [simp]: "shows_glyph (vga_entry c col) (c, Some col)"
  by (simp add: shows_glyph_def)

lemma shows_blank [simp]: "shows_line (ts_blank_row t) []"
  by (auto simp: shows_line_def line_at_def shows_glyph_def ts_blank_row_def)

lemma shows_line_put:
  assumes "shows_line row l" "\<And>i. i < 80 \<Longrightarrow> i \<noteq> c \<Longrightarrow> line_at l' i = line_at l i"
    "c < 80 \<Longrightarrow> line_at l' c = (ch, Some col)"
  shows "shows_line (row(c := vga_entry ch col)) l'"
  unfolding shows_line_def
proof (intro allI impI)
  fix i :: nat assume i: "i < 80"
  show "shows_glyph ((row(c := vga_entry ch col)) i) (line_at l' i)"
  proof (cases "i = c")
    case True
    then show ?thesis using i assms(3) by simp
  next
    case False
    then have "shows_glyph (row i) (line_at l' i)" using assms(1,2) i by (simp add: shows_line_def)
    with False show ?thesis by simp
  qed
qed

lemma line_at_append: "line_at (k @ l) i = (if i < length k then k ! i else line_at l (i - length k))"
  by (auto simp: line_at_def nth_append)

lemma line_at_Cons: "line_at (g # l) i = (if i = 0 then g else line_at l (i - 1))"
  by (cases i) (auto simp: line_at_def)

lemma line_at_tl: "line_at (tl l) i = line_at l (Suc i)"
  by (cases l) (auto simp: line_at_def)

lemma line_at_blank [simp]: "line_at [] i = (CHR '' '', None)"
  by (simp add: line_at_def)

lemmas line_ats = line_at_append line_at_Cons line_at_tl

text \<open>Writing one cell of the cursor line, the rest of the page staying as it is.\<close>

lemma on_paper_put:
  assumes "on_paper t p" "c < 80" "shows_line ((ts_cell t (ts_row t))(c := vga_entry ch (ts_color t))) (p_line q)"
    "ts_column t' < 80" "ts_column t' = length (p_left q)" "p_above q = p_above p" "p_color q = p_color p"
    "ts_row t' = ts_row t" "ts_color t' = ts_color t" "ts_cell t' = ts_cell (ts_put (ts_row t) c ch t)"
  shows "on_paper t' q"
  using assms by (auto simp: on_paper_def ts_put_def)

lemma newline_on_paper:
  assumes on: "on_paper t p"
  shows "on_paper (ts_newline t) (p_newline p)"
proof -
  let ?q = "p_newline p"
  have above: "shows_line (ts_cell t (ts_row t - k)) (p_above ?q ! k)"
    if "k < length (p_above ?q)" for k
    using that on by (cases k) (auto simp: on_paper_def p_newline_def)
  show ?thesis
  proof (cases "ts_row t = 24")
    case True
    have "Suc (23 - k) = 24 - k" if "k < length (p_above ?q)" for k using that by (simp add: p_newline_def)
    with True show ?thesis using on above
      by (auto simp: on_paper_def ts_newline_def p_newline_def p_line_def)
  next
    case False
    then show ?thesis using on above
      by (auto simp: on_paper_def ts_newline_def p_newline_def p_line_def)
  qed
qed

lemma glyph_on_paper:
  assumes on: "on_paper t p"
  shows "on_paper (ts_glyph ch t) (p_glyph ch p)"
proof -
  let ?c = "length (p_left p)"
  let ?q = "p\<lparr>p_left := (ch, Some (p_color p)) # p_left p, p_right := tl (p_right p)\<rparr>"
  have col: "ts_column t = ?c" "?c < 80" "ts_color t = p_color p" using on by (simp_all add: on_paper_def)
  have row: "shows_line ((ts_cell t (ts_row t))(?c := vga_entry ch (ts_color t))) (p_line ?q)"
    unfolding col
    by (rule shows_line_put [where l = "p_line p"])
      (use on in \<open>auto simp: on_paper_def p_line_def line_ats Suc_diff_Suc\<close>)
  show ?thesis
  proof (cases "?c = 79")
    case True
    have "on_paper (ts_put (ts_row t) ?c ch t) (?q\<lparr>p_left := p_left p, p_right := (ch, Some (p_color p)) # tl (p_right p)\<rparr>)"
      by (rule on_paper_put [OF on col(2)]) (use row col in \<open>simp_all add: ts_put_def p_line_def\<close>)
    from newline_on_paper [OF this] True col show ?thesis
      by (simp add: ts_glyph_def p_glyph_def p_newline_def p_line_def Let_def)
  next
    case False
    have "on_paper ((ts_put (ts_row t) ?c ch t)\<lparr>ts_column := Suc ?c\<rparr>) ?q"
      by (rule on_paper_put [OF on col(2) row]) (use False col in \<open>simp_all add: ts_put_def\<close>)
    with False col show ?thesis by (simp add: ts_glyph_def p_glyph_def Let_def)
  qed
qed

lemma erase_on_paper:
  assumes on: "on_paper t p" and q: "p_erase p = Some q"
  shows "on_paper (ts_backspace t) q"
proof (cases "p_left p")
  case (Cons g l)
  have col: "ts_column t = Suc (length l)" "length l < 80" "ts_color t = p_color p"
    using on Cons by (simp_all add: on_paper_def)
  have "shows_line ((ts_cell t (ts_row t))(length l := vga_entry CHR '' '' (ts_color t))) (p_line q)"
    unfolding col
    by (rule shows_line_put [where l = "p_line p"])
      (use on q Cons in \<open>auto simp: on_paper_def p_line_def p_erase_def line_ats nth_append\<close>)
  then have "on_paper (ts_put (ts_row t) (length l) CHR '' '' (t\<lparr>ts_column := length l\<rparr>)) q"
    by (rule on_paper_put [OF on col(2)]) (use q Cons on col in \<open>auto simp: p_erase_def ts_put_def\<close>)
  with col show ?thesis by (simp add: ts_backspace_def)
next
  case Nil
  then obtain l ls where l: "p_above p = l # ls" "p_right p = []"
    and q: "q = p\<lparr>p_above := ls, p_left := rev (take 79 (l @ replicate 79 (CHR '' '', None))),
                    p_right := [(CHR '' '', Some (p_color p))]\<rparr>"
    using q by (auto simp: p_erase_def split: list.splits if_splits)
  have col: "ts_column t = 0" "ts_color t = p_color p" "0 < ts_row t" "ts_row t < 25" "length ls \<le> ts_row t - 1"
    using on Nil l by (auto simp: on_paper_def)
  have above: "shows_line (ts_cell t (ts_row t - Suc k)) ((l # ls) ! k)" if "k < Suc (length ls)" for k
    using on l that by (auto simp: on_paper_def)
  have row: "shows_line ((ts_cell t (ts_row t - 1))(79 := vga_entry CHR '' '' (p_color p))) (p_line q)"
    by (rule shows_line_put [where l = l])
      (use above [of 0] q in \<open>auto simp: p_line_def line_ats nth_append line_at_def\<close>)
  have below: "shows_line (ts_cell t r) []" if "ts_row t - 1 < r" "r < 25" for r
    using on Nil l that by (cases "r = ts_row t") (auto simp: on_paper_def p_line_def)
  show ?thesis
    using row below above [of "Suc _"] col q
    by (auto simp: ts_backspace_def on_paper_def ts_put_def)
qed

lemma tab_on_paper: "on_paper t p \<Longrightarrow> on_paper ((ts_glyph ch ^^ n) t) ((p_glyph ch ^^ n) p)"
  by (induction n) (auto intro: glyph_on_paper)

lemma clear_on_paper: "on_paper (ts_clear t) (p_blank (ts_color t))"
  by (auto simp: on_paper_def ts_clear_def p_blank_def p_line_def)

lemma putchar_on_paper:
  assumes "on_paper t p" "p_putchar c p = Some q"
  shows "on_paper (ts_putchar c t) q"
proof -
  have "ts_column t = length (p_left p)" "ts_color t = p_color p" using assms(1) by (simp_all add: on_paper_def)
  moreover have "on_paper (t\<lparr>ts_column := 0\<rparr>) (p\<lparr>p_left := [], p_right := p_line p\<rparr>)"
    using assms(1) by (simp add: on_paper_def p_line_def)
  ultimately show ?thesis
    using assms(2) newline_on_paper [OF assms(1)] glyph_on_paper [OF assms(1)] erase_on_paper [OF assms(1)]
      tab_on_paper [OF assms(1)] clear_on_paper [of t]
    by (auto simp: p_putchar_def ts_putchar_def split: if_splits)
qed

section \<open>Calls on paper\<close>

text \<open>A call writes on paper what \<open>g\<close> computes, and keeps the terminal in its invariant.\<close>

definition writes :: "('a vga_scheme \<Rightarrow> 'a vga_scheme) \<Rightarrow> (paper \<Rightarrow> paper option) \<Rightarrow> bool" where
  "writes f g \<longleftrightarrow> (\<forall>s p q. vga_ok s \<and> on_paper (screen s) p \<and> g p = Some q \<longrightarrow>
     vga_ok (f s) \<and> vga_frame s (f s) \<and> on_paper (screen (f s)) q)"

lemma writesD:
  "writes f g \<Longrightarrow> vga_ok s \<Longrightarrow> on_paper (screen s) p \<Longrightarrow> g p = Some q \<Longrightarrow>
     vga_ok (f s) \<and> vga_frame s (f s) \<and> on_paper (screen (f s)) q"
  by (simp add: writes_def)

lemma writes_nothing: "writes (in_order []) Some"
  by (simp add: writes_def in_order_def)

lemma writes_next:
  fixes f :: "'a vga_scheme \<Rightarrow> 'a vga_scheme"
  assumes "writes f g" "writes (in_order fs) h"
  shows "writes (in_order (f # fs)) (\<lambda>p. Option.bind (g p) h)"
  unfolding writes_def
proof (intro allI impI)
  fix s :: "'a vga_scheme" and p q
  assume "vga_ok s \<and> on_paper (screen s) p \<and> Option.bind (g p) h = Some q"
  then obtain p1 where s: "vga_ok s" "on_paper (screen s) p" and p1: "g p = Some p1" "h p1 = Some q"
    by (auto simp: bind_eq_Some_conv)
  note 1 = writesD [OF assms(1) s p1(1)]
  then have "vga_ok (f s)" "on_paper (screen (f s)) p1" by simp_all
  from writesD [OF assms(2) this p1(2)] 1
  show "vga_ok (in_order (f # fs) s) \<and> vga_frame s (in_order (f # fs) s) \<and> on_paper (screen (in_order (f # fs) s)) q"
    by (auto simp: in_order_def intro: vga_frame_trans)
qed

lemma writes_putchar: "writes (terminal_putchar c) (p_putchar c)"
  using putchar_step putchar_on_paper by (auto simp: writes_def vga_step_def)

lemma p_write_append: "p_write (t @ u) p = Option.bind (p_write t p) (p_write u)"
  by (induction t arbitrary: p) (simp_all split: Option.bind_split)

lemma writes_all: "writes (fold terminal_putchar t) (p_write t)"
proof (induction t)
  case Nil
  then show ?case by (simp add: writes_def)
next
  case (Cons c t)
  from writes_next [OF writes_putchar writes_next [OF Cons.IH writes_nothing], of c]
  show ?case by (simp add: in_order_def writes_def)
qed

lemma writes_string: "writes (terminal_writestring t) (p_write (c_text t))"
  using writes_all [of "c_text t"] by (simp add: writes_def writestring_eq_fold)

lemma writes_range: "n \<le> length t \<Longrightarrow> writes (terminal_write t n) (p_write (take n t))"
  using writes_all [of "take n t"] by (simp add: writes_def write_eq_fold)

lemma writes_repeat: "writes (fold (\<lambda>i. terminal_putchar c) [0..<n]) (p_write (replicate n c))"
proof -
  have "fold (\<lambda>i. terminal_putchar c) [0..<n] s = fold terminal_putchar (replicate n c) s" for s :: "'a vga_scheme"
    by (induction n) (simp_all flip: replicate_append_same)
  then show ?thesis using writes_all [of "replicate n c"] by (simp add: writes_def)
qed

lemma screen_color: "screen (s\<lparr>terminal_color := col\<rparr>) = (screen s)\<lparr>ts_color := col\<rparr>"
  by (simp add: screen_def cong: if_cong)

lemma writes_color: "writes (terminal_setcolor col) (\<lambda>p. Some (p\<lparr>p_color := col\<rparr>))"
  unfolding writes_def terminal_setcolor_def screen_color
  by (auto simp: vga_ok_def vga_frame_def on_paper_def p_line_def)

lemma writes_reset: "writes reset_color (\<lambda>p. Some (p\<lparr>p_color := 7\<rparr>))"
  using writes_color [of 7] by (simp add: reset_color_def vga_entry_color_def)

lemma writes_clear: "writes terminal_clear (\<lambda>p. Some (p_blank (p_color p)))"
  unfolding writes_def
proof (intro allI impI)
  fix s :: "'a vga_scheme" and p q
  assume s: "vga_ok s \<and> on_paper (screen s) p \<and> Some (p_blank (p_color p)) = Some q"
  then have "terminal_row s < 25" "terminal_column s < 80" by (simp_all add: vga_ok_def)
  from clear_step [OF this] clear_on_paper [of "screen s"] s
  show "vga_ok (terminal_clear s) \<and> vga_frame s (terminal_clear s) \<and> on_paper (screen (terminal_clear s)) q"
    by (simp add: vga_step_def on_paper_def)
qed

lemmas writes_calls = writes_nothing writes_next writes_putchar writes_string writes_color writes_reset
  writes_repeat writes_clear

text \<open>Headings and expectations are lines of their own.\<close>

definition in_color :: "u8 \<Rightarrow> string \<Rightarrow> glyph list" where
  "in_color col t = map (\<lambda>c. (c, Some col)) t"

definition plain :: "char \<Rightarrow> bool" where
  "plain c \<longleftrightarrow> c \<notin> {CHR 0x00, CHR 0x08, CHR 0x09, CHR 0x0A, CHR 0x0C, CHR 0x0D}"

lemma p_putchar_plain: "plain c \<Longrightarrow> p_putchar c p = Some (p_glyph c p)"
  by (simp add: p_putchar_def plain_def)

lemma in_color_simps [simp]:
  "in_color col [] = []" "length (in_color col t) = length t"
  "in_color col (replicate n c) = replicate n (c, Some col)"
  by (simp_all add: in_color_def)

lemma p_write_plain:
  "list_all plain t \<Longrightarrow> length (p_left p) + length t < 80 \<Longrightarrow>
   p_write t p = Some (p\<lparr>p_left := rev (in_color (p_color p) t) @ p_left p, p_right := drop (length t) (p_right p)\<rparr>)"
proof (induction t arbitrary: p)
  case (Cons c t)
  then show ?case by (simp add: p_putchar_plain p_glyph_def in_color_def drop_Suc Let_def)
qed simp

lemma p_write_line:
  assumes "list_all plain t" "length (p_left p) + length t < 80" "p_right p = []"
  shows "p_write (t @ [CHR 0x0A]) p = Some (p\<lparr>p_left := [],
    p_above := take 24 ((rev (p_left p) @ in_color (p_color p) t) # p_above p)\<rparr>)"
  using assms by (simp add: p_write_append p_write_plain p_putchar_def p_newline_def p_line_def)

lemma plain_text: "list_all plain t \<Longrightarrow> c_text t = t"
  by (rule c_text_no_NUL) (auto simp: list_all_iff plain_def)

text \<open>A plain text on a fresh line.\<close>

definition new_line :: "u8 \<Rightarrow> string \<Rightarrow> paper \<Rightarrow> paper option" where
  "new_line col t p =
     (if p_left p = [] \<and> p_right p = [] \<and> list_all plain t \<and> length t < 80
      then Some (p\<lparr>p_above := take 24 (in_color col t # p_above p)\<rparr>) else None)"

definition in_grey :: "paper \<Rightarrow> paper" where
  "in_grey p = p\<lparr>p_color := 7\<rparr>"

definition heading :: "string \<Rightarrow> paper \<Rightarrow> paper option" where
  "heading title p = Option.bind (new_line 7 [] p)
     (\<lambda>p. map_option in_grey (new_line 11 (''== '' @ title @ '' =='') p))"

definition expectation :: "string \<Rightarrow> paper \<Rightarrow> paper option" where
  "expectation t p = map_option in_grey (new_line 14 (''Expected: '' @ t) p)"

lemma p_write_new_line:
  "new_line (p_color p) t p = Some q \<Longrightarrow> p_write (t @ [CHR 0x0A]) p = Some q"
  by (auto simp: new_line_def p_write_line split: if_splits)

lemma writes_weaker:
  assumes "writes f g" "\<And>p q. h p = Some q \<Longrightarrow> g p = Some q"
  shows "writes f h"
  using assms unfolding writes_def by blast

lemma plain_line: "list_all plain t \<Longrightarrow> c_text (t @ [CHR 0x0A]) = t @ [CHR 0x0A]"
  by (rule c_text_no_NUL) (auto simp: list_all_iff plain_def)

lemma bare_newline: "c_text [CHR 0x0A] = [CHR 0x0A]" "p_write [CHR 0x0A] p = Some (p_newline p)" "p_putchar (CHR 0x0A) p = Some (p_newline p)"
  by (simp_all add: c_text_def p_putchar_def)

declare p_write.simps [simp del]

lemmas paper_writes = plain_text plain_line plain_def bare_newline p_write_plain p_write_line
  in_color_def p_newline_def p_line_def vga_entry_color_def in_grey_def new_line_def

lemma writes_section: "writes (print_section title) (heading title)"
  unfolding print_section_def
proof (rule writes_weaker, (rule writes_calls)+, goal_cases)
  case (1 p q)
  then have "p_left p = []" "p_right p = []" "list_all plain title" "length title < 74"
    by (auto simp: heading_def new_line_def split: if_splits)
  with 1 show ?case by (simp add: heading_def paper_writes p_write.simps(1) del: append_Cons append.simps)
    (cases p, auto)
qed

lemma writes_expected: "writes (print_expected t) (expectation t)"
  unfolding print_expected_def
proof (rule writes_weaker, (rule writes_calls)+, goal_cases)
  case (1 p q)
  then have "p_left p = []" "p_right p = []" "list_all plain t" "length t < 70"
    by (auto simp: expectation_def new_line_def split: if_splits)
  with 1 show ?case by (simp add: expectation_def paper_writes p_write.simps(1) del: append_Cons append.simps)
    (cases p, auto)
qed

text \<open>What a call leaves on the screen below a fresh page.\<close>

definition leaves :: "('a vga_scheme \<Rightarrow> 'a vga_scheme) \<Rightarrow> paper \<Rightarrow> paper \<Rightarrow> bool" where
  "leaves f p q \<longleftrightarrow> (\<forall>s. vga_ok s \<and> on_paper (screen s) p \<longrightarrow>
     vga_ok (f s) \<and> vga_frame s (f s) \<and> on_paper (screen (f s)) q)"

lemma leavesI: "writes f g \<Longrightarrow> g p = Some q \<Longrightarrow> leaves f p q"
  unfolding writes_def leaves_def by blast

text \<open>A test that keeps the page appends some lines, newest first.\<close>

definition page :: "glyph list list \<Rightarrow> paper" where
  "page ls = \<lparr>p_above = ls, p_left = [], p_right = [], p_color = 7\<rparr>"

definition appends :: "('a vga_scheme \<Rightarrow> 'a vga_scheme) \<Rightarrow> glyph list list \<Rightarrow> bool" where
  "appends f ls \<longleftrightarrow> (\<forall>old. leaves f (page old) (page (take 24 (rev ls @ old))))"

text \<open>Texts are written in the pieces the source shows, each run of plain characters at once.\<close>

definition text_writes :: "string \<Rightarrow> (paper \<Rightarrow> paper option) \<Rightarrow> bool" where
  "text_writes t g \<longleftrightarrow> (\<forall>p. p_write (c_text t) p = g p)"

lemma text_writes_last: "text_writes t (p_write (c_text t))"
  by (simp add: text_writes_def)

lemma c_text_append: "c_text (t @ u) = (if list_all (\<lambda>c. c \<noteq> NUL) t then t @ c_text u else c_text t)"
  by (auto simp: c_text_def list_all_iff takeWhile_append)

lemma text_writes_append:
  "text_writes u g \<Longrightarrow>
   text_writes (t @ u) (\<lambda>p. if list_all (\<lambda>c. c \<noteq> NUL) t then Option.bind (p_write t p) g else p_write (c_text t) p)"
  proof -
  assume "text_writes u g"
  then have "p_write (c_text u) = g" by (auto simp: text_writes_def)
  then show ?thesis by (simp add: text_writes_def c_text_append p_write_append)
qed

lemma writes_text: "text_writes t g \<Longrightarrow> writes (terminal_writestring t) g"
  using writes_string [of t] by (simp add: text_writes_def writes_def)

lemmas writes_tests = writes_nothing writes_next writes_putchar writes_color writes_reset writes_repeat
  writes_clear writes_section writes_expected text_writes_append text_writes_last writes_text

lemma p_write_control:
  "p_write [CHR 0x0A] p = Some (p_newline p)"
  "p_write [CHR 0x0D] p = Some (p\<lparr>p_left := [], p_right := p_line p\<rparr>)"
  "p_write [CHR 0x09] p = Some ((p_glyph CHR '' '' ^^ (4 - length (p_left p) mod 4)) p)"
  "p_write (CHR 0x08 # t) p = Option.bind (p_erase p) (p_write t)"
  "p_write (CHR 0x0A # CHR 0x08 # t) p = Option.bind (p_erase (p_newline p)) (p_write t)"
  "p_write [CHR 0x0C] p = Some (p_blank (p_color p))"
  "p_write [] p = Some p"
  by (simp_all add: p_write.simps p_putchar_def)

lemma p_glyphs:
  "length (p_left p) + n < 80 \<Longrightarrow>
   (p_glyph c ^^ n) p = p\<lparr>p_left := replicate n (c, Some (p_color p)) @ p_left p, p_right := drop n (p_right p)\<rparr>"
  by (induction n) (simp_all add: p_glyph_def Let_def tl_drop drop_Suc)

lemma p_glyphs_wrap:
  assumes "length (p_left p) + n = 80" "0 < n"
  shows "(p_glyph c ^^ n) p =
    p_newline (p\<lparr>p_left := replicate n (c, Some (p_color p)) @ p_left p, p_right := drop n (p_right p)\<rparr>)"
proof -
  obtain m where n: "n = Suc m" using assms(2) by (cases n) auto
  then have "length (p_left p) + m < 80" using assms(1) by simp
  then show ?thesis using assms(1) unfolding n by (simp add: p_glyphs p_glyph_def Let_def tl_drop drop_Suc)
qed

lemma p_write_replicate: "plain c \<Longrightarrow> p_write (replicate n c) p = Some ((p_glyph c ^^ n) p)"
  by (induction n arbitrary: p) (simp_all add: p_write.simps p_putchar_plain funpow_swap1)

lemma p_write_85: "plain c \<Longrightarrow> p_write (replicate 85 c) p = Some ((p_glyph c ^^ 5) ((p_glyph c ^^ 80) p))"
  using p_write_replicate [of c 85 p] funpow_add [of 5 80 "p_glyph c"] by simp

lemma p_write_wrap: "plain c \<Longrightarrow> length (p_left p) = 79 \<Longrightarrow>
    p_write [c] p = Some (p_newline (p\<lparr>p_left := (c, Some (p_color p)) # p_left p, p_right := tl (p_right p)\<rparr>))"
  by (simp add: p_write.simps p_putchar_plain p_glyph_def)

lemma replicate_3: "replicate 3 x = [x, x, x]"
  by (simp add: numeral_3_eq_3)

lemma c_text_plain: "list_all (\<lambda>c. c \<noteq> NUL) t \<Longrightarrow> c_text t = t"
  using c_text_append [of t "[]"] by (simp add: c_text_def)

lemma p_putchar_newline: "p_putchar (CHR 0x0A) p = Some (p_newline p)"
  by (simp add: p_putchar_def)

lemmas paper_shows = page_def heading_def expectation_def p_newline_def p_line_def vga_entry_color_def
  in_grey_def new_line_def p_write_control p_write_plain c_text_plain plain_def p_putchar_plain p_putchar_newline p_glyphs

lemma writes_abcde: "writes (terminal_write ''ABCDE-THIS-SHOULD-NOT-PRINT'' 5) (p_write ''ABCDE'')"
  using writes_range [of 5 "''ABCDE-THIS-SHOULD-NOT-PRINT''"] by simp

lemma test_terminal_writestring_shows:
  "appends test_terminal_writestring
     [[], in_color 11 ''== terminal_writestring =='',
      in_color 7 ''This line was printed with terminal_writestring().'',
      in_color 14 ''Expected: A full sentence should appear above.'']"
  unfolding appends_def test_terminal_writestring_def
  by (rule allI, rule leavesI, (rule writes_tests)+) (simp add: paper_shows)

lemma test_terminal_putchar_shows:
  "appends test_terminal_putchar
     [[], in_color 11 ''== terminal_putchar =='', in_color 7 ''OK'', in_color 14 ''Expected: OK'']"
  unfolding appends_def test_terminal_putchar_def
  by (rule allI, rule leavesI, (rule writes_tests)+) (simp add: paper_shows p_glyph_def in_color_def)

lemma test_terminal_write_shows:
  "appends test_terminal_write
     [[], in_color 11 ''== terminal_write with explicit size =='', in_color 7 ''ABCDE'',
      in_color 14 ''Expected: ABCDE'']"
  unfolding appends_def test_terminal_write_def
  by (rule allI, rule leavesI, (rule writes_tests writes_abcde)+) (simp add: paper_shows)

lemma test_newline_shows:
  "appends test_newline
     [[], in_color 11 (''== newline: '' @ [CHR 0x5C] @ ''n ==''), in_color 7 ''Line 1'', in_color 7 ''Line 2'',
      in_color 7 ''Line 3'', in_color 14 ''Expected: Three separate lines.'']"
  unfolding appends_def test_newline_def
  by (rule allI, rule leavesI, (rule writes_tests)+) (simp add: paper_shows)

lemma test_tab_shows:
  "appends test_tab
     [[], in_color 11 (''== tab: '' @ [CHR 0x5C] @ ''t ==''), in_color 7 ''A   B   C'',
      in_color 14 ''Expected: A, B, and C should be spaced apart by tab stops.'']"
  unfolding appends_def test_tab_def
  by (rule allI, rule leavesI, (rule writes_tests)+) (simp add: paper_shows p_erase_def in_color_def replicate_3 p_write_wrap)

lemma test_backspace_same_line_shows:
  "appends test_backspace_same_line
     [[], in_color 11 (''== backspace on same line: '' @ [CHR 0x5C] @ ''b ==''), in_color 7 ''ABD'',
      in_color 14 ''Expected: ABD'']"
  unfolding appends_def test_backspace_same_line_def
  by (rule allI, rule leavesI, (rule writes_tests)+) (simp add: paper_shows p_erase_def in_color_def replicate_3 p_write_wrap)

lemma test_backspace_multiple_chars_shows:
  "appends test_backspace_multiple_chars
     [[], in_color 11 ''== multiple backspaces =='', in_color 7 ''HEP! '',
      in_color 14 ''Expected: HEP!'']"
  unfolding appends_def test_backspace_multiple_chars_def
  by (rule allI, rule leavesI, (rule writes_tests)+) (simp add: paper_shows p_erase_def in_color_def replicate_3 p_write_wrap)

lemma test_carriage_return_shows:
  "appends test_carriage_return
     [[], in_color 11 (''== carriage return: '' @ [CHR 0x5C] @ ''r ==''), in_color 7 ''ZBC'',
      in_color 14 ''Expected: ZBC'']"
  unfolding appends_def test_carriage_return_def
  by (rule allI, rule leavesI, (rule writes_tests)+) (simp add: paper_shows p_erase_def in_color_def replicate_3 p_write_wrap)

lemma test_color_output_shows:
  "appends test_color_output
     [[], in_color 11 ''== VGA color output =='',
      in_color 10 ''This should be light green on black.'',
      in_color 12 ''This should be light red on black.'',
      in_color 31 ''This should be white text on a blue background.'',
      in_color 14 ''Expected: Three different color styles.'']"
  unfolding appends_def test_color_output_def
  by (rule allI, rule leavesI, (rule writes_tests)+) (simp add: paper_shows)

lemma test_backspace_at_line_start_shows:
  "appends test_backspace_at_line_start
     [[], in_color 11 ''== backspace at start of line =='',
      in_color 7 ''ABC'' @ replicate 76 (CHR '' '', None) @ in_color 7 ''Z'', [],
      in_color 14 ''Expected: Z should appear at the far right of the previous line.'']"
  unfolding appends_def test_backspace_at_line_start_def
  by (rule allI, rule leavesI, (rule writes_tests)+) (simp add: paper_shows p_erase_def in_color_def p_write_wrap)

lemma test_line_wrapping_shows:
  "appends test_line_wrapping
     [[], in_color 11 ''== line wrapping =='', in_color 7 (replicate 80 CHR ''X''), in_color 7 (replicate 5 CHR ''X''),
      in_color 14 ''Expected: 80 X characters should fill one row, then wrap to the next row.'']"
  unfolding appends_def test_line_wrapping_def
  by (rule allI, rule leavesI, (rule writes_tests)+)
    (simp add: paper_shows p_write_85 p_glyphs_wrap)

lemma test_tab_near_end_of_line_shows:
  "appends test_tab_near_end_of_line
     [[], in_color 11 ''== tab near end of line =='',
      in_color 7 (replicate 77 CHR ''.'' @ replicate 3 CHR '' ''), in_color 7 ''T'',
      in_color 14 ''Expected: The T should not corrupt memory. It may wrap to the next line.'']"
  unfolding appends_def test_tab_near_end_of_line_def
  by (rule allI, rule leavesI, (rule writes_tests)+)
    (simp add: paper_shows p_write_replicate p_glyphs_wrap in_color_def)

lemma test_terminal_clear_function_shows:
  "leaves test_terminal_clear_function (page old)
     (page [in_color 7 ''terminal_clear() worked if this is near the top-left.''])"
  unfolding test_terminal_clear_function_def
  by (rule leavesI, (rule writes_tests)+) (simp add: paper_shows p_blank_def page_def)

lemma test_form_feed_shows:
  "leaves test_form_feed (page old)
     (page [in_color 7 ''Form feed worked if the screen was cleared.''])"
  unfolding test_form_feed_def
  by (rule leavesI, (rule writes_tests)+) (simp add: paper_shows p_blank_def page_def)

text \<open>Every test that keeps the page, with the lines it adds to it.\<close>

definition visual_tests :: "(('a vga_scheme \<Rightarrow> 'a vga_scheme) \<times> glyph list list) list" where
  "visual_tests =
    [(test_terminal_writestring,
      [[], in_color 11 ''== terminal_writestring =='',
       in_color 7 ''This line was printed with terminal_writestring().'',
       in_color 14 ''Expected: A full sentence should appear above.'']),
     (test_terminal_putchar,
      [[], in_color 11 ''== terminal_putchar =='', in_color 7 ''OK'', in_color 14 ''Expected: OK'']),
     (test_terminal_write,
      [[], in_color 11 ''== terminal_write with explicit size =='', in_color 7 ''ABCDE'',
       in_color 14 ''Expected: ABCDE'']),
     (test_newline,
      [[], in_color 11 (''== newline: '' @ [CHR 0x5C] @ ''n ==''), in_color 7 ''Line 1'', in_color 7 ''Line 2'',
       in_color 7 ''Line 3'', in_color 14 ''Expected: Three separate lines.'']),
     (test_tab,
      [[], in_color 11 (''== tab: '' @ [CHR 0x5C] @ ''t ==''), in_color 7 ''A   B   C'',
       in_color 14 ''Expected: A, B, and C should be spaced apart by tab stops.'']),
     (test_backspace_same_line,
      [[], in_color 11 (''== backspace on same line: '' @ [CHR 0x5C] @ ''b ==''), in_color 7 ''ABD'',
       in_color 14 ''Expected: ABD'']),
     (test_backspace_multiple_chars,
      [[], in_color 11 ''== multiple backspaces =='', in_color 7 ''HEP! '',
       in_color 14 ''Expected: HEP!'']),
     (test_backspace_at_line_start,
      [[], in_color 11 ''== backspace at start of line =='',
       in_color 7 ''ABC'' @ replicate 76 (CHR '' '', None) @ in_color 7 ''Z'', [],
       in_color 14 ''Expected: Z should appear at the far right of the previous line.'']),
     (test_carriage_return,
      [[], in_color 11 (''== carriage return: '' @ [CHR 0x5C] @ ''r ==''), in_color 7 ''ZBC'',
       in_color 14 ''Expected: ZBC'']),
     (test_color_output,
      [[], in_color 11 ''== VGA color output =='',
       in_color 10 ''This should be light green on black.'',
       in_color 12 ''This should be light red on black.'',
       in_color 31 ''This should be white text on a blue background.'',
       in_color 14 ''Expected: Three different color styles.'']),
     (test_line_wrapping,
      [[], in_color 11 ''== line wrapping =='', in_color 7 (replicate 80 CHR ''X''), in_color 7 (replicate 5 CHR ''X''),
       in_color 14 ''Expected: 80 X characters should fill one row, then wrap to the next row.'']),
     (test_tab_near_end_of_line,
      [[], in_color 11 ''== tab near end of line =='',
       in_color 7 (replicate 77 CHR ''.'' @ replicate 3 CHR '' ''), in_color 7 ''T'',
       in_color 14 ''Expected: The T should not corrupt memory. It may wrap to the next line.''])]"

lemmas kept_pages = test_terminal_writestring_shows test_terminal_putchar_shows
  test_terminal_write_shows test_newline_shows test_tab_shows test_backspace_same_line_shows
  test_backspace_multiple_chars_shows test_backspace_at_line_start_shows test_carriage_return_shows
  test_color_output_shows test_line_wrapping_shows test_tab_near_end_of_line_shows

lemma visual_tests_append: "\<forall>(test, ls) \<in> set visual_tests. appends test ls"
  unfolding visual_tests_def by (simp only: list.set ball_simps prod.case kept_pages simp_thms)

lemma visual_test_shows:
  assumes "(test, ls) \<in> set visual_tests" "vga_ok s" "on_paper (screen s) (page old)"
  shows "vga_ok (test s) \<and> vga_frame s (test s) \<and> on_paper (screen (test s)) (page (take 24 (rev ls @ old)))"
  using visual_tests_append assms by (auto simp: appends_def leaves_def)

section \<open>The whole suite\<close>

lemma leaves_nothing: "leaves (in_order []) p p"
  by (simp add: leaves_def in_order_def)

lemma leaves_next:
  fixes f :: "'a vga_scheme \<Rightarrow> 'a vga_scheme"
  assumes "leaves f p q" "leaves (in_order fs) q r"
  shows "leaves (in_order (f # fs)) p r"
  unfolding leaves_def
proof (intro allI impI)
  fix s :: "'a vga_scheme" assume "vga_ok s \<and> on_paper (screen s) p"
  then have 1: "vga_ok (f s)" "vga_frame s (f s)" "on_paper (screen (f s)) q"
    using assms(1) by (auto simp: leaves_def)
  then have "vga_ok (in_order fs (f s))" "vga_frame (f s) (in_order fs (f s))" "on_paper (screen (in_order fs (f s))) r"
    using assms(2) by (auto simp: leaves_def)
  with 1 show "vga_ok (in_order (f # fs) s) \<and> vga_frame s (in_order (f # fs) s) \<and>
      on_paper (screen (in_order (f # fs) s)) r"
    by (auto simp: in_order_def intro: vga_frame_trans)
qed

lemma leaves_appends: "appends f ls \<Longrightarrow> leaves f (page old) (page (take 24 (rev ls @ old)))"
  by (simp add: appends_def)

lemma fresh_page: "on_paper (screen (terminal_initialize s)) (p_blank 7)"
  using initialize_step [of s] clear_on_paper [of "\<lparr>ts_cell = \<lambda>_ _. 0, ts_row = 0, ts_column = 0, ts_color = 7\<rparr>"]
  by simp

definition suite_banner :: "('a vga_scheme \<Rightarrow> 'a vga_scheme) list" where
  "suite_banner =
     [terminal_setcolor (vga_entry_color VGA_COLOR_WHITE VGA_COLOR_BLUE),
      terminal_writestring (''wigOSX Stage 2 VGA Test Suite'' @ [CHR 0x0A]),
      reset_color,
      terminal_writestring (''These are visual tests. Read the Expected lines.'' @ [CHR 0x0A])]"

lemma banner_shows: "leaves (in_order suite_banner) (p_blank 7)
    (page [in_color 7 ''These are visual tests. Read the Expected lines.'', in_color 31 ''wigOSX Stage 2 VGA Test Suite''])"
  unfolding suite_banner_def
  by (rule leavesI, (rule writes_tests)+) (simp add: paper_shows p_blank_def)

lemma conclusion_shows: "leaves (terminal_writestring ([CHR 0x0A] @ ''All VGA visual tests finished.'' @ [CHR 0x0A]))
    (page [in_color 7 ''Form feed worked if the screen was cleared.''])
    (page [in_color 7 ''All VGA visual tests finished.'', [], in_color 7 ''Form feed worked if the screen was cleared.''])"
  by (rule leavesI, (rule writes_tests)+) (simp add: paper_shows)

lemma tests_show: "leaves (in_order
     [test_terminal_writestring, test_terminal_putchar, test_terminal_write,
      test_newline, test_tab, test_backspace_same_line, test_backspace_multiple_chars,
      test_backspace_at_line_start, test_carriage_return,
      test_color_output, test_line_wrapping, test_tab_near_end_of_line,
      test_terminal_clear_function, test_form_feed,
      terminal_writestring ([CHR 0x0A] @ ''All VGA visual tests finished.'' @ [CHR 0x0A])]) (page old)
    (page [in_color 7 ''All VGA visual tests finished.'', [], in_color 7 ''Form feed worked if the screen was cleared.''])"
  by ((rule leaves_next leaves_appends kept_pages test_terminal_clear_function_shows test_form_feed_shows
        conclusion_shows leaves_nothing)+)

lemma in_order_append: "in_order (fs @ gs) s = in_order gs (in_order fs s)"
  by (simp add: in_order_def)

lemma run_vga_tests_shows:
  "vga_ok (run_vga_tests s) \<and> vga_frame s (run_vga_tests s) \<and>
   on_paper (screen (run_vga_tests s))
     (page [in_color 7 ''All VGA visual tests finished.'', [], in_color 7 ''Form feed worked if the screen was cleared.''])"
proof -
  let ?s = "terminal_initialize s" and ?t = "in_order suite_banner (terminal_initialize s)"
  have s: "vga_ok ?s" "vga_frame s ?s" using initialize_step [of s] by simp_all
  have t: "vga_ok ?t" "vga_frame ?s ?t"
    "on_paper (screen ?t) (page [in_color 7 ''These are visual tests. Read the Expected lines.'',
        in_color 31 ''wigOSX Stage 2 VGA Test Suite''])"
    using banner_shows s(1) fresh_page [of s] unfolding leaves_def by blast+
  have "run_vga_tests s = in_order [test_terminal_writestring, test_terminal_putchar, test_terminal_write,
      test_newline, test_tab, test_backspace_same_line, test_backspace_multiple_chars,
      test_backspace_at_line_start, test_carriage_return,
      test_color_output, test_line_wrapping, test_tab_near_end_of_line,
      test_terminal_clear_function, test_form_feed,
      terminal_writestring ([CHR 0x0A] @ ''All VGA visual tests finished.'' @ [CHR 0x0A])] ?t"
    by (simp only: run_vga_tests_def suite_banner_def in_order_def fold.simps comp_apply id_apply)
  moreover note tests_show [unfolded leaves_def, rule_format, OF conjI [OF t(1,3)]]
  ultimately show ?thesis using vga_frame_trans [OF vga_frame_trans [OF s(2) t(2)]] by (simp only:)
qed

section \<open>Properties\<close>

text \<open>C40. Every visual test that keeps the page shows, below whatever was on it, exactly its
  heading, the lines its source describes and its expectation, glyph by glyph and color by color,
  blanks included (so the blue behind the spaces of the color test); what is right of a line, and what
  the backspace at the start of a line jumps over, is blank in some color:
  ABD after the backspace, ZBC after the carriage return, a full row of 80 X characters followed
  by five, Z at the far right of the line above.  The terminal stays in its invariant and touches
  nothing else.\<close>

theorem visual_tests_show_expected:
  assumes "(test, ls) \<in> set visual_tests" "vga_ok s" "on_paper (screen s) (page old)"
  shows "vga_ok (test s) \<and> vga_frame s (test s) \<and> on_paper (screen (test s)) (page (take 24 (rev ls @ old)))"
  by (rule visual_test_shows [OF assms])

lemma visual_tests_show_expected_witness:
  "shows_line (ts_cell (screen (test_backspace_same_line (terminal_initialize blank_vga)))
     (ts_row (screen (test_backspace_same_line (terminal_initialize blank_vga))) - 2)) (in_color 7 ''ABD'')"
proof -
  let ?s = "terminal_initialize blank_vga"
  let ?ls = "[[], in_color 11 (''== backspace on same line: '' @ [CHR 0x5C] @ ''b ==''),
      in_color 7 ''ABD'', in_color 14 ''Expected: ABD'']"
  have s: "vga_ok ?s" "on_paper (screen ?s) (page [])"
    using initialize_step [of blank_vga] fresh_page [of blank_vga] by (simp_all add: page_def p_blank_def)
  have "(test_backspace_same_line, ?ls) \<in> set visual_tests"
    by (simp only: visual_tests_def list.set insert_iff simp_thms)
  from visual_tests_show_expected [OF this s]
  have "on_paper (screen (test_backspace_same_line ?s)) (page (take 24 (rev ?ls @ [])))" by (rule conjunct2 [THEN conjunct2])
  then show ?thesis by (auto simp: on_paper_def page_def numeral_2_eq_2 dest: spec [where x = 1])
qed

text \<open>Run on any machine at all, the whole suite ends with exactly the two closing lines on an
  otherwise blank screen - the form-feed test clears what the others showed - and with the
  terminal in its invariant, having touched nothing but the text cells and the CRT controller.\<close>

theorem visual_test_suite_ends:
  "vga_ok (run_vga_tests s) \<and> vga_frame s (run_vga_tests s) \<and>
   on_paper (screen (run_vga_tests s))
     (page [in_color 7 ''All VGA visual tests finished.'', [], in_color 7 ''Form feed worked if the screen was cleared.''])"
  by (rule run_vga_tests_shows)

end
