(* ===== verification/Spec2Isabelle.thy ===== *)
theory Spec2Isabelle
  imports Kernel_Session Linker Serial_Preemption Vga_Tests
begin

text \<open>
  Verification of the wigOSX kernel: a 32-bit freestanding kernel in C, started by a Multiboot
  loader, that sets up its memory, its tables and its devices, and then runs a command shell
  on characters the keyboard interrupt queues.  All paths are relative to \<^verbatim>\<open>src/src\<close> of the
  repository, headers to \<^verbatim>\<open>src/include/kernel\<close>.

  \<^bold>\<open>The program.\<close>  \<open>kernel_main\<close> (\<^verbatim>\<open>kernel/kernel.c\<close>) checks what the loader hands over, normalizes
  the memory map (\<^verbatim>\<open>kernel/memory.c\<close>), builds the frame allocator on it (\<^verbatim>\<open>mm/pmm.c\<close>), loads segment
  and interrupt tables, turns on paging (\<^verbatim>\<open>mm/vmm.c\<close>, \<^verbatim>\<open>paging.c\<close>), publishes the heap region, remaps
  and masks the interrupt controllers, registers two handlers, starts the timer and the shell,
  and enables interrupts.  Each initializer returns a status; \<open>kernel_require\<close> turns a bad one
  into a panic.  From then on two activities interleave: the loop of \<open>kernel_main\<close> over
  \<^verbatim>\<open>kernel/work.c\<close>, which takes a character from the queue and gives it to the shell or halts, and
  hardware interrupts, which reach \<open>irq_handler\<close> and through the registry of
  \<^verbatim>\<open>kernel/interrupts.c\<close> the timer (\<^verbatim>\<open>drivers/pit.c\<close>) or the keyboard (\<^verbatim>\<open>kernel/input.c\<close>,
  \<^verbatim>\<open>drivers/keyboard.c\<close>).  They share the queue of \<^verbatim>\<open>kernel/input.c\<close>.  Output goes through
  \<^verbatim>\<open>kernel/log.c\<close> to the console (\<^verbatim>\<open>kernel/console.c\<close>, the terminal of \<^verbatim>\<open>drivers/vga.c\<close>) and to
  the serial port (\<^verbatim>\<open>drivers/serial.c\<close>).

  \<^bold>\<open>How the model is built.\<close>  Machine integers keep their width (\<open>u8\<close> to \<open>u64\<close> of Prelude); only
  \<open>size_t\<close> cursors of the terminal and loop counters are natural numbers, with their bounds
  proved.  A C array is \<open>carray\<close>: its length and its cells, and an access outside it is \<open>None\<close>, so
  every theorem that gives \<open>Some\<close> also shows that no array is left.  The static variables of a
  module are a record named after the module; \<open>machine\<close>, \<open>vga\<close>, \<open>serial\<close>, \<open>klog\<close> and \<open>kernel\<close>
  extend one another, so an operation of a lower layer applies to the state of every higher one.
  A function that can panic returns an \<open>outcome\<close>, \<open>Returned\<close> or \<open>Stopped\<close>.  The step relations
  \<open>reading_step\<close>, \<open>foreground_step\<close>, \<open>session_foreground\<close> and their interrupts are inductive predicates.
\<close>

text \<open>
  \<^bold>\<open>The theories and what they model.\<close>
    \<^item> Prelude: integers, arrays, C strings, \<^verbatim>\<open>core/status.h\<close> (\<open>kernel_status\<close>).
    \<^item> Format: \<^verbatim>\<open>kernel/format.c\<close>.  The digit loops against \<open>decimal_text\<close> and \<open>hex_text\<close>, and that
      decimal text reads back as the number.
    \<^item> Memory: \<^verbatim>\<open>kernel/memory.c\<close>, \<^verbatim>\<open>boot/multiboot.h\<close>.  \<open>multiboot_table\<close> says which bytes are a table of
      entries; the reader accepts exactly those, and reads an encoded table back.
    \<^item> Layout: the symbols of \<^verbatim>\<open>linker/kernel.ld\<close> as a record, what the script promises as \<open>layout_ok\<close>.
    \<^item> Pmm, Pmm_Init: \<^verbatim>\<open>mm/pmm.c\<close>.  The bitmaps abstract to the sets \<open>free_set\<close> and \<open>alloc_set\<close>;
      allocation is next fit over the set, freeing accepts exactly allocated frames, and
      initialization leaves exactly \<open>boot_frames\<close> free.  The locale \<open>frame_marker\<close> lifts one frame to a
      range, \<open>frame_allocator\<close> is the contract of a client over any sequence of calls.
    \<^item> Machine: \<^verbatim>\<open>arch/i386/cpu/io.c\<close>, \<^verbatim>\<open>cpu.c\<close>, the loaded registers and the history of port accesses.
    \<^item> Sink: the locales \<open>char_device\<close> and \<open>text_sink\<close> of everything that prints, with the calculus of
      what a sequence of calls shows (\<open>prints_on\<close>).  Vga, Log and Kernel_State interpret them.
    \<^item> Vga: \<^verbatim>\<open>drivers/vga.c\<close>.  A plain 25 by 80 screen is refined by a moving window on text memory.
    \<^item> Serial: \<^verbatim>\<open>drivers/serial.c\<close> and \<^verbatim>\<open>kernel/console.c\<close>.  Log: \<^verbatim>\<open>kernel/log.c\<close>.
    \<^item> Serial_Preemption: a serial transfer as single port accesses (\<open>transfer_step\<close>) with the timer
      interrupt, which sends through the same port, between any two of them.
    \<^item> Report: \<^verbatim>\<open>core/version.h\<close>, the summaries of \<^verbatim>\<open>memory.c\<close> and \<^verbatim>\<open>pmm.c\<close>.
    \<^item> Input: \<^verbatim>\<open>kernel/input.c\<close>.  The ring buffer is a bounded queue
      (locale \<open>bounded_queue\<close>), also when the interrupt comes
      between any two accesses of the reader (\<open>reading_step\<close>).
    \<^item> Keyboard: \<^verbatim>\<open>drivers/keyboard.c\<close> and the handler of \<^verbatim>\<open>input.c\<close> that calls it.  A key event (\<open>key_event\<close>) is
      the bytes a keyboard sends for a plain or an extended key.
    \<^item> Interrupts: \<^verbatim>\<open>kernel/interrupts.c\<close>.  Pic: \<^verbatim>\<open>arch/i386/hardware/pic.c\<close> against the initialization
      protocol of the 8259.  Pit: \<^verbatim>\<open>drivers/pit.c\<close>, \<^verbatim>\<open>kernel/time.c\<close>.
    \<^item> Descriptors: \<^verbatim>\<open>arch/i386/memory/gdt.c\<close> and the table of \<^verbatim>\<open>arch/i386/interrupts/idt.c\<close>, against
      the processor's reading of a descriptor.
    \<^item> Paging: \<^verbatim>\<open>arch/i386/memory/paging.c\<close>, \<^verbatim>\<open>mm/vmm.c\<close>, against the two-level page walk.
    \<^item> Heap: \<^verbatim>\<open>mm/heap.c\<close>; \<open>kmalloc\<close> and \<open>kfree\<close> are stubs in the source.
    \<^item> Kernel_State: the whole state and its invariant \<open>kernel_ok\<close>; \<^verbatim>\<open>kernel/panic.c\<close>.
    \<^item> Shell, Shell_Line: \<^verbatim>\<open>kernel/shell.c\<close>.  Each command with the text it shows and all that it
      may change, the dispatch, and the line editor against \<open>line_after\<close> and \<open>line_echo\<close>.
    \<^item> Kernel: \<open>isr_handler\<close> and \<open>irq_handler\<close> of \<^verbatim>\<open>idt.c\<close>, with the registry composed with its two
      handlers (\<open>kernel_dispatch_irq\<close>); \<^verbatim>\<open>kernel/work.c\<close>.
    \<^item> System: the loop and the interrupts as a step relation; the invariant \<open>system_ok\<close>, progress, and
      what no step changes (\<open>system_const\<close>).
    \<^item> Preemption: a call of the shell as its statements and single characters, with interrupts before
      any of them (\<open>preempt_step\<close>); the console as a sink observed in full.
    \<^item> Session: the loop of System with every call taken apart as in Preemption (\<open>session_foreground\<close>,
      \<open>session_interrupt\<close>).  The invariant \<open>session_ok\<close>, progress, the rest every session comes to, and
      \<open>transcript\<close>, what a session shows; every execution of System is one of Session.
    \<^item> Boot: \<open>kernel_main\<close> up to the loop, as the list of its calls.  Each call is a \<open>stage\<close> that keeps
      what the earlier ones set up; \<open>leads\<close> composes them.  Both outcomes, and the composition with
      System: what boot established holds in every later configuration.
    \<^item> Linker: \<^verbatim>\<open>linker/kernel.ld\<close>.  The script as a function of the section sizes; every image it links
      satisfies \<open>layout_ok\<close>.
    \<^item> Cpu: the processor the assembly runs on: registers, segments loaded through their descriptors,
      the stack as 32-bit cells, the delivery of an interrupt and \<open>iret\<close>.  \<open>exec\<close> runs a list of
      instructions; \<open>pushed\<close> describes a stack by what was pushed on it.
    \<^item> Stubs: \<^verbatim>\<open>arch/i386/interrupts/isr_stubs.s\<close>, all 48 stubs.  \<open>take_interrupt\<close> goes from a vector through
      the loaded table and its stub to the C handler of Kernel, and back.
    \<^item> Entry: \<^verbatim>\<open>boot/multiboot.s\<close>, \<^verbatim>\<open>gdt_flush.s\<close>, \<^verbatim>\<open>idt_flush.s\<close>; the flushes refine \<open>gdt_flush\<close> and \<open>idt_flush\<close> of
      Descriptors.  The machine as a whole: from \<open>_start\<close> to the loop, and an interrupt of the running
      system as exactly one \<open>interrupt_step\<close> that the interrupted code cannot see.
    \<^item> Kernel_Session: Session from the state a boot leaves: from power-on to the screen, the lengths of
      all arrays, the frames, and interrupts through their stubs at any statement.
    \<^item> Vga_Tests: \<^verbatim>\<open>kernel/test.c\<close>, called by nothing in the kernel: the visual tests, against the lines
      of text they are meant to show, each glyph in its color.
\<close>

text \<open>
  \<^bold>\<open>Parameters and their hypotheses.\<close>  What the C code cannot see is an argument:
    \<^item> the devices: \<open>io_device\<close> answers a port read from the history of accesses.  Theorems on the
      interrupt controllers assume \<open>pic_device\<close>, that the mask registers read back what was
      written; \<open>bios_machine\<close> is an instance.  The serial theorems hold for every device;
      \<open>klog_ok\<close> names the case of a transmitter that always answers.
    \<^item> physical memory: a function from addresses to bytes, read by the Multiboot parser.  It is
      apart from the static variables, so the loader's structures do not change during boot.
    \<^item> the linker's symbols: \<open>layout\<close>, with \<open>layout_ok\<close>, which Linker derives from the script and the
      placement of four objects; \<open>sample_layout\<close> is an instance.  \<open>stubs_placed\<close> says that the 48
      stubs have different addresses.
    \<^item> the compiler: \<open>compiled\<close> is what the machine code of a C handler does to the processor, with the
      calling convention as \<open>abi_ok\<close>.  Its effect on the C variables is the model of the handler.
    \<^item> what the processor does with its tables: \<open>i386_translate\<close>, \<open>gate_offset\<close> and the like are the
      architecture's definitions, used in statements only.

  \<^bold>\<open>Bounds.\<close>  No definition takes fuel.  Loops are structural recursion, folds over index ranges, or
  functions with their termination proofs (\<open>for_range\<close>, the table reader, the bitmap loops, the
  wait for the transmitter).  The numbers are the code's: 100001 status reads of the
  transmitter, 16 interrupt lines, a queue and a line of 64 characters, 32 memory regions,
  \<open>2 ^ 20\<close> frames, 16384 text cells, tables of 3 and 256 descriptors, 4 page tables.

  \<^bold>\<open>Interrupts.\<close>  In System an interrupt comes before a round of the loop or between taking a
  character and the shell's call; a call of the shell is one step.  Session has no such steps: a call
  may be interrupted at every statement and every character of console text; a number read and printed, one call of the log,
  one line of the region table and the allocator's test are one statement, as what they touch of the
  kernel's state no handler touches.  The round that takes a
  character runs with interrupts off.  The finer interleaving with the
  reader of the queue, which shares its variables with a handler that writes them, is
  the theorem of Input, and that of the two writers of the serial port the theorem of
  Serial_Preemption.  An interrupt clears the flag, \<open>iret\<close> sets it again, and any interrupt ends
  the halt.  Handlers do not nest, as interrupt gates keep the flag clear.
\<close>

text \<open>
  \<^bold>\<open>Not modelled.\<close>  The Makefile, the menu of the loader and the script that checks include lines.
  The halt loop after \<open>kernel_main\<close> in \<^verbatim>\<open>multiboot.s\<close>, which is not reached.  Where the processor raises
  an exception in C code (the model's C code has no faults that its theorems do not exclude, as
  every access is checked), and interrupts between two C statements other than those of Interrupts
  above.  The stack as memory that can overflow: Cpu has the stack of the interrupted code and of the
  stubs, the frames of C functions are within \<open>compiled\<close>.  The fetch of the instruction after paging is turned
  on: \<open>layout_ok\<close> does not bound the image by the 16 MiB the tables map, and one that ends beyond
  them would fault there (\<open>image_stays_mapped\<close> is the case of one that does not).  Timing, caches, the control-flow
  enforcement whose exception 21 would carry an error code.  Of the C code nothing is left out: the
  lines without a definition are comments, includes and include guards, prototypes and external
  declarations (the definitions behind them are modelled), compile-time checks, the two packed
  pointer structures (pairs of a limit and a base in the model), the address of the text memory
  (whose cells the model numbers from 0), and macros no C code uses.

  \<^bold>\<open>The properties.\<close>  They span the code from the bottom up: the number formatter, both output
  devices and the log; the memory map, the allocator's calls and its initial state; tables, paging
  and heap region; interrupt registry, controllers, timer, keyboard and queue; the shell's
  commands and line editor; one whole interrupt in C and through its stub; the running system with
  interrupts everywhere they can come; boot and its refusals; boot composed with the running
  system, from power-on to the screen and down to the registers of the processor.
\<close>

end
